(* ===== verification/Shmily_Prelude.thy ===== *)
theory Shmily_Prelude
  imports Main "HOL-Library.Word" "HOL-Library.Monad_Syntax"
begin

text \<open>
  Shared vocabulary of the development.

  \<^item> The machine types of the C++ code: \<open>unsigned char\<close>, \<open>unsigned short\<close>,
    \<open>unsigned int\<close> and \<open>unsigned long long\<close> are words of 8, 16, 32 and 64 bits. A
    (signed) \<open>int\<close> that the code only compares and adds small numbers to is an \<open>int\<close>.
  \<^item> Array accesses: \<open>load\<close> and \<open>store\<close> are the accesses \<open>p[i]\<close> and
    \<open>p[i] = v\<close> to an object of which the list holds the cells. The value \<open>None\<close>
    stands for an access outside the object, which is undefined in C++. An operation of
    the code that faults for some inputs is therefore a partial function into
    \<open>option\<close>, and the lemmas that it returns \<open>Some\<close> are its memory safety.
  \<^item> The collections \<open>mem_simps\<close> (rules for array accesses) and \<open>word_conv\<close>
    (reading word arithmetic as arithmetic of natural numbers).
\<close>

unbundle bit_operations_syntax

type_synonym u8 = "8 word"
type_synonym u16 = "16 word"
type_synonym u32 = "32 word"
type_synonym u64 = "64 word"

text \<open>The bytes that a driver writes to ports, in order.\<close>

type_synonym port_log = "(u16 \<times> u8) list"

named_theorems mem_simps "accesses to arrays"
named_theorems word_conv "word arithmetic read as arithmetic of natural numbers"

section \<open>Array accesses\<close>

definition load :: "'a list \<Rightarrow> nat \<Rightarrow> 'a option" where
  "load xs i = (if i < length xs then Some (xs ! i) else None)"

definition store :: "'a list \<Rightarrow> nat \<Rightarrow> 'a \<Rightarrow> 'a list option" where
  "store xs i v = (if i < length xs then Some (xs[i := v]) else None)"

lemma load_in [mem_simps]: "i < length xs \<Longrightarrow> load xs i = Some (xs ! i)"
  by (simp add: load_def)

lemma store_in [mem_simps]: "i < length xs \<Longrightarrow> store xs i v = Some (xs[i := v])"
  by (simp add: store_def)

lemma load_out [mem_simps]: "length xs \<le> i \<Longrightarrow> load xs i = None"
  by (simp add: load_def)

lemma store_out [mem_simps]: "length xs \<le> i \<Longrightarrow> store xs i v = None"
  by (simp add: store_def)

lemma load_Some_iff: "load xs i = Some v \<longleftrightarrow> i < length xs \<and> v = xs ! i"
  by (auto simp: load_def)

lemma store_Some_iff: "store xs i v = Some ys \<longleftrightarrow> i < length xs \<and> ys = xs[i := v]"
  by (auto simp: store_def)

lemma store_length: "store xs i v = Some ys \<Longrightarrow> length ys = length xs"
  by (auto simp: store_Some_iff)

section \<open>Words\<close>

lemma unat_of_nat_small [word_conv]:
  "n < 2 ^ LENGTH('a::len) \<Longrightarrow> unat (of_nat n :: 'a word) = n"
  by (simp add: unat_of_nat)

lemma unat_add_small [word_conv]:
  fixes a b :: "'a::len word"
  shows "unat a + unat b < 2 ^ LENGTH('a) \<Longrightarrow> unat (a + b) = unat a + unat b"
  by (simp add: unat_word_ariths)

lemma unat_mult_small [word_conv]:
  fixes a b :: "'a::len word"
  shows "unat a * unat b < 2 ^ LENGTH('a) \<Longrightarrow> unat (a * b) = unat a * unat b"
  by (simp add: unat_word_ariths)

lemma unat_inc [word_conv]:
  fixes a b :: "'a::len word"
  assumes "a < b"
  shows "unat (a + 1) = Suc (unat a)"
proof -
  have "unat a < unat b" using assms by (simp add: word_less_nat_alt)
  moreover have "unat b < 2 ^ LENGTH('a)" by simp
  ultimately have less: "Suc (unat a) < 2 ^ LENGTH('a)" by linarith
  have "unat (a + 1) = (unat a + unat (1::'a word)) mod 2 ^ LENGTH('a)"
    by (simp add: unat_word_ariths)
  also have "\<dots> = Suc (unat a)" using less by simp
  finally show ?thesis .
qed

lemma unat_u32: "unat (w :: u32) < 4294967296"
proof -
  have "unat w < 2 ^ LENGTH(32)" by (rule unsigned_less)
  then show ?thesis by simp
qed

lemma word_eq_iff_unat: "a = b \<longleftrightarrow> unat a = unat (b :: 'a::len word)"
  by (simp add: word_unat_eq_iff)

lemma sint_unat_small: "unat (w :: u32) < 2 ^ 31 \<Longrightarrow> sint w = int (unat w)"
proof -
  assume "unat w < 2 ^ 31"
  then have "int (unat w) < int (2 ^ 31)" by (simp only: of_nat_less_iff)
  then have "uint w < 2 ^ 31" by simp
  moreover have "- 2147483648 \<le> uint w" using uint_ge_0 [of w] by linarith
  ultimately show "sint w = int (unat w)"
    by (simp add: sint_uint signed_take_bit_int_eq_self_iff)
qed

end
