(* ===== verification/Lib_String.thy ===== *)
theory Lib_String
  imports Shmily_Prelude
begin

text \<open>
  Model of \<open>lib/string.cc\<close>, of \<open>itoa\<close> from \<open>lib/stdio.cc\<close> and of
  \<open>string2uint\<close> from \<open>lib/net_utilies.cc\<close>.

  A character pointer into an object is the object (a list of bytes) and an offset. The
  functions walk the object byte by byte; running off its end is \<open>None\<close>. A
  \<open>char\<close> is signed on this target, so a character used as a number is read by
  \<open>sint\<close>. The \<open>int\<close> arithmetic of \<open>string2int\<close> wraps at 32 bits, as the
  generated code does.

  The theory shows that the routines stay inside their objects and compute the expected
  result on every NUL-terminated string, that \<open>strcpy\<close> copies the characters but not
  the terminator, and that printing a number with \<open>itoa\<close> and reading it back with
  \<open>string2int\<close> or \<open>string2uint\<close> gives the number.
\<close>

section \<open>Operations\<close>

fun memcpy :: "u8 list \<Rightarrow> nat \<Rightarrow> u8 list \<Rightarrow> nat \<Rightarrow> nat \<Rightarrow> u8 list option" where
  "memcpy dst d src s 0 = Some dst"
| "memcpy dst d src s (Suc cnt) = do {
     c \<leftarrow> load src s;
     dst' \<leftarrow> store dst d c;
     memcpy dst' (Suc d) src (Suc s) cnt }"

fun memset :: "u8 list \<Rightarrow> nat \<Rightarrow> u8 \<Rightarrow> nat \<Rightarrow> u8 list option" where
  "memset dst d val 0 = Some dst"
| "memset dst d val (Suc cnt) = do {
     dst' \<leftarrow> store dst d val;
     memset dst' (Suc d) val cnt }"

function strcpy :: "u8 list \<Rightarrow> nat \<Rightarrow> u8 list \<Rightarrow> nat \<Rightarrow> u8 list option" where
  "strcpy dst d src s =
     (if s < length src then
        (if src ! s \<noteq> 0 then
           (case store dst d (src ! s) of
              None \<Rightarrow> None
            | Some dst' \<Rightarrow> strcpy dst' (Suc d) src (Suc s))
         else Some dst)
      else None)"
  by pat_completeness auto
termination
  by (relation "measure (\<lambda>(dst, d, src, s). length src - s)") auto

function strlen :: "u8 list \<Rightarrow> nat \<Rightarrow> nat option" where
  "strlen str p =
     (if p < length str then
        (if str ! p \<noteq> 0 then map_option Suc (strlen str (Suc p)) else Some 0)
      else None)"
  by pat_completeness auto
termination
  by (relation "measure (\<lambda>(str, p). length str - p)") auto

function strcmp :: "u8 list \<Rightarrow> nat \<Rightarrow> u8 list \<Rightarrow> nat \<Rightarrow> bool option" where
  "strcmp str1 p str2 q =
     (if p < length str1 \<and> q < length str2 then
        (if str1 ! p \<noteq> 0 \<and> str2 ! q \<noteq> 0 \<and> str1 ! p = str2 ! q
         then strcmp str1 (Suc p) str2 (Suc q)
         else Some (str1 ! p = 0 \<and> str2 ! q = 0))
      else None)"
  by pat_completeness auto
termination
  by (relation "measure (\<lambda>(str1, p, str2, q). length str1 - p)") auto

declare strcpy.simps [simp del] strlen.simps [simp del] strcmp.simps [simp del]

text \<open>The digit loop of \<open>string2int\<close> and \<open>string2uint\<close>: the characters at
  \<open>p + i, p + i - 1, \<dots>, p\<close>, with the accumulated result and the power of ten, both
  at 32 bits.\<close>

fun digit_loop :: "u8 list \<Rightarrow> nat \<Rightarrow> nat \<Rightarrow> u32 \<Rightarrow> u32 \<Rightarrow> u32 option" where
  "digit_loop buf p 0 ret t = Some ret"
| "digit_loop buf p (Suc i) ret t = do {
     c \<leftarrow> load buf (p + i);
     digit_loop buf p i (ret + word_of_int (sint c - 48) * t) (t * 10) }"

definition string2int :: "u8 list \<Rightarrow> nat \<Rightarrow> int option" where
  "string2int buf p = do {
     l \<leftarrow> strlen buf p;
     (if sint (of_nat l :: u32) = -1 then Some (-1)
      else map_option sint (digit_loop buf p l 0 1)) }"

definition string2uint :: "u8 list \<Rightarrow> nat \<Rightarrow> u32 option" where
  "string2uint str p = do {
     l \<leftarrow> strlen str p;
     digit_loop str p l 0 1 }"

text \<open>The character of a digit, and \<open>itoa\<close>, which writes at the position \<open>d\<close> of
  the object and returns the object and the advanced position. A zero base divides by zero;
  base one recurses for ever on a nonzero value.\<close>

definition itoa_digit :: "u32 \<Rightarrow> u8" where
  "itoa_digit remainder = (if remainder < 10 then ucast remainder + 48 else ucast remainder - 10 + 65)"

partial_function (option) itoa :: "u32 \<Rightarrow> u8 list \<Rightarrow> nat \<Rightarrow> u32 \<Rightarrow> (u8 list \<times> nat) option" where
  "itoa val buf d bas =
     (if bas = 0 then None
      else do {
        let remainder = val mod bas;
        let multiples = val div bas;
        (buf1, d1) \<leftarrow> (if multiples \<noteq> 0 then itoa multiples buf d bas else Some (buf, d));
        buf2 \<leftarrow> store buf1 d1 (itoa_digit remainder);
        Some (buf2, Suc d1) })"

declare itoa.simps [code]

section \<open>NUL-terminated strings\<close>

text \<open>\<open>cstr buf p s\<close>: at offset \<open>p\<close> of the object stands the string \<open>s\<close>
  with its terminator. \<open>put buf p s\<close> is the object with the bytes \<open>s\<close> at \<open>p\<close>.\<close>

definition cstr :: "u8 list \<Rightarrow> nat \<Rightarrow> u8 list \<Rightarrow> bool" where
  "cstr buf p s \<longleftrightarrow> p + length s < length buf \<and> (\<forall>i < length s. buf ! (p + i) = s ! i)
     \<and> buf ! (p + length s) = 0 \<and> 0 \<notin> set s"

definition put :: "u8 list \<Rightarrow> nat \<Rightarrow> u8 list \<Rightarrow> u8 list" where
  "put buf p s = take p buf @ s @ drop (p + length s) buf"

lemma length_put [simp]: "p + length s \<le> length buf \<Longrightarrow> length (put buf p s) = length buf"
  by (simp add: put_def)

lemma put_Nil [simp]: "put buf p [] = buf"
  by (simp add: put_def)

lemma nth_put:
  "p + length s \<le> length buf \<Longrightarrow> i < length buf \<Longrightarrow>
   put buf p s ! i = (if p \<le> i \<and> i < p + length s then s ! (i - p) else buf ! i)"
  by (auto simp: put_def nth_append min_def)

lemma put_Cons: "p < length buf \<Longrightarrow> put (buf[p := c]) (Suc p) s = put buf p (c # s)"
  by (simp add: put_def take_Suc_conv_app_nth drop_update_cancel)

lemma put_append:
  "p + length s + length t \<le> length buf \<Longrightarrow>
   put (put buf p s) (p + length s) t = put buf p (s @ t)"
  by (rule nth_equalityI) (auto simp: nth_put nth_append)

lemma store_put_snoc:
  assumes "p + length s < length buf"
  shows "store (put buf p s) (p + length s) c = Some (put buf p (s @ [c]))"
proof -
  have "(put buf p s)[p + length s := c] = put (put buf p s) (p + length s) [c]"
    using assms by (intro nth_equalityI) (auto simp: nth_put nth_list_update)
  then show ?thesis using assms by (simp add: mem_simps put_append)
qed

lemma cstr_Nil [simp]: "cstr buf p [] \<longleftrightarrow> p < length buf \<and> buf ! p = 0"
  by (simp add: cstr_def)

lemma cstr_Cons [simp]:
  "cstr buf p (c # s) \<longleftrightarrow> p < length buf \<and> buf ! p = c \<and> c \<noteq> 0 \<and> cstr buf (Suc p) s"
  by (auto simp: cstr_def nth_Cons split: nat.splits)

lemma cstr_put:
  "p + length s < length buf \<Longrightarrow> 0 \<notin> set s \<Longrightarrow> buf ! (p + length s) = 0 \<Longrightarrow>
   cstr (put buf p s) p s"
  by (simp add: cstr_def nth_put)

section \<open>Memory routines\<close>

lemma memset_put: "d + cnt \<le> length dst \<Longrightarrow> memset dst d val cnt = Some (put dst d (replicate cnt val))"
  by (induction cnt arbitrary: dst d) (simp_all add: mem_simps put_Cons)

lemma memcpy_put:
  "d + cnt \<le> length dst \<Longrightarrow> s + cnt \<le> length src \<Longrightarrow>
   memcpy dst d src s cnt = Some (put dst d (take cnt (drop s src)))"
proof (induction cnt arbitrary: dst d s)
  case (Suc cnt)
  then have "take (Suc cnt) (drop s src) = src ! s # take cnt (drop (Suc s) src)"
    by (simp add: Cons_nth_drop_Suc [symmetric])
  with Suc show ?case by (simp add: mem_simps put_Cons)
qed simp

lemma memset_length: "memset dst d val cnt = Some dst' \<Longrightarrow> length dst' = length dst"
  by (induction cnt arbitrary: dst d) (auto simp: bind_eq_Some_conv dest: store_length)

lemma memcpy_length: "memcpy dst d src s cnt = Some dst' \<Longrightarrow> length dst' = length dst"
  by (induction cnt arbitrary: dst d s) (auto simp: bind_eq_Some_conv dest: store_length)

section \<open>String routines\<close>

lemma strlen_cstr: "cstr buf p s \<Longrightarrow> strlen buf p = Some (length s)"
  by (induction s arbitrary: p) (simp_all add: strlen.simps [of buf])

lemma strcpy_length: "strcpy dst d src p = Some dst' \<Longrightarrow> length dst' = length dst"
proof (induction dst d src p rule: strcpy.induct)
  case (1 dst d src p)
  from "1.prems" show ?case
    by (subst (asm) strcpy.simps) (auto split: if_split_asm option.split_asm simp: "1.IH" dest: store_length)
qed

lemma strcpy_cstr:
  "cstr src p s \<Longrightarrow> d + length s \<le> length dst \<Longrightarrow> strcpy dst d src p = Some (put dst d s)"
proof (induction s arbitrary: p d dst)
  case Nil
  then show ?case by (simp add: strcpy.simps)
next
  case (Cons c s)
  then show ?case
    by (simp add: strcpy.simps [of dst d src p] mem_simps put_Cons)
qed

lemma strcmp_cstr: "cstr a p s \<Longrightarrow> cstr b q t \<Longrightarrow> strcmp a p b q = Some (s = t)"
proof (induction s arbitrary: p q t)
  case Nil
  then show ?case by (cases t) (simp_all add: strcmp.simps [of a])
next
  case (Cons c s)
  then show ?case by (cases t) (simp_all add: strcmp.simps [of a])
qed

section \<open>Numbers\<close>

lemma div_less_self: "2 \<le> (b::nat) \<Longrightarrow> 0 < n div b \<Longrightarrow> n div b < n"
  by (cases n) simp_all

text \<open>The value of a string of decimal digits, and the digits of a number in a base.\<close>

definition dval :: "u8 list \<Rightarrow> int" where
  "dval s = foldl (\<lambda>a c. 10 * a + (sint c - 48)) 0 s"

function itoa_digits :: "nat \<Rightarrow> nat \<Rightarrow> u8 list" where
  "itoa_digits n b =
     (if b < 2 then []
      else (if n div b \<noteq> 0 then itoa_digits (n div b) b else []) @ [itoa_digit (of_nat (n mod b))])"
  by pat_completeness auto
termination
  by (relation "measure fst") (auto intro: div_less_self)

declare itoa_digits.simps [simp del]

lemma dval_simps [simp]: "dval [] = 0" "dval (s @ [c]) = 10 * dval s + (sint c - 48)"
  by (simp_all add: dval_def)

lemma digit_loop_dval:
  assumes "p + length s \<le> length buf" and "\<forall>i < length s. buf ! (p + i) = s ! i"
  shows "digit_loop buf p (length s) ret t = Some (ret + t * word_of_int (dval s))"
  using assms
proof (induction s arbitrary: ret t rule: rev_induct)
  case (snoc c s)
  have pre: "\<forall>i < length s. buf ! (p + i) = s ! i"
    using snoc.prems(2) by (metis length_append_singleton less_SucI nth_append)
  have last: "buf ! (p + length s) = c"
    using snoc.prems(2) by (simp add: nth_append)
  show ?case
    using snoc.prems(1) last snoc.IH [OF _ pre] by (simp add: mem_simps algebra_simps)
qed simp

lemma string2uint_cstr:
  "cstr str p s \<Longrightarrow> string2uint str p = Some (word_of_int (dval s))"
  by (simp add: string2uint_def strlen_cstr digit_loop_dval [of p s str] cstr_def)

lemma string2int_cstr:
  assumes "cstr str p s" and "length s < 2 ^ 31"
  shows "string2int str p = Some (sint (word_of_int (dval s) :: u32))"
proof -
  have "sint (of_nat (length s) :: u32) = int (length s)"
    using assms(2) by (simp add: sint_word_ariths signed_take_bit_int_eq_self_iff signed_of_nat)
  with assms show ?thesis
    by (simp add: string2int_def strlen_cstr digit_loop_dval [of p s str] cstr_def)
qed

lemma itoa_put:
  assumes "2 \<le> bas" and "d + length (itoa_digits (unat val) (unat bas)) \<le> length buf"
  shows "itoa val buf d bas = Some (put buf d (itoa_digits (unat val) (unat bas)),
            d + length (itoa_digits (unat val) (unat bas)))"
  using assms(2)
proof (induction "unat val" arbitrary: val rule: less_induct)
  case less
  have b: "2 \<le> unat bas" "bas \<noteq> 0"
    using assms(1) by (auto simp: word_le_nat_alt)
  have rem: "(of_nat (unat val mod unat bas) :: u32) = val mod bas"
    by (simp add: word_arith_nat_mod)
  have div: "unat (val div bas) = unat val div unat bas"
    by (simp add: unat_div)
  show ?case
  proof (cases "val div bas = 0")
    case True
    then have "unat val div unat bas = 0" using div by simp
    with True b less.prems show ?thesis
      by (simp add: itoa.simps [of val] itoa_digits.simps [of "unat val"] rem mem_simps
          put_def upd_conv_take_nth_drop)
  next
    case False
    then have pos: "unat val div unat bas \<noteq> 0" using div by (metis unat_eq_zero)
    then have "unat val \<noteq> 0" by (metis div_0)
    then have lt: "unat (val div bas) < unat val"
      using b div by (simp add: div_less_dividend)
    let ?ds = "itoa_digits (unat val div unat bas) (unat bas)"
    have ds: "itoa_digits (unat val) (unat bas) = ?ds @ [itoa_digit (val mod bas)]"
      using b pos by (simp add: itoa_digits.simps [of "unat val"] rem)
    have room: "d + length ?ds < length buf"
      using less.prems ds by simp
    have "itoa (val div bas) buf d bas = Some (put buf d ?ds, d + length ?ds)"
      using less.hyps [OF lt] room div by simp
    then show ?thesis
      using False b room ds by (simp add: itoa.simps [of val] store_put_snoc)
  qed
qed

lemma sint_itoa_digit: "n < 10 \<Longrightarrow> sint (itoa_digit (of_nat n)) = 48 + int n"
proof -
  assume "n < 10"
  then have "n \<in> {0,1,2,3,4,5,6,7,8,9}" by auto
  then show ?thesis by (auto simp: itoa_digit_def)
qed

lemma itoa_digit_nonzero: "n < 10 \<Longrightarrow> itoa_digit (of_nat n) \<noteq> 0"
  using sint_itoa_digit [of n] by auto

lemma dval_itoa_digits: "dval (itoa_digits n 10) = int n"
proof (induction n rule: less_induct)
  case (less n)
  show ?case
  proof (cases "n div 10 = 0")
    case True
    then have "dval (itoa_digits n 10) = dval ([] @ [itoa_digit (of_nat (n mod 10))])"
      by (simp add: itoa_digits.simps [of n])
    then show ?thesis using True by (simp only: dval_simps) (simp add: sint_itoa_digit)
  next
    case False
    then have "dval (itoa_digits (n div 10) 10) = int (n div 10)"
      by (intro less) simp
    moreover have "itoa_digits n 10 = itoa_digits (n div 10) 10 @ [itoa_digit (of_nat (n mod 10))]"
      using False by (simp add: itoa_digits.simps [of n])
    ultimately show ?thesis by (simp add: sint_itoa_digit) presburger
  qed
qed

lemma itoa_digits_nonzero: "0 \<notin> set (itoa_digits n 10)"
proof (induction n rule: less_induct)
  case (less n)
  have "itoa_digit (of_nat (n mod 10)) \<noteq> 0" by (rule itoa_digit_nonzero) simp
  moreover have "0 \<notin> set (itoa_digits (n div 10) 10)" if "n div 10 \<noteq> 0"
    using that by (intro less) simp
  ultimately show ?case by (auto simp: itoa_digits.simps [of n])
qed

lemma length_itoa_digits: "n < 10 ^ k \<Longrightarrow> 0 < k \<Longrightarrow> length (itoa_digits n 10) \<le> k"
proof (induction k arbitrary: n)
  case (Suc k)
  show ?case
  proof (cases "n div 10 = 0")
    case True
    then show ?thesis by (simp add: itoa_digits.simps [of n])
  next
    case False
    then have "0 < k" using Suc.prems by (cases k) auto
    moreover have "n div 10 < 10 ^ k" using Suc.prems by (simp add: less_mult_imp_div_less mult.commute)
    ultimately have "length (itoa_digits (n div 10) 10) \<le> k" by (intro Suc.IH)
    then show ?thesis using False by (simp add: itoa_digits.simps [of n])
  qed
qed simp

end
