(* ===== verification/Byte_Codec.thy ===== *)
theory Byte_Codec
  imports Lib_String
begin

text \<open>
  The memory layout of the words that the program keeps in packed structures: little-endian
  bytes, as on the machine the program runs on. Structures on the disk and in packets are
  encoded with these functions; every decoder is inverse to its encoder.
\<close>

definition enc16 :: "u16 \<Rightarrow> u8 list" where
  "enc16 w = [ucast w, ucast (drop_bit 8 w)]"

definition dec16 :: "u8 list \<Rightarrow> u16" where
  "dec16 bs = ucast (bs ! 0) OR push_bit 8 (ucast (bs ! 1))"

definition enc32 :: "u32 \<Rightarrow> u8 list" where
  "enc32 w = [ucast w, ucast (drop_bit 8 w), ucast (drop_bit 16 w), ucast (drop_bit 24 w)]"

definition dec32 :: "u8 list \<Rightarrow> u32" where
  "dec32 bs = ucast (bs ! 0) OR push_bit 8 (ucast (bs ! 1)) OR push_bit 16 (ucast (bs ! 2))
     OR push_bit 24 (ucast (bs ! 3))"

definition enc64 :: "u64 \<Rightarrow> u8 list" where
  "enc64 w = enc32 (ucast w) @ enc32 (ucast (drop_bit 32 w))"

definition dec64 :: "u8 list \<Rightarrow> u64" where
  "dec64 bs = ucast (dec32 bs) OR push_bit 32 (ucast (dec32 (drop 4 bs)))"

lemma length_enc [simp]: "length (enc16 v) = 2" "length (enc32 w) = 4" "length (enc64 x) = 8"
  by (simp_all add: enc16_def enc32_def enc64_def)

lemma dec16_enc16 [simp]: "dec16 (enc16 w @ bs) = w"
  by (rule bit_word_eqI) (auto simp: dec16_def enc16_def bit_simps)

lemma dec32_enc32 [simp]: "dec32 (enc32 w @ bs) = w"
proof (rule bit_word_eqI)
  fix n
  assume "n < LENGTH(32)"
  then show "bit (dec32 (enc32 w @ bs)) n = bit w n"
    by (cases "n < 16"; cases "n < 24") (auto simp: dec32_def enc32_def bit_simps)
qed

lemma dec64_enc64 [simp]: "dec64 (enc64 w @ bs) = w"
  unfolding dec64_def enc64_def
  by (rule bit_word_eqI) (auto simp: bit_simps)

lemma dec_enc_self [simp]: "dec16 (enc16 v) = v" "dec32 (enc32 w) = w" "dec64 (enc64 x) = x"
  using dec16_enc16 [of v "[]"] dec32_enc32 [of w "[]"] dec64_enc64 [of x "[]"] by simp_all

lemma dec32_take [simp]: "4 \<le> n \<Longrightarrow> dec32 (take n bs) = dec32 bs"
  by (simp add: dec32_def)

text \<open>Reading a word at an offset of an object, and writing one.\<close>

definition load32 :: "u8 list \<Rightarrow> nat \<Rightarrow> u32 option" where
  "load32 bs p = (if p + 4 \<le> length bs then Some (dec32 (drop p bs)) else None)"

definition store32 :: "u8 list \<Rightarrow> nat \<Rightarrow> u32 \<Rightarrow> u8 list option" where
  "store32 bs p w = (if p + 4 \<le> length bs then Some (put bs p (enc32 w)) else None)"

lemma drop_put: "p + length s \<le> length buf \<Longrightarrow> drop p (put buf p s) = s @ drop (p + length s) buf"
  by (simp add: put_def)

lemma load32_store32: "store32 bs p w = Some bs' \<Longrightarrow> load32 bs' p = Some w \<and> length bs' = length bs"
  by (auto simp: store32_def load32_def drop_put split: if_splits)

end
