(* ===== verification/Image.thy ===== *)
theory Image
  imports Byte_Codec
begin

text \<open>
  Model of the tool that puts the kernel and the servers into one image (\<open>tools/build_img.cc\<close>): a
  table of 64 bytes with the offsets of the six modules, and the modules one after the other. The
  files are byte lists, and the image is what the file held before, with a position at which
  bytes are written: the tool opens it without cutting it off. That every file opens, and what the tool
  prints, is not modelled.

  The theory shows that the offset in the table leads to each module, as the loader in \<open>kernel/init.s\<close>
  expects, and how an older, longer image shows behind the new one.
\<close>

section \<open>The tool\<close>

type_synonym module_table = "u8 list \<times> nat"

definition install_module_table :: "module_table \<Rightarrow> u32 \<Rightarrow> module_table option" where
  "install_module_table mt off = map_option (\<lambda>t. (t, snd mt + 4)) (store32 (fst mt) (snd mt) (64 + off))"

definition write_bytes :: "u8 list \<times> nat \<Rightarrow> u8 list \<Rightarrow> u8 list \<times> nat" where
  "write_bytes img bs = (put (fst img) (snd img) bs, snd img + length bs)"

text \<open>\<open>while (n = read(module, buf, 256)) write(image, buf, n)\<close>\<close>

function copy_module :: "u8 list \<times> nat \<Rightarrow> u8 list \<Rightarrow> u8 list \<times> nat" where
  "copy_module img rest = (if rest = [] then img else copy_module (write_bytes img (take 256 rest)) (drop 256 rest))"
  by pat_completeness auto
termination by (relation "measure (\<lambda>(img, rest). length rest)") auto

declare copy_module.simps [simp del]

fun install_all_modules :: "module_table \<Rightarrow> u32 list \<Rightarrow> module_table option" where
  "install_all_modules mt [] = Some mt"
| "install_all_modules mt (off # offs) = Option.bind (install_module_table mt off) (\<lambda>mt1. install_all_modules mt1 offs)"

definition build_image :: "u8 list \<Rightarrow> u8 list \<Rightarrow> u8 list \<Rightarrow> u8 list \<Rightarrow> u8 list \<Rightarrow> u8 list \<Rightarrow> u8 list \<Rightarrow> u8 list option" where
  "build_image old krn mm fs dr net terminal = do {
     let k = length krn;
     let m = length mm;
     let f = length fs;
     let d = length dr;
     let n = length net;
     (m_table, _) \<leftarrow> install_all_modules (replicate 64 0, 0)
       [0, of_nat k, of_nat (k + m), of_nat (k + m + f), of_nat (k + m + f + d), of_nat (k + m + f + d + n)];
     Some (fst (foldl copy_module (write_bytes (old, 0) m_table) [krn, mm, fs, dr, net, terminal])) }"

section \<open>The image\<close>

text \<open>Writing at the end of what has been written.\<close>

lemma write_bytes_end: "write_bytes (a @ old, length a) bs = ((a @ bs) @ drop (length bs) old, length (a @ bs))"
  by (simp add: write_bytes_def put_def)

lemma copy_module_end: "copy_module (a @ old, length a) rest = ((a @ rest) @ drop (length rest) old, length (a @ rest))"
proof (induction "length rest" arbitrary: a old rest rule: less_induct)
  case less
  show ?case
  proof (cases "rest = []")
    case False
    have "copy_module (a @ old, length a) rest = copy_module (write_bytes (a @ old, length a) (take 256 rest)) (drop 256 rest)"
      using False by (subst copy_module.simps) simp
    also have "\<dots> = copy_module ((a @ take 256 rest) @ drop (length (take 256 rest)) old, length (a @ take 256 rest)) (drop 256 rest)"
      by (simp only: write_bytes_end)
    also have "\<dots> = (((a @ take 256 rest) @ drop 256 rest) @ drop (length (drop 256 rest)) (drop (length (take 256 rest)) old),
        length ((a @ take 256 rest) @ drop 256 rest))"
      using False by (intro less) simp
    finally show ?thesis by (simp add: min_def)
  qed (simp add: copy_module.simps)
qed

lemma copy_modules_end:
  "foldl copy_module (a @ old, length a) ms = ((a @ concat ms) @ drop (length (concat ms)) old, length (a @ concat ms))"
proof (induction ms arbitrary: a old)
  case (Cons m ms)
  then show ?case using Cons.IH [of "a @ m" "drop (length m) old"] by (simp only: foldl.simps copy_module_end) (simp add: add.commute)
qed simp

lemma install_entries:
  assumes "length (concat (map enc32 es)) + length z = 64" and "4 * length offs \<le> length z"
  shows "install_all_modules (concat (map enc32 es) @ z, 4 * length es) offs
    = Some (concat (map enc32 (es @ map (\<lambda>off. 64 + off) offs)) @ drop (4 * length offs) z, 4 * length (es @ offs))"
  using assms
proof (induction offs arbitrary: es z)
  case (Cons off offs)
  let ?es = "es @ [64 + off]"
  have l: "length (concat (map enc32 es)) = 4 * length es" by (induction es) simp_all
  have "install_module_table (concat (map enc32 es) @ z, 4 * length es) off = Some (concat (map enc32 ?es) @ drop 4 z, 4 * length ?es)"
    using Cons.prems l by (simp add: install_module_table_def store32_def put_def)
  then show ?case using Cons.IH [of ?es "drop 4 z"] Cons.prems by (simp add: add.commute)
qed simp

definition module_offsets :: "nat \<Rightarrow> u8 list list \<Rightarrow> nat list" where
  "module_offsets start ms = map (\<lambda>k. start + length (concat (take k ms))) [0 ..< length ms]"

lemma build_image_layout:
  "build_image old krn mm fs dr net terminal
    = Some (concat (map enc32 (map of_nat (module_offsets 64 [krn, mm, fs, dr, net, terminal]))) @ replicate 40 0
        @ concat [krn, mm, fs, dr, net, terminal] @ drop (64 + length (concat [krn, mm, fs, dr, net, terminal])) old)"
proof -
  let ?ms = "[krn, mm, fs, dr, net, terminal]"
  let ?offs = "map (\<lambda>k. of_nat (length (concat (take k ?ms)))) [0 ..< 6] :: u32 list"
  define t where "t = concat (map enc32 (map of_nat (module_offsets 64 ?ms))) @ replicate 40 0"
  have o: "?offs = [0, of_nat (length krn), of_nat (length krn + length mm), of_nat (length krn + length mm + length fs),
      of_nat (length krn + length mm + length fs + length dr), of_nat (length krn + length mm + length fs + length dr + length net)]"
    by (simp add: upt_rec numeral_nat add.assoc)
  have e: "map (\<lambda>off. 64 + off) ?offs = map of_nat (module_offsets 64 ?ms)" by (simp add: module_offsets_def upt_rec numeral_nat)
  have i: "install_all_modules (replicate 64 0, 0) ?offs = Some (t, 24)"
    using install_entries [of "[]" "replicate 64 0" ?offs] unfolding e by (simp add: t_def)
  have "length t = 64" by (simp add: t_def module_offsets_def upt_rec numeral_nat)
  then have "foldl copy_module (write_bytes (old, 0) t) ?ms = ((t @ concat ?ms) @ drop (length (concat ?ms)) (drop 64 old), length (t @ concat ?ms))"
    using write_bytes_end [of "[]" old t] copy_modules_end [of t "drop 64 old" ?ms] by simp
  then have "build_image old krn mm fs dr net terminal = Some ((t @ concat ?ms) @ drop (length (concat ?ms)) (drop 64 old))"
    unfolding build_image_def Let_def o [symmetric] i by simp
  then show ?thesis by (simp add: t_def add.commute)
qed

text \<open>The loader finds each module behind the offset that the table has for it.\<close>

lemma build_image_modules:
  assumes "build_image old krn mm fs dr net terminal = Some img" and "64 + length (concat [krn, mm, fs, dr, net, terminal]) < 2 ^ 32"
    and "k < 6"
  shows "take (length ([krn, mm, fs, dr, net, terminal] ! k)) (drop (unat (dec32 (drop (4 * k) img))) img)
    = [krn, mm, fs, dr, net, terminal] ! k"
proof -
  define ms where "ms = [krn, mm, fs, dr, net, terminal]"
  define offs where "offs = (map of_nat (module_offsets 64 ms) :: u32 list)"
  have n: "length ms = 6" "length offs = 6" by (simp_all add: ms_def offs_def module_offsets_def)
  let ?o = "64 + length (concat (take k ms))"
  have ms: "ms = take k ms @ ms ! k # drop (Suc k) ms" using n assms(3) by (simp add: id_take_nth_drop)
  have img: "img = concat (map enc32 offs) @ replicate 40 0 @ concat ms @ drop (64 + length (concat ms)) old"
    using assms(1) build_image_layout [of old krn mm fs dr net terminal] by (simp add: ms_def offs_def)
  have t: "length (concat (map enc32 xs)) = 4 * length xs" for xs by (induction xs) simp_all
  have "drop (4 * k) (concat (map enc32 offs)) = enc32 (offs ! k) @ concat (map enc32 (drop (Suc k) offs))"
    using id_take_nth_drop [of k offs] n(2) assms(3) t [of "take k offs"]
    by (metis (no_types, lifting) append_eq_conv_conj concat.simps(2) concat_append length_take list.simps(9) map_append min.absorb4)
  then have "dec32 (drop (4 * k) img) = offs ! k" using n(2) t [of offs] assms(3) by (simp add: img)
  moreover have "offs ! k = of_nat ?o" using n(1) assms(3) by (simp add: offs_def module_offsets_def)
  moreover have "length (concat ms) = length (concat (take k ms)) + (length (ms ! k) + length (concat (drop (Suc k) ms)))"
    by (subst ms) simp
  then have "?o < 2 ^ 32" using assms(2) unfolding ms_def [symmetric] by linarith
  moreover have "unat (of_nat m :: u32) = m" if "m < 2 ^ 32" for m using that by (simp add: unat_of_nat take_bit_nat_eq_self)
  ultimately have "unat (dec32 (drop (4 * k) img)) = ?o" by metis
  moreover have "drop ?o img = ms ! k @ concat (drop (Suc k) ms) @ drop (64 + length (concat ms)) old"
    using n(2) t [of offs] arg_cong [OF ms, of concat] by (simp add: img)
  ultimately show ?thesis by (simp add: ms_def)
qed

text \<open>What an older image held behind the new one stays there.\<close>

lemma older_image_shows:
  assumes "build_image old krn mm fs dr net terminal = Some img"
  shows "drop (64 + length (concat [krn, mm, fs, dr, net, terminal])) img = drop (64 + length (concat [krn, mm, fs, dr, net, terminal])) old"
  using assms by (simp add: build_image_layout module_offsets_def upt_rec numeral_nat) auto

end
