(* ===== verification/Cycle_List.thy ===== *)
theory Cycle_List
  imports Shmily_Prelude
begin

text \<open>
  Model of \<open>lib/cycle_list.cc\<close>, the intrusive doubly linked list of the scheduler's ready
  queues and of the memory manager's page and block queues.

  An element is an address; memory is modelled by the two fields of
  \<open>struct cyclelist_elem\<close>, one function from addresses per field, and \<open>0\<close> is
  \<open>NULL\<close>. A \<open>CycleList\<close> object is given by the addresses of its embedded
  \<open>head\<close> and \<open>tail\<close> elements. Elements at different addresses do not overlap.

  The relation \<open>cl_rel m l xs\<close> says that the object \<open>l\<close> holds the list \<open>xs\<close>
  in memory \<open>m\<close>. Each operation is shown to implement the operation on lists and to
  leave every list on other nodes alone; these laws are the contract \<open>linked_list\<close> that
  the queues of the kernel and of the memory manager are used through.
\<close>

section \<open>Data and operations\<close>

record link_mem =
  prev_of :: "u32 \<Rightarrow> u32"
  next_of :: "u32 \<Rightarrow> u32"

record cycle_list =
  cl_head :: u32
  cl_tail :: u32

definition set_prev :: "link_mem \<Rightarrow> u32 \<Rightarrow> u32 \<Rightarrow> link_mem" where
  "set_prev m a v = m\<lparr>prev_of := (prev_of m)(a := v)\<rparr>"

definition set_next :: "link_mem \<Rightarrow> u32 \<Rightarrow> u32 \<Rightarrow> link_mem" where
  "set_next m a v = m\<lparr>next_of := (next_of m)(a := v)\<rparr>"

definition cl_initialize :: "link_mem \<Rightarrow> cycle_list \<Rightarrow> link_mem" where
  "cl_initialize m l =
     (let m1 = set_prev m (cl_head l) 0;
          m2 = set_next m1 (cl_tail l) 0;
          m3 = set_next m2 (cl_head l) (cl_tail l)
      in set_prev m3 (cl_tail l) (cl_head l))"

definition cl_append :: "link_mem \<Rightarrow> cycle_list \<Rightarrow> u32 \<Rightarrow> link_mem" where
  "cl_append m l elem =
     (let m1 = set_prev m elem (prev_of m (cl_tail l));
          m2 = set_next m1 elem (cl_tail l);
          m3 = set_next m2 (prev_of m2 (cl_tail l)) elem
      in set_prev m3 (cl_tail l) elem)"

definition cl_push :: "link_mem \<Rightarrow> cycle_list \<Rightarrow> u32 \<Rightarrow> link_mem" where
  "cl_push m l elem =
     (let m1 = set_prev m elem (cl_head l);
          m2 = set_next m1 elem (next_of m1 (cl_head l));
          m3 = set_prev m2 (next_of m2 (cl_head l)) elem
      in set_next m3 (cl_head l) elem)"

definition cl_remove :: "link_mem \<Rightarrow> cycle_list \<Rightarrow> u32 \<Rightarrow> link_mem" where
  "cl_remove m l elem =
     (let m1 = set_prev m (next_of m elem) (prev_of m elem)
      in set_next m1 (prev_of m1 elem) (next_of m1 elem))"

definition cl_pop :: "link_mem \<Rightarrow> cycle_list \<Rightarrow> u32 \<times> link_mem" where
  "cl_pop m l = (let ret = next_of m (cl_head l) in (ret, cl_remove m l ret))"

definition cl_is_empty :: "link_mem \<Rightarrow> cycle_list \<Rightarrow> bool" where
  "cl_is_empty m l \<longleftrightarrow> next_of m (cl_head l) = cl_tail l"

text \<open>The loop of \<open>get_length\<close>; on a list that does not lead to its tail it does not
  end, which is \<open>None\<close>. The counter is a 32-bit \<open>int\<close>.\<close>

partial_function (option) cl_length_loop :: "link_mem \<Rightarrow> cycle_list \<Rightarrow> u32 \<Rightarrow> int \<Rightarrow> int option" where
  "cl_length_loop m l elem i =
     (if elem = cl_tail l then Some i else cl_length_loop m l (next_of m elem) (i + 1))"

declare cl_length_loop.simps [code]

definition cl_get_length :: "link_mem \<Rightarrow> cycle_list \<Rightarrow> int option" where
  "cl_get_length m l = cl_length_loop m l (next_of m (cl_head l)) 0"

text \<open>The loop \<open>for (int i=0; i<idx; i++) ;\<close> of \<open>get_elem\<close> has an empty body, so
  \<open>elem\<close> stays the first element.\<close>

definition cl_get_elem :: "link_mem \<Rightarrow> cycle_list \<Rightarrow> int \<Rightarrow> u32 option" where
  "cl_get_elem m l idx = do {
     n \<leftarrow> cl_get_length m l;
     (if idx > n - 1 then Some 0 else Some (next_of m (cl_head l))) }"

definition cl_next_elem :: "link_mem \<Rightarrow> cycle_list \<Rightarrow> u32 \<Rightarrow> u32" where
  "cl_next_elem m l cur_elem =
     (if next_of m cur_elem = cl_tail l then next_of m (cl_head l) else next_of m cur_elem)"

lemma link_upd [simp]:
  "prev_of (set_prev m a v) = (prev_of m)(a := v)" "next_of (set_prev m a v) = next_of m"
  "next_of (set_next m a v) = (next_of m)(a := v)" "prev_of (set_next m a v) = prev_of m"
  by (simp_all add: set_prev_def set_next_def)

section \<open>Doubly linked segments\<close>

fun dlseg :: "link_mem \<Rightarrow> u32 \<Rightarrow> u32 list \<Rightarrow> u32 \<Rightarrow> bool" where
  "dlseg m p [] q \<longleftrightarrow> next_of m p = q \<and> prev_of m q = p"
| "dlseg m p (x # xs) q \<longleftrightarrow> next_of m p = x \<and> prev_of m x = p \<and> dlseg m x xs q"

definition cl_rel :: "link_mem \<Rightarrow> cycle_list \<Rightarrow> u32 list \<Rightarrow> bool" where
  "cl_rel m l xs \<longleftrightarrow> dlseg m (cl_head l) xs (cl_tail l) \<and> distinct (cl_head l # xs @ [cl_tail l])"

definition cl_nodes :: "cycle_list \<Rightarrow> u32 list \<Rightarrow> u32 set" where
  "cl_nodes l xs = insert (cl_head l) (insert (cl_tail l) (set xs))"

lemma dlseg_append:
  "dlseg m p (xs @ y # ys) q \<longleftrightarrow> dlseg m p xs y \<and> dlseg m y ys q"
  by (induction xs arbitrary: p) auto

lemma dlseg_cong:
  assumes "\<And>x. x \<in> set (p # xs) \<Longrightarrow> next_of m' x = next_of m x"
    and "\<And>x. x \<in> insert q (set xs) \<Longrightarrow> prev_of m' x = prev_of m x"
  shows "dlseg m' p xs q \<longleftrightarrow> dlseg m p xs q"
  using assms by (induction xs arbitrary: p) auto

lemma dlseg_relink_last:
  assumes "dlseg m p xs q" and "distinct (p # xs)" and "z = last (p # xs)"
    and "\<And>x. x \<in> set (p # xs) \<Longrightarrow> x \<noteq> z \<Longrightarrow> next_of m' x = next_of m x"
    and "\<And>x. x \<in> set xs \<Longrightarrow> prev_of m' x = prev_of m x"
    and "next_of m' z = e" and "prev_of m' e = z"
  shows "dlseg m' p xs e"
  using assms
proof (induction xs arbitrary: p)
  case (Cons x xs)
  have z: "z = last (x # xs)" using Cons.prems(3) by simp
  then have "z \<in> set (x # xs)" using last_in_set [of "x # xs"] by simp
  then have "p \<noteq> z" using Cons.prems(2) by auto
  then have "next_of m' p = x" using Cons.prems(1,4) by simp
  moreover have "dlseg m' x xs e"
    using Cons.prems z by (intro Cons.IH) auto
  ultimately show ?case using Cons.prems by simp
qed simp

lemma dlseg_last: "dlseg m p xs q \<Longrightarrow> prev_of m q = last (p # xs) \<and> next_of m (last (p # xs)) = q"
  by (induction xs arbitrary: p) auto

lemma dlseg_first: "dlseg m p xs q \<Longrightarrow> next_of m p = hd (xs @ [q]) \<and> prev_of m (hd (xs @ [q])) = p"
  by (cases xs) auto

lemma cl_rel_first: "cl_rel m l xs \<Longrightarrow> next_of m (cl_head l) = hd (xs @ [cl_tail l])"
  by (auto simp: cl_rel_def dest: dlseg_first)

lemma cl_rel_cong:
  assumes "\<And>x. x \<in> cl_nodes l xs \<Longrightarrow> next_of m' x = next_of m x \<and> prev_of m' x = prev_of m x"
  shows "cl_rel m' l xs \<longleftrightarrow> cl_rel m l xs"
  unfolding cl_rel_def using dlseg_cong [of "cl_head l" xs m' m "cl_tail l"] assms
  by (auto simp: cl_nodes_def)

section \<open>The operations on lists\<close>

lemma cl_rel_initialize:
  "cl_head l \<noteq> cl_tail l \<Longrightarrow> cl_rel (cl_initialize m l) l []"
  by (simp add: cl_rel_def cl_initialize_def Let_def)

lemma cl_rel_append:
  assumes rel: "cl_rel m l xs" and fresh: "e \<notin> cl_nodes l xs"
  shows "cl_rel (cl_append m l e) l (xs @ [e])"
proof -
  define z where "z = last (cl_head l # xs)"
  let ?m' = "cl_append m l e"
  have seg: "dlseg m (cl_head l) xs (cl_tail l)"
    and dist: "distinct (cl_head l # xs @ [cl_tail l])"
    using rel by (simp_all add: cl_rel_def)
  have z: "prev_of m (cl_tail l) = z" using dlseg_last [OF seg] by (simp add: z_def)
  have zin: "z \<in> set (cl_head l # xs)" unfolding z_def by (rule last_in_set) simp
  have ne: "e \<noteq> cl_tail l" "e \<noteq> z" "z \<noteq> cl_tail l"
    using fresh dist zin by (auto simp: cl_nodes_def)
  have nx: "next_of ?m' = (next_of m)(e := cl_tail l, z := e)"
    and pv: "prev_of ?m' = (prev_of m)(e := z, cl_tail l := e)"
    using z ne by (auto simp: cl_append_def Let_def)
  have "dlseg ?m' (cl_head l) xs e"
    by (rule dlseg_relink_last [OF seg _ z_def])
      (use dist fresh ne in \<open>auto simp: nx pv cl_nodes_def\<close>)
  moreover have "dlseg ?m' e [] (cl_tail l)" using ne by (simp add: nx pv)
  ultimately show ?thesis
    using dist fresh by (auto simp: cl_rel_def cl_nodes_def dlseg_append)
qed

lemma cl_rel_push:
  assumes rel: "cl_rel m l xs" and fresh: "e \<notin> cl_nodes l xs"
  shows "cl_rel (cl_push m l e) l (e # xs)"
proof -
  let ?f = "hd (xs @ [cl_tail l])"
  let ?m' = "cl_push m l e"
  have seg: "dlseg m (cl_head l) xs (cl_tail l)"
    and dist: "distinct (cl_head l # xs @ [cl_tail l])"
    using rel by (simp_all add: cl_rel_def)
  have f: "next_of m (cl_head l) = ?f" using dlseg_first [OF seg] by simp
  have fin: "?f \<in> set (xs @ [cl_tail l])" by (rule hd_in_set) simp
  have ne: "e \<noteq> cl_head l" "e \<noteq> ?f" using fresh fin by (auto simp: cl_nodes_def)
  have nx: "next_of ?m' = (next_of m)(e := ?f, cl_head l := e)"
    and pv: "prev_of ?m' = (prev_of m)(e := cl_head l, ?f := e)"
    using f ne by (auto simp: cl_push_def Let_def)
  have "dlseg ?m' e xs (cl_tail l)"
  proof (cases xs)
    case Nil
    then show ?thesis using ne by (simp add: nx pv)
  next
    case (Cons x ys)
    have "dlseg ?m' x ys (cl_tail l) \<longleftrightarrow> dlseg m x ys (cl_tail l)"
      using Cons dist fresh by (intro dlseg_cong) (auto simp: nx pv cl_nodes_def)
    then show ?thesis using Cons seg ne by (simp add: nx pv)
  qed
  then show ?thesis
    using dist fresh ne by (auto simp: cl_rel_def cl_nodes_def nx pv)
qed

lemma cl_rel_remove_split:
  assumes rel: "cl_rel m l (as @ e # bs)"
  shows "cl_rel (cl_remove m l e) l (as @ bs)"
    and "next_of (cl_remove m l e) e = hd (bs @ [cl_tail l])"
    and "prev_of (cl_remove m l e) e = last (cl_head l # as)"
proof -
  define p where "p = last (cl_head l # as)"
  define n where "n = hd (bs @ [cl_tail l])"
  let ?m' = "cl_remove m l e"
  have seg: "dlseg m (cl_head l) as e" "dlseg m e bs (cl_tail l)"
    and dist: "distinct (cl_head l # as @ e # bs @ [cl_tail l])"
    using rel by (simp_all add: cl_rel_def dlseg_append)
  have pin: "p \<in> set (cl_head l # as)" and nin: "n \<in> set (bs @ [cl_tail l])"
    unfolding p_def n_def by (rule last_in_set, simp, rule hd_in_set, simp)
  have ne: "p \<noteq> e" "n \<noteq> e" using dist pin nin by auto
  have pn: "prev_of m e = p" "next_of m e = n"
    using dlseg_last [OF seg(1)] dlseg_first [OF seg(2)] by (auto simp: p_def n_def)
  have nx: "next_of ?m' = (next_of m)(p := n)" and pv: "prev_of ?m' = (prev_of m)(n := p)"
    using pn ne by (auto simp: cl_remove_def Let_def)
  show "next_of ?m' e = hd (bs @ [cl_tail l])" "prev_of ?m' e = last (cl_head l # as)"
    using nx pv pn ne by (simp_all add: p_def n_def del: last.simps)
  have to: "dlseg ?m' (cl_head l) as n"
    by (rule dlseg_relink_last [OF seg(1) _ p_def]) (use dist pin nin in \<open>auto simp: nx pv\<close>)
  show "cl_rel ?m' l (as @ bs)"
  proof (cases bs)
    case Nil
    then show ?thesis using to dist by (simp add: cl_rel_def n_def)
  next
    case (Cons b bs')
    have "dlseg ?m' b bs' (cl_tail l) \<longleftrightarrow> dlseg m b bs' (cl_tail l)"
      using Cons dist pin by (intro dlseg_cong) (auto simp: nx pv n_def)
    then show ?thesis using to Cons seg(2) dist by (simp add: cl_rel_def dlseg_append n_def)
  qed
qed

lemma cl_rel_remove:
  assumes "cl_rel m l xs" and "e \<in> set xs"
  shows "cl_rel (cl_remove m l e) l (remove1 e xs)"
proof -
  obtain as bs where xs: "xs = as @ e # bs" "e \<notin> set as"
    using assms(2) by (metis split_list_first)
  then show ?thesis
    using assms(1) cl_rel_remove_split(1) [of m l as e bs] by (simp add: remove1_append)
qed

lemma cl_rel_pop: "cl_rel m l (x # xs) \<Longrightarrow> cl_pop m l = (x, cl_remove m l x)"
  by (simp add: cl_pop_def cl_rel_first)

lemma cl_rel_is_empty: "cl_rel m l xs \<Longrightarrow> cl_is_empty m l \<longleftrightarrow> xs = []"
  using cl_rel_first [of m l xs] by (cases xs) (auto simp: cl_is_empty_def cl_rel_def)

lemma cl_length_loop_dlseg:
  "dlseg m p xs (cl_tail l) \<Longrightarrow> cl_tail l \<notin> set xs \<Longrightarrow>
   cl_length_loop m l (next_of m p) i = Some (i + int (length xs))"
proof (induction xs arbitrary: p i)
  case Nil
  then show ?case by (simp add: cl_length_loop.simps)
next
  case (Cons x xs)
  then have "cl_length_loop m l (next_of m p) i = cl_length_loop m l (next_of m x) (i + 1)"
    by (auto simp: cl_length_loop.simps [of m l "next_of m p"])
  with Cons show ?case by simp
qed

lemma cl_rel_get_length: "cl_rel m l xs \<Longrightarrow> cl_get_length m l = Some (int (length xs))"
  using cl_length_loop_dlseg [of m "cl_head l" xs l 0] by (simp add: cl_get_length_def cl_rel_def)

lemma cl_rel_get_elem:
  "cl_rel m l xs \<Longrightarrow> cl_get_elem m l idx = Some (if idx < int (length xs) then hd (xs @ [cl_tail l]) else 0)"
  by (auto simp: cl_get_elem_def cl_rel_get_length cl_rel_first)

lemma cl_rel_next_elem:
  assumes "cl_rel m l (as @ e # bs)"
  shows "cl_next_elem m l e = hd (bs @ as @ [e])"
proof -
  have seg: "dlseg m (cl_head l) as e" "dlseg m e bs (cl_tail l)" and "cl_tail l \<notin> set bs"
    using assms by (auto simp: cl_rel_def dlseg_append)
  have "next_of m (cl_head l) = hd (as @ [e])" using dlseg_first [OF seg(1)] by simp
  moreover have "next_of m e = hd (bs @ [cl_tail l])" using dlseg_first [OF seg(2)] by simp
  ultimately show ?thesis
    using \<open>cl_tail l \<notin> set bs\<close> by (cases bs) (auto simp: cl_next_elem_def)
qed

text \<open>Which nodes an operation writes: the list's own and the element.\<close>

lemma cl_append_frame:
  "cl_rel m l xs \<Longrightarrow> y \<notin> insert e (cl_nodes l xs) \<Longrightarrow>
   next_of (cl_append m l e) y = next_of m y \<and> prev_of (cl_append m l e) y = prev_of m y"
  using dlseg_last [of m "cl_head l" xs "cl_tail l"] last_in_set [of "cl_head l # xs"]
  by (auto simp: cl_append_def Let_def cl_nodes_def cl_rel_def simp del: last.simps)

lemma cl_push_frame:
  "cl_rel m l xs \<Longrightarrow> y \<notin> insert e (cl_nodes l xs) \<Longrightarrow>
   next_of (cl_push m l e) y = next_of m y \<and> prev_of (cl_push m l e) y = prev_of m y"
  using cl_rel_first [of m l xs] hd_in_set [of "xs @ [cl_tail l]"]
  by (auto simp: cl_push_def Let_def cl_nodes_def)

lemma cl_remove_frame:
  assumes "cl_rel m l xs" "e \<in> set xs" "y \<notin> cl_nodes l xs"
  shows "next_of (cl_remove m l e) y = next_of m y \<and> prev_of (cl_remove m l e) y = prev_of m y"
proof -
  obtain as bs where xs: "xs = as @ e # bs" using assms(2) by (metis split_list)
  have seg: "dlseg m (cl_head l) as e" "dlseg m e bs (cl_tail l)"
    using assms(1) xs by (auto simp: cl_rel_def dlseg_append)
  have "prev_of m e \<in> cl_nodes l xs" "next_of m e \<in> cl_nodes l xs"
    using dlseg_last [OF seg(1)] dlseg_first [OF seg(2)] last_in_set [of "cl_head l # as"]
      hd_in_set [of "bs @ [cl_tail l]"] xs by (auto simp: cl_nodes_def simp del: last.simps)
  then show ?thesis using assms(3) by (auto simp: cl_remove_def Let_def)
qed

section \<open>The contract of a linked list\<close>

locale linked_list =
  fixes rel :: "'m \<Rightarrow> 'l \<Rightarrow> 'a list \<Rightarrow> bool"
    and nodes :: "'l \<Rightarrow> 'a list \<Rightarrow> 'a set"
    and append_op :: "'m \<Rightarrow> 'l \<Rightarrow> 'a \<Rightarrow> 'm"
    and push_op :: "'m \<Rightarrow> 'l \<Rightarrow> 'a \<Rightarrow> 'm"
    and remove_op :: "'m \<Rightarrow> 'l \<Rightarrow> 'a \<Rightarrow> 'm"
    and pop_op :: "'m \<Rightarrow> 'l \<Rightarrow> 'a \<times> 'm"
  assumes nodes_remove: "rel m l xs \<Longrightarrow> e \<in> set xs \<Longrightarrow> nodes l (remove1 e xs) = nodes l xs - {e}"
    and nodes_add: "nodes l (xs @ [e]) = insert e (nodes l xs)"
    and nodes_Cons: "nodes l (e # xs) = insert e (nodes l xs)"
    and rel_append: "rel m l xs \<Longrightarrow> e \<notin> nodes l xs \<Longrightarrow> rel (append_op m l e) l (xs @ [e])"
    and rel_push: "rel m l xs \<Longrightarrow> e \<notin> nodes l xs \<Longrightarrow> rel (push_op m l e) l (e # xs)"
    and rel_remove: "rel m l xs \<Longrightarrow> e \<in> set xs \<Longrightarrow> rel (remove_op m l e) l (remove1 e xs)"
    and rel_pop: "rel m l (e # xs) \<Longrightarrow> pop_op m l = (e, remove_op m l e)"
    and frame_append: "rel m l xs \<Longrightarrow> rel m k ys \<Longrightarrow> nodes k ys \<inter> insert e (nodes l xs) = {} \<Longrightarrow>
      rel (append_op m l e) k ys"
    and frame_push: "rel m l xs \<Longrightarrow> rel m k ys \<Longrightarrow> nodes k ys \<inter> insert e (nodes l xs) = {} \<Longrightarrow>
      rel (push_op m l e) k ys"
    and frame_remove: "rel m l xs \<Longrightarrow> e \<in> set xs \<Longrightarrow> rel m k ys \<Longrightarrow> nodes k ys \<inter> nodes l xs = {} \<Longrightarrow>
      rel (remove_op m l e) k ys"
begin

text \<open>The two moves of the memory manager and the block and wake-up of the scheduler.\<close>

lemma move_to_back:
  "rel m l xs \<Longrightarrow> e \<in> set xs \<Longrightarrow>
   rel (append_op (remove_op m l e) l e) l (remove1 e xs @ [e])"
  using rel_append [OF rel_remove] nodes_remove by blast

lemma move_to_front:
  "rel m l xs \<Longrightarrow> e \<in> set xs \<Longrightarrow>
   rel (push_op (remove_op m l e) l e) l (e # remove1 e xs)"
  using rel_push [OF rel_remove] nodes_remove by blast

lemma pop_list: "rel m l (e # xs) \<Longrightarrow> \<exists>m'. pop_op m l = (e, m') \<and> rel m' l xs"
  using rel_pop rel_remove [of m l "e # xs" e] by auto

fun append_all :: "'m \<Rightarrow> 'l \<Rightarrow> 'a list \<Rightarrow> 'm" where
  "append_all m l [] = m"
| "append_all m l (e # es) = append_all (append_op m l e) l es"

lemma rel_append_all:
  "rel m l xs \<Longrightarrow> set es \<inter> nodes l xs = {} \<Longrightarrow> distinct es \<Longrightarrow> rel (append_all m l es) l (xs @ es)"
proof (induction es arbitrary: m xs)
  case (Cons e es)
  have "rel (append_all (append_op m l e) l es) l ((xs @ [e]) @ es)"
    using Cons.prems by (intro Cons.IH) (auto simp: nodes_add intro: rel_append)
  then show ?case by simp
qed simp

lemma frame_append_all:
  "rel m l xs \<Longrightarrow> rel m k ys \<Longrightarrow> set es \<inter> nodes l xs = {} \<Longrightarrow> distinct es \<Longrightarrow>
   nodes k ys \<inter> (nodes l xs \<union> set es) = {} \<Longrightarrow> rel (append_all m l es) k ys"
proof (induction es arbitrary: m xs)
  case (Cons e es)
  show ?case
    using Cons.prems
    by (simp, intro Cons.IH [of "append_op m l e" "xs @ [e]"])
      (auto simp: nodes_add intro: rel_append frame_append)
qed simp

end

interpretation cl: linked_list cl_rel cl_nodes cl_append cl_push cl_remove cl_pop
proof
  show "cl_nodes l (remove1 e xs) = cl_nodes l xs - {e}" if "cl_rel m l xs" "e \<in> set xs" for m l e xs
    using that by (auto simp: cl_nodes_def cl_rel_def)
  show "cl_rel (cl_append m l e) k ys"
    if "cl_rel m l xs" "cl_rel m k ys" "cl_nodes k ys \<inter> insert e (cl_nodes l xs) = {}" for m l xs k ys e
    using that cl_append_frame [OF that(1)]
      cl_rel_cong [where m' = "cl_append m l e" and m = m and l = k and xs = ys] by blast
  show "cl_rel (cl_push m l e) k ys"
    if "cl_rel m l xs" "cl_rel m k ys" "cl_nodes k ys \<inter> insert e (cl_nodes l xs) = {}" for m l xs k ys e
    using that cl_push_frame [OF that(1)]
      cl_rel_cong [where m' = "cl_push m l e" and m = m and l = k and xs = ys] by blast
  show "cl_rel (cl_remove m l e) k ys"
    if "cl_rel m l xs" "e \<in> set xs" "cl_rel m k ys" "cl_nodes k ys \<inter> cl_nodes l xs = {}" for m l xs k ys e
    using that cl_remove_frame [OF that(1,2)]
      cl_rel_cong [where m' = "cl_remove m l e" and m = m and l = k and xs = ys] by blast
qed (auto simp: cl_nodes_def cl_rel_append cl_rel_push cl_rel_remove cl_rel_pop)

section \<open>Properties\<close>

text \<open>C25: on an object that holds the list \<open>xs\<close>, the emptiness test and the length are
  those of \<open>xs\<close>, adding a fresh element at the tail or the head and removing a member
  make it hold the corresponding list, and popping takes the first element off.\<close>

theorem cycle_list_implements_list:
  assumes "cl_rel m l xs"
  shows "(cl_is_empty m l \<longleftrightarrow> xs = []) \<and> cl_get_length m l = Some (int (length xs))
    \<and> (e \<notin> cl_nodes l xs \<longrightarrow> cl_rel (cl_append m l e) l (xs @ [e]))
    \<and> (e \<notin> cl_nodes l xs \<longrightarrow> cl_rel (cl_push m l e) l (e # xs))
    \<and> (e \<in> set xs \<longrightarrow> cl_rel (cl_remove m l e) l (remove1 e xs))
    \<and> (xs \<noteq> [] \<longrightarrow> (\<exists>m'. cl_pop m l = (hd xs, m') \<and> cl_rel m' l (tl xs)))"
  using assms cl_rel_is_empty cl_rel_get_length cl.rel_append cl.rel_push cl.rel_remove
    cl.pop_list [of m l "hd xs" "tl xs"] by fastforce

lemma cl_example:
  "cl_rel (cl_append (cl_initialize \<lparr>prev_of = (\<lambda>_. 0), next_of = (\<lambda>_. 0)\<rparr> \<lparr>cl_head = 16, cl_tail = 24\<rparr>)
     \<lparr>cl_head = 16, cl_tail = 24\<rparr> 32) \<lparr>cl_head = 16, cl_tail = 24\<rparr> [32]"
  using cl_rel_append [OF cl_rel_initialize [of "\<lparr>cl_head = 16, cl_tail = 24\<rparr>"]]
  by (simp add: cl_nodes_def)

theorem cycle_list_implements_list_witness:
  "\<exists>m l. cl_rel m l [32] \<and> (40 \<notin> cl_nodes l [32])
    \<and> cl_rel (cl_append m l 40) l [32, 40] \<and> cl_rel (cl_remove m l 32) l []"
proof -
  let ?l = "\<lparr>cl_head = 16, cl_tail = 24\<rparr> :: cycle_list"
  let ?m = "cl_append (cl_initialize \<lparr>prev_of = (\<lambda>_. 0), next_of = (\<lambda>_. 0)\<rparr> ?l) ?l 32"
  have "(40::u32) \<notin> cl_nodes ?l [32]" by (simp add: cl_nodes_def)
  then have "cl_rel ?m ?l [32] \<and> 40 \<notin> cl_nodes ?l [32]
      \<and> cl_rel (cl_append ?m ?l 40) ?l [32, 40] \<and> cl_rel (cl_remove ?m ?l 32) ?l []"
    using cl_example cycle_list_implements_list [OF cl_example, of 40]
      cycle_list_implements_list [OF cl_example, of 32] by simp
  then show ?thesis by blast
qed

text \<open>\<open>next_elem\<close> walks the list in a circle: from the element at position \<open>i\<close> it
  goes to the next position, and from the last one to the first.\<close>

lemma next_elem_round_robin:
  assumes "cl_rel m l xs" and "i < length xs"
  shows "cl_next_elem m l (xs ! i) = xs ! (Suc i mod length xs)"
proof -
  have split: "xs = take i xs @ xs ! i # drop (Suc i) xs" using assms(2) by (rule id_take_nth_drop)
  then have nxt: "cl_next_elem m l (xs ! i) = hd (drop (Suc i) xs @ take i xs @ [xs ! i])"
    using assms(1) cl_rel_next_elem [of m l "take i xs" "xs ! i" "drop (Suc i) xs"] by simp
  show ?thesis
  proof (cases "Suc i = length xs")
    case True
    then have "hd (take i xs @ [xs ! i]) = xs ! 0"
      using assms(2) by (cases i) (auto simp: hd_append hd_conv_nth)
    then show ?thesis using True nxt by simp
  next
    case False
    then show ?thesis using assms(2) nxt by (simp add: hd_append hd_drop_conv_nth)
  qed
qed

text \<open>\<open>get_elem\<close> does not look at its index: for every index below the length it
  returns the first element.\<close>

lemma get_elem_returns_first:
  assumes "cl_rel m l (x # xs)"
  shows "cl_get_elem m l idx = Some (if idx \<le> int (length xs) then x else 0)"
  using cl_rel_get_elem [OF assms, of idx] by simp

end
