(* ===== verification/Process.thy ===== *)
theory Process
  imports Cycle_List Lib_String
begin

text \<open>
  Model of \<open>kernel/process.cc\<close> with \<open>kernel/process.h\<close>, of the timer interrupt
  (\<open>kernel/timer.cc\<close>), of \<open>update_tss\<close> (\<open>kernel/tss.cc\<close>) and of the process
  table set up by \<open>main\<close> (\<open>kernel/main.cc\<close>).

  A process control block is named by its address, which is also the address of its
  \<open>ready_elem\<close>. The state keeps the blocks, the links of the ready queues, the objects of
  the five ready queues and the scheduler's variables. The code runs with interrupts
  disabled, so each operation is one atomic step; \<open>switch_to\<close> ends a step by making the
  picked process the current one (the saved stack pointers are not modelled), and what the
  blocked process does when it is resumed belongs to its next step.

  The invariant \<open>kinv s qs\<close> relates a state to the lists \<open>qs\<close> held by the ready
  queues. The theory shows that every operation preserves it, that the scheduler always
  picks a member of the first eligible queue, in round-robin order within the priority of
  the running process, and that the boot sequence establishes it.
\<close>

section \<open>Data\<close>

datatype process_priority = PRIORITY_A | PRIORITY_B | PRIORITY_C | PRIORITY_D | PRIORITY_E

fun prio_num :: "process_priority \<Rightarrow> u32" where
  "prio_num PRIORITY_A = 0" | "prio_num PRIORITY_B = 1" | "prio_num PRIORITY_C = 2"
| "prio_num PRIORITY_D = 3" | "prio_num PRIORITY_E = 4"

datatype process_status =
  RUNNING | READY | BLOCKED | WAITING | HANGING | DIED | WAITING_MSG | SENDING_MSG | WAITING_MID

text \<open>Code addresses: the two trampolines of the kernel and the entry points of processes.\<close>

datatype code_ptr = Execute_func | Init_userprocess | Entry u32

record thread_stack =
  ts_ebp :: u32
  ts_ebx :: u32
  ts_edi :: u32
  ts_esi :: u32
  ts_eip :: code_ptr
  ts_func :: code_ptr
  ts_args :: code_ptr

record pcb =
  pid :: u32
  name :: "u8 list"
  status :: process_status
  priority :: u32
  ticks :: u32
  elapsed_ticks :: u32
  pagedir_pos :: u32
  esp :: u32
  next_ready :: u32
  message :: u32
  sendings :: u32
  intr_cnt :: u8
  reply_cnt :: u8
  userstack :: u32
  is_userproc :: bool
  self_stack :: thread_stack

abbreviation PRIORITY_KIND :: nat where "PRIORITY_KIND \<equiv> 5"
abbreviation (input) NR_PROC :: nat where "NR_PROC \<equiv> 64"

text \<open>\<open>sizeof (struct pcb)\<close> and \<open>sizeof (struct thread_stack)\<close>; both are packed.\<close>

abbreviation (input) sizeof_pcb :: u32 where "sizeof_pcb \<equiv> 3103"
abbreviation (input) sizeof_thread_stack :: u32 where "sizeof_thread_stack \<equiv> 32"

record msg_context =
  con_1 :: u32
  con_2 :: u32
  con_3 :: u32
  con_4 :: u32

record message =
  source :: u32
  destination :: u32
  mtype :: u32
  mcontext :: msg_context

record kstate =
  pcbs :: "u32 \<Rightarrow> pcb"
  links :: link_mem
  ready_processes :: "cycle_list list"
  processes :: "u32 list"
  max_rounds :: "u32 list"
  max_priority :: u32
  cur_proc :: u32
  next_proc :: u32
  prev_proc :: u32
  cur_proc_idx :: int
  tss_esp0 :: u32
  timer_ticks :: u32
  msgs :: "u32 \<Rightarrow> message"

definition upd_pcb :: "kstate \<Rightarrow> u32 \<Rightarrow> (pcb \<Rightarrow> pcb) \<Rightarrow> kstate" where
  "upd_pcb s p f = s\<lparr>pcbs := (pcbs s)(p := f (pcbs s p))\<rparr>"

abbreviation set_status :: "kstate \<Rightarrow> u32 \<Rightarrow> process_status \<Rightarrow> kstate" where
  "set_status s p st \<equiv> upd_pcb s p (\<lambda>b. b\<lparr>status := st\<rparr>)"

section \<open>Creating processes\<close>

fun init_queues :: "link_mem \<Rightarrow> cycle_list list \<Rightarrow> link_mem" where
  "init_queues m [] = m"
| "init_queues m (q # qs) = init_queues (cl_initialize m q) qs"

definition init_pm :: "kstate \<Rightarrow> kstate" where
  "init_pm s = s\<lparr>links := init_queues (links s) (ready_processes s),
                max_rounds := replicate PRIORITY_KIND 10,
                max_priority := of_nat (PRIORITY_KIND + 1)\<rparr>"

definition priority2ticks :: "process_priority \<Rightarrow> u32" where
  "priority2ticks prio = (of_nat PRIORITY_KIND - prio_num prio) * 8"

definition init_process_info ::
    "kstate \<Rightarrow> u32 \<Rightarrow> u8 list \<Rightarrow> int \<Rightarrow> process_priority \<Rightarrow> kstate option" where
  "init_process_info s proc nm pid0 prio = do {
     let b = (pcbs s proc)\<lparr>priority := prio_num prio, pid := word_of_int pid0,
               ticks := priority2ticks prio, elapsed_ticks := 0, pagedir_pos := 0\<rparr>;
     n0 \<leftarrow> memset (name b) 0 0 16;
     n1 \<leftarrow> strcpy n0 0 nm 0;
     Some (upd_pcb s proc (\<lambda>_. b\<lparr>name := n1\<rparr>)) }"

definition create_process :: "kstate \<Rightarrow> u32 \<Rightarrow> code_ptr \<Rightarrow> code_ptr \<Rightarrow> kstate" where
  "create_process s proc fn arg =
     upd_pcb s proc (\<lambda>b. b\<lparr>esp := proc + sizeof_pcb - sizeof_thread_stack,
       self_stack := (self_stack b)\<lparr>ts_ebp := 0, ts_ebx := 0, ts_esi := 0, ts_edi := 0,
                       ts_eip := Execute_func, ts_func := fn, ts_args := arg\<rparr>,
       status := READY, sendings := 0, message := 0\<rparr>)"

fun free_slot_from :: "u32 list \<Rightarrow> nat \<Rightarrow> nat option" where
  "free_slot_from [] i = None"
| "free_slot_from (p # ps) i = (if p = 0 then Some i else free_slot_from ps (Suc i))"

text \<open>The entry of the process array, or \<open>-1\<close> when a free entry is asked for and there
  is none; a given index outside the array faults.\<close>

definition append_all_array :: "kstate \<Rightarrow> u32 \<Rightarrow> int \<Rightarrow> (int \<times> kstate) option" where
  "append_all_array s proc pid0 =
     (if 0 \<le> pid0 then do {
        ps \<leftarrow> store (processes s) (nat pid0) proc;
        Some (pid0, s\<lparr>processes := ps\<rparr>) }
      else
        (case free_slot_from (processes s) 0 of
           Some idx \<Rightarrow> Some (int idx, s\<lparr>processes := (processes s)[idx := proc]\<rparr>)
         | None \<Rightarrow> Some (-1, s)))"

definition make_ready :: "kstate \<Rightarrow> u32 \<Rightarrow> u32 \<Rightarrow> kstate option" where
  "make_ready s proc prio = do {
     q \<leftarrow> load (ready_processes s) (unat prio);
     Some (s\<lparr>links := cl_append (links s) q proc,
            max_priority := (if prio < max_priority s then prio else max_priority s)\<rparr>) }"

definition start_process ::
    "kstate \<Rightarrow> u8 list \<Rightarrow> int \<Rightarrow> process_priority \<Rightarrow> code_ptr \<Rightarrow> code_ptr \<Rightarrow> u32 \<Rightarrow> kstate option" where
  "start_process s nm pid0 prio fn arg proc = do {
     (n, s1) \<leftarrow> append_all_array s proc pid0;
     s2 \<leftarrow> init_process_info s1 proc nm n prio;
     let s3 = create_process s2 proc fn arg;
     make_ready s3 proc (prio_num prio) }"

definition start_userprocess ::
    "kstate \<Rightarrow> u8 list \<Rightarrow> int \<Rightarrow> process_priority \<Rightarrow> code_ptr \<Rightarrow> u32 \<Rightarrow> u32 \<Rightarrow> kstate option" where
  "start_userprocess s nm pid0 prio fn proc stk = do {
     (n, s1) \<leftarrow> append_all_array s proc pid0;
     s2 \<leftarrow> init_process_info s1 proc nm n prio;
     let s3 = upd_pcb s2 proc (\<lambda>b. b\<lparr>is_userproc := True, userstack := stk\<rparr>);
     let s4 = create_process s3 proc Init_userprocess fn;
     make_ready s4 proc (prio_num prio) }"

definition init_proc_addr :: u32 where
  "init_proc_addr = 0x80000"

text \<open>\<open>deal_init_process\<close> enters the process twice into the process array.\<close>

definition deal_init_process :: "kstate \<Rightarrow> int \<Rightarrow> kstate option" where
  "deal_init_process s pid0 = do {
     (n, s1) \<leftarrow> append_all_array s init_proc_addr pid0;
     s2 \<leftarrow> init_process_info s1 init_proc_addr [105, 110, 105, 116, 0] n PRIORITY_E;
     let s3 = s2\<lparr>cur_proc := init_proc_addr, cur_proc_idx := -1\<rparr>;
     let s4 = set_status s3 init_proc_addr RUNNING;
     (_, s5) \<leftarrow> append_all_array s4 init_proc_addr pid0;
     make_ready s5 init_proc_addr (prio_num PRIORITY_E) }"

definition pid2pcb :: "kstate \<Rightarrow> u32 \<Rightarrow> u32 option" where
  "pid2pcb s n = load (processes s) (unat n)"

section \<open>The scheduler\<close>

definition update_tss :: "kstate \<Rightarrow> u32 \<Rightarrow> kstate" where
  "update_tss s proc = s\<lparr>tss_esp0 := proc + sizeof_pcb\<rparr>"

definition switch_to :: "kstate \<Rightarrow> u32 \<Rightarrow> kstate" where
  "switch_to s nxt = s\<lparr>prev_proc := cur_proc s, cur_proc := next_proc s\<rparr>"

text \<open>The search for a nonempty ready queue. A queue of the three highest priorities that has
  used up its rounds is passed over once and gets its rounds back.\<close>

function pick_priority :: "kstate \<Rightarrow> nat \<Rightarrow> (nat \<times> kstate) option" where
  "pick_priority s max_prio =
     (if max_prio < PRIORITY_KIND then
        (case load (max_rounds s) max_prio of
           None \<Rightarrow> None
         | Some r \<Rightarrow>
             if r = 0 \<and> max_prio < 3
             then pick_priority (s\<lparr>max_rounds := (max_rounds s)[max_prio := 10]\<rparr>) (Suc max_prio)
             else (case load (ready_processes s) max_prio of
                     None \<Rightarrow> None
                   | Some q \<Rightarrow>
                       if \<not> cl_is_empty (links s) q then Some (max_prio, s)
                       else pick_priority s (Suc max_prio)))
      else Some (max_prio, s))"
  by pat_completeness auto
termination
  by (relation "measure (\<lambda>(s, p). PRIORITY_KIND - p)") auto

declare pick_priority.simps [simp del]

definition leave_cpu :: "kstate \<Rightarrow> kstate option" where
  "leave_cpu s =
     (let cur = cur_proc s; b = pcbs s cur in
      if status b = RUNNING then Some (set_status s cur READY)
      else if status b = WAITING_MID then do {
        let s1 = set_status s cur WAITING_MSG;
        q \<leftarrow> load (ready_processes s1) (unat (priority b));
        Some (s1\<lparr>links := cl_remove (links s1) q cur\<rparr>) }
      else Some s)"

definition choose_next :: "kstate \<Rightarrow> nat \<Rightarrow> kstate option" where
  "choose_next s max_prio =
     (let cur = cur_proc s; prio = unat (priority (pcbs s cur)) in
      if prio = max_prio then do {
        q \<leftarrow> load (ready_processes s) max_prio;
        r \<leftarrow> load (max_rounds s) prio;
        Some (s\<lparr>next_proc := cl_next_elem (links s) q cur,
               max_rounds := (max_rounds s)[prio := r - 1]\<rparr>) }
      else if max_prio < PRIORITY_KIND then do {
        q \<leftarrow> load (ready_processes s) max_prio;
        e \<leftarrow> cl_get_elem (links s) q 0;
        Some (s\<lparr>next_proc := e\<rparr>) }
      else Some s)"

definition dispatch :: "kstate \<Rightarrow> kstate option" where
  "dispatch s1 = do {
     (max_prio, s2) \<leftarrow> pick_priority s1 (unat (max_priority s1));
     s3 \<leftarrow> choose_next s2 max_prio;
     let nxt = next_proc s3;
     (if nxt \<noteq> 0 then do {
        let s4 = set_status s3 nxt RUNNING;
        let s5 = (if is_userproc (pcbs s4 nxt) then update_tss s4 nxt else s4);
        Some (switch_to s5 nxt) }
      else Some s3) }"

definition schedule :: "kstate \<Rightarrow> kstate option" where
  "schedule s0 = do {
     s1 \<leftarrow> leave_cpu (s0\<lparr>next_proc := 0\<rparr>);
     dispatch s1 }"

definition self_block :: "kstate \<Rightarrow> process_status \<Rightarrow> kstate option" where
  "self_block s stat =
     (if stat = WAITING_MSG then schedule (set_status s (cur_proc s) WAITING_MID)
      else do {
        let s1 = set_status s (cur_proc s) stat;
        q \<leftarrow> load (ready_processes s1) (unat (priority (pcbs s1 (cur_proc s1))));
        schedule (s1\<lparr>links := cl_remove (links s1) q (cur_proc s1)\<rparr>) })"

definition proc_yield :: "kstate \<Rightarrow> kstate option" where
  "proc_yield s = schedule (set_status s (cur_proc s) READY)"

text \<open>The test for \<open>WAITING_MID\<close> comes after the status has been overwritten.\<close>

definition unblock_proc :: "kstate \<Rightarrow> u32 \<Rightarrow> kstate option" where
  "unblock_proc s proc =
     (let s1 = set_status s proc READY in
      if status (pcbs s1 proc) = WAITING_MID then Some s1
      else make_ready s1 proc (priority (pcbs s1 proc)))"

definition timer_handler :: "kstate \<Rightarrow> kstate option" where
  "timer_handler s =
     (let s1 = s\<lparr>timer_ticks := timer_ticks s + 1\<rparr>;
          cur = cur_proc s1;
          s2 = upd_pcb s1 cur (\<lambda>b. b\<lparr>elapsed_ticks := elapsed_ticks b + 1\<rparr>)
      in if ticks (pcbs s2 cur) = 0 then schedule s2
         else Some (upd_pcb s2 cur (\<lambda>b. b\<lparr>ticks := ticks b - 1\<rparr>)))"

section \<open>Booting\<close>

text \<open>The fixed addresses of the system processes' control blocks
  (\<open>include/ipc_glo.h\<close>).\<close>

definition ANY :: u32 where "ANY = 0"
definition MM_PCB :: u32 where "MM_PCB = 0x91000"
definition FS_PCB :: u32 where "FS_PCB = 0x92000"
definition KR_PCB :: u32 where "KR_PCB = 0x93000"
definition DR_PCB :: u32 where "DR_PCB = 0x94000"
definition NET_PCB :: u32 where "NET_PCB = 0x95000"
definition TER_PCB :: u32 where "TER_PCB = 0x96000"
definition INTERRUPT :: u32 where "INTERRUPT = 0x98000"
definition INTERRUPT_NET :: u32 where "INTERRUPT_NET = 0x98100"
definition IDLE_PCB :: u32 where "IDLE_PCB = 0x99000"

lemmas pcb_addrs = ANY_def MM_PCB_def FS_PCB_def KR_PCB_def DR_PCB_def NET_PCB_def TER_PCB_def
  INTERRUPT_def INTERRUPT_NET_def IDLE_PCB_def init_proc_addr_def

text \<open>The part of \<open>main\<close> that sets the processes up. \<open>idle_process\<close> and
  \<open>kernel_work\<close> are functions of the kernel; the other entry points are the addresses the
  servers are loaded at.\<close>

definition boot :: "kstate \<Rightarrow> u32 \<Rightarrow> u32 \<Rightarrow> kstate option" where
  "boot s idle_process kernel_work = do {
     s0 \<leftarrow> deal_init_process (init_pm s) 0;
     s1 \<leftarrow> start_process s0 [105, 100, 108, 101, 0] 1 PRIORITY_E (Entry idle_process) (Entry 0) IDLE_PCB;
     s2 \<leftarrow> start_userprocess s1 [109, 109, 0] 2 PRIORITY_B (Entry 0x20000) MM_PCB (MM_PCB - 0x10000 + 0xfff);
     s3 \<leftarrow> start_userprocess s2 [102, 115, 0] 3 PRIORITY_B (Entry 0x30000) FS_PCB (FS_PCB - 0x10000 + 0xfff);
     s4 \<leftarrow> start_userprocess s3 [100, 114, 0] 4 PRIORITY_A (Entry 0x40000) DR_PCB (DR_PCB - 0x10000 + 0xfff);
     s5 \<leftarrow> start_userprocess s4 [110, 101, 116, 0] 5 PRIORITY_C (Entry 0x50000) NET_PCB (NET_PCB - 0x10000 + 0xfff);
     s6 \<leftarrow> start_userprocess s5 [116, 101, 114, 109, 105, 110, 97, 108, 0] 6 PRIORITY_C (Entry 0x60000)
             TER_PCB (TER_PCB - 0x10000 + 0xfff);
     start_process s6 [107, 101, 114, 110, 101, 108, 0] 7 PRIORITY_C (Entry kernel_work) (Entry 0) KR_PCB }"

definition status2string :: "process_status \<Rightarrow> u8 list \<Rightarrow> u8 list option" where
  "status2string stat buf =
     (case stat of
        RUNNING \<Rightarrow> strcpy buf 0 [82, 85, 78, 0] 0
      | READY \<Rightarrow> strcpy buf 0 [82, 68, 89, 0] 0
      | BLOCKED \<Rightarrow> strcpy buf 0 [66, 76, 68, 0] 0
      | WAITING \<Rightarrow> strcpy buf 0 [87, 65, 84, 0] 0
      | HANGING \<Rightarrow> strcpy buf 0 [68, 73, 69, 0] 0
      | WAITING_MSG \<Rightarrow> strcpy buf 0 [87, 77, 71, 0] 0
      | SENDING_MSG \<Rightarrow> strcpy buf 0 [83, 77, 71, 0] 0
      | _ \<Rightarrow> strcpy buf 0 [85, 75, 78, 0] 0)"

section \<open>The invariant of the ready queues\<close>

abbreviation rqueue :: "kstate \<Rightarrow> nat \<Rightarrow> cycle_list" where
  "rqueue s i \<equiv> ready_processes s ! i"

abbreviation prio_of :: "kstate \<Rightarrow> u32 \<Rightarrow> nat" where
  "prio_of s p \<equiv> unat (priority (pcbs s p))"

definition queues_ok :: "kstate \<Rightarrow> u32 list list \<Rightarrow> bool" where
  "queues_ok s qs \<longleftrightarrow>
     length qs = PRIORITY_KIND \<and> length (ready_processes s) = PRIORITY_KIND
     \<and> length (max_rounds s) = PRIORITY_KIND
     \<and> (\<forall>i < PRIORITY_KIND. cl_rel (links s) (rqueue s i) (qs ! i))
     \<and> (\<forall>i < PRIORITY_KIND. \<forall>j < PRIORITY_KIND. i \<noteq> j \<longrightarrow>
          cl_nodes (rqueue s i) (qs ! i) \<inter> cl_nodes (rqueue s j) (qs ! j) = {})
     \<and> (\<forall>i < PRIORITY_KIND. \<forall>p \<in> set (qs ! i). p \<noteq> 0 \<and> prio_of s p = i)
     \<and> (\<forall>i < PRIORITY_KIND. qs ! i \<noteq> [] \<longrightarrow> unat (max_priority s) \<le> i)"

definition queue_nodes :: "kstate \<Rightarrow> u32 list list \<Rightarrow> u32 set" where
  "queue_nodes s qs = (\<Union>i \<in> {..< PRIORITY_KIND}. cl_nodes (rqueue s i) (qs ! i))"

definition queued :: "u32 list list \<Rightarrow> u32 set" where
  "queued qs = (\<Union>i \<in> {..< PRIORITY_KIND}. set (qs ! i))"

text \<open>The full invariant: the running process is queued and every other queued process is
  ready.\<close>

definition kinv :: "kstate \<Rightarrow> u32 list list \<Rightarrow> bool" where
  "kinv s qs \<longleftrightarrow> queues_ok s qs \<and> cur_proc s \<in> queued qs \<and> status (pcbs s (cur_proc s)) = RUNNING
     \<and> (\<forall>p \<in> queued qs. p \<noteq> cur_proc s \<longrightarrow> status (pcbs s p) = READY)"

lemma queues_ok_cong:
  assumes "links s' = links s" "ready_processes s' = ready_processes s"
    and "length (max_rounds s') = length (max_rounds s)" "max_priority s' = max_priority s"
    and "\<And>p. p \<in> queued qs \<Longrightarrow> priority (pcbs s' p) = priority (pcbs s p)"
  shows "queues_ok s' qs \<longleftrightarrow> queues_ok s qs"
proof -
  have "priority (pcbs s' p) = priority (pcbs s p)" if "i < PRIORITY_KIND" "p \<in> set (qs ! i)" for i p
    using assms(5) that by (auto simp: queued_def)
  then show ?thesis using assms(1-4) by (simp add: queues_ok_def cong: ball_cong)
qed

lemma queues_okD:
  assumes "queues_ok s qs"
  shows "length qs = PRIORITY_KIND" "length (ready_processes s) = PRIORITY_KIND"
    "length (max_rounds s) = PRIORITY_KIND"
    "i < PRIORITY_KIND \<Longrightarrow> cl_rel (links s) (rqueue s i) (qs ! i)"
    "i < PRIORITY_KIND \<Longrightarrow> p \<in> set (qs ! i) \<Longrightarrow> p \<noteq> 0 \<and> prio_of s p = i"
    "i < PRIORITY_KIND \<Longrightarrow> j < PRIORITY_KIND \<Longrightarrow> i \<noteq> j \<Longrightarrow>
       cl_nodes (rqueue s i) (qs ! i) \<inter> cl_nodes (rqueue s j) (qs ! j) = {}"
    "i < PRIORITY_KIND \<Longrightarrow> qs ! i \<noteq> [] \<Longrightarrow> unat (max_priority s) \<le> i"
  using assms unfolding queues_ok_def by blast+

lemma queuedE:
  assumes "p \<in> queued qs" "queues_ok s qs"
  shows "prio_of s p < PRIORITY_KIND" "p \<in> set (qs ! prio_of s p)" "p \<noteq> 0"
  using assms queues_okD(5) [OF assms(2)] by (auto simp: queued_def)

lemma queued_distinct: "queues_ok s qs \<Longrightarrow> i < PRIORITY_KIND \<Longrightarrow> distinct (qs ! i)"
  using queues_okD(4) [of s qs i] by (simp add: cl_rel_def)

lemma queued_append:
  "length qs = PRIORITY_KIND \<Longrightarrow> i < PRIORITY_KIND \<Longrightarrow>
   queued (qs[i := qs ! i @ [p]]) = insert p (queued qs)"
  by (auto simp: queued_def nth_list_update split: if_splits)

lemma queued_remove:
  assumes "queues_ok s qs" "p \<in> set (qs ! i)" "i < PRIORITY_KIND"
  shows "queued (qs[i := remove1 p (qs ! i)]) = queued qs - {p}"
proof -
  have "set (qs[i := remove1 p (qs ! i)] ! j) = set (qs ! j) - {p}" if "j < PRIORITY_KIND" for j
    using that assms queues_okD(1) [OF assms(1)] queues_okD(5) [OF assms(1), of j p]
      queues_okD(5) [OF assms(1), of i p] queued_distinct [OF assms(1,3)] by (cases "j = i") auto
  then show ?thesis by (auto simp: queued_def)
qed

lemma make_ready_ok:
  assumes ok: "queues_ok s qs" and fresh: "p \<notin> queue_nodes s qs" and nz: "p \<noteq> 0"
    and prio: "prio_of s p = i" "unat pr = i" "i < PRIORITY_KIND"
  shows "\<exists>s'. make_ready s p pr = Some s' \<and> queues_ok s' (qs[i := qs ! i @ [p]])
     \<and> s' = s\<lparr>links := cl_append (links s) (rqueue s i) p, max_priority := min pr (max_priority s)\<rparr>"
proof -
  note D = queues_okD [OF ok]
  let ?s = "s\<lparr>links := cl_append (links s) (rqueue s i) p, max_priority := min pr (max_priority s)\<rparr>"
  have run: "make_ready s p pr = Some ?s"
    using D(2) prio by (simp add: make_ready_def load_def min_def not_le)
  have fr: "p \<notin> cl_nodes (rqueue s j) (qs ! j)" if "j < PRIORITY_KIND" for j
    using fresh that by (auto simp: queue_nodes_def)
  have rel: "cl_rel (links ?s) (rqueue s j) (qs[i := qs ! i @ [p]] ! j)" if "j < PRIORITY_KIND" for j
  proof (cases "j = i")
    case True
    then show ?thesis using D(1) cl.rel_append [OF D(4) fr] prio(3) by simp
  next
    case False
    then have "cl_nodes (rqueue s j) (qs ! j) \<inter> insert p (cl_nodes (rqueue s i) (qs ! i)) = {}"
      using D(6) [OF that prio(3)] fr [OF that] by auto
    then show ?thesis
      using False cl.frame_append [OF D(4) D(4)] that prio(3) by simp
  qed
  have nodes: "cl_nodes (rqueue s j) (qs[i := qs ! i @ [p]] ! j)
      = (if j = i then insert p (cl_nodes (rqueue s j) (qs ! j)) else cl_nodes (rqueue s j) (qs ! j))"
    if "j < PRIORITY_KIND" for j using that D(1) by (simp add: cl.nodes_add)
  have mp: "unat (min pr (max_priority s)) \<le> j"
    if "j < PRIORITY_KIND" "qs[i := qs ! i @ [p]] ! j \<noteq> []" for j
    using D(1) D(7) [of j] that prio by (cases "j = i") (auto simp: min_def word_le_nat_alt)
  have mem: "q \<noteq> 0 \<and> prio_of ?s q = j" if "j < PRIORITY_KIND" "q \<in> set (qs[i := qs ! i @ [p]] ! j)" for j q
    using D(1) D(5) [of j q] that prio nz by (cases "j = i") auto
  have "queues_ok ?s (qs[i := qs ! i @ [p]])"
    unfolding queues_ok_def using D(1-3) rel mp mem nodes D(6) fr by simp
  then show ?thesis using run by blast
qed

lemma remove_ok:
  assumes ok: "queues_ok s qs" and mem: "p \<in> set (qs ! i)" and i: "i < PRIORITY_KIND"
  shows "queues_ok (s\<lparr>links := cl_remove (links s) (rqueue s i) p\<rparr>) (qs[i := remove1 p (qs ! i)])"
    (is "queues_ok ?s ?qs")
proof -
  note D = queues_okD [OF ok]
  have rel: "cl_rel (links ?s) (rqueue s j) (?qs ! j)" if "j < PRIORITY_KIND" for j
    using that D(1) cl.rel_remove [OF D(4) mem] cl.frame_remove [OF D(4) mem D(4)] D(6) [OF that i] i
    by (cases "j = i") simp_all
  have nodes: "cl_nodes (rqueue s j) (?qs ! j) \<subseteq> cl_nodes (rqueue s j) (qs ! j)"
    if "j < PRIORITY_KIND" for j
    using that D(1) cl.nodes_remove [OF D(4) mem] i by (cases "j = i") auto
  have sub: "set (?qs ! j) \<subseteq> set (qs ! j)" if "j < PRIORITY_KIND" for j
    using that D(1) set_remove1_subset [of p "qs ! i"] by (cases "j = i") auto
  have ne: "qs ! j \<noteq> []" if "j < PRIORITY_KIND" "?qs ! j \<noteq> []" for j
    using that sub by fastforce
  have dj: "cl_nodes (rqueue s j) (?qs ! j) \<inter> cl_nodes (rqueue s k) (?qs ! k) = {}"
    if "j < PRIORITY_KIND" "k < PRIORITY_KIND" "j \<noteq> k" for j k
    using D(6) [OF that] nodes [OF that(1)] nodes [OF that(2)] by blast
  have "q \<noteq> 0 \<and> prio_of s q = j" if "j < PRIORITY_KIND" "q \<in> set (?qs ! j)" for j q
    using D(5) that sub by blast
  then show ?thesis
    unfolding queues_ok_def using D(1-3,7) rel ne dj by simp
qed

section \<open>Picking the next process\<close>

definition eligible :: "kstate \<Rightarrow> u32 list list \<Rightarrow> nat \<Rightarrow> bool" where
  "eligible s qs i \<longleftrightarrow> i < PRIORITY_KIND \<and> qs ! i \<noteq> [] \<and> \<not> (i < 3 \<and> max_rounds s ! i = 0)"

definition refill :: "nat \<Rightarrow> nat \<Rightarrow> u32 list \<Rightarrow> u32 list" where
  "refill lo hi rs = map (\<lambda>j. if lo \<le> j \<and> j < hi \<and> j < 3 \<and> rs ! j = 0 then 10 else rs ! j) [0 ..< length rs]"

definition after_in :: "'a \<Rightarrow> 'a list \<Rightarrow> 'a list" where
  "after_in p xs = tl (dropWhile (\<lambda>x. x \<noteq> p) xs) @ takeWhile (\<lambda>x. x \<noteq> p) xs"

lemma after_in_split:
  assumes "p \<notin> set as"
  shows "after_in p (as @ p # bs) = bs @ as"
proof -
  have "takeWhile (\<lambda>x. x \<noteq> p) (as @ p # bs) = as" "dropWhile (\<lambda>x. x \<noteq> p) (as @ p # bs) = p # bs"
    using assms by (induction as) auto
  then show ?thesis by (simp add: after_in_def)
qed

lemma set_after_in: "distinct xs \<Longrightarrow> p \<in> set xs \<Longrightarrow> set (after_in p xs) = set xs - {p}"
proof -
  assume "distinct xs" "p \<in> set xs"
  then obtain as bs where "xs = as @ p # bs" "p \<notin> set as" "p \<notin> set bs"
    by (metis split_list distinct_append distinct.simps(2) not_distinct_conv_prefix split_list_first)
  then show "set (after_in p xs) = set xs - {p}" by (auto simp: after_in_split)
qed

lemma refill_nth [simp]: "length (refill lo hi rs) = length rs"
  "j < length rs \<Longrightarrow> refill lo hi rs ! j = (if lo \<le> j \<and> j < hi \<and> j < 3 \<and> rs ! j = 0 then 10 else rs ! j)"
  by (simp_all add: refill_def)

lemma refill_same: "hi \<le> lo \<Longrightarrow> refill lo hi rs = rs"
  by (auto intro: nth_equalityI)

lemma refill_Suc:
  assumes "lo < length rs" "lo < hi"
  shows "refill (Suc lo) hi (if lo < 3 \<and> rs ! lo = 0 then rs[lo := 10] else rs) = refill lo hi rs"
  using assms by (intro nth_equalityI) (auto simp: nth_list_update le_Suc_eq not_less_eq_eq Suc_le_eq nat_less_le)

lemma pick_priority_ok:
  assumes "queues_ok s qs" "eligible s qs k" "p \<le> k" "\<And>i. p \<le> i \<Longrightarrow> i < k \<Longrightarrow> \<not> eligible s qs i"
  shows "pick_priority s p = Some (k, s\<lparr>max_rounds := refill p k (max_rounds s)\<rparr>)"
  using assms
proof (induction "k - p" arbitrary: p s)
  case 0
  then have "p = k" by simp
  then show ?case
    using 0 queues_okD(2,3) [OF 0(2)] cl_rel_is_empty [OF queues_okD(4) [OF 0(2)]]
    by (auto simp: pick_priority.simps [of s k] eligible_def load_def refill_same)
next
  case (Suc n)
  note D = queues_okD [OF Suc.prems(1)]
  have pk: "p < k" "k < PRIORITY_KIND" using Suc.hyps(2) Suc.prems(2) by (auto simp: eligible_def)
  then have p5: "p < PRIORITY_KIND" by simp
  let ?r = "if p < 3 \<and> max_rounds s ! p = 0 then (max_rounds s)[p := 10] else max_rounds s"
  let ?s = "s\<lparr>max_rounds := ?r\<rparr>"
  have ok: "queues_ok ?s qs" using Suc.prems(1) by (subst queues_ok_cong [where s = s]) auto
  have el: "eligible ?s qs i \<longleftrightarrow> eligible s qs i" if "p < i" for i
    using that by (auto simp: eligible_def)
  have "pick_priority s p = pick_priority ?s (Suc p)"
    using Suc.prems(4) [of p] p5 pk D(2,3) cl_rel_is_empty [OF D(4) [OF p5]]
    by (auto simp: pick_priority.simps [of s p] eligible_def load_def)
  also have "\<dots> = Some (k, ?s\<lparr>max_rounds := refill (Suc p) k (max_rounds ?s)\<rparr>)"
    using Suc ok el pk by (intro Suc.hyps(1)) auto
  also have "\<dots> = Some (k, s\<lparr>max_rounds := refill p k (max_rounds s)\<rparr>)"
    using refill_Suc [of p "max_rounds s" k] p5 pk D(3) by simp
  finally show ?case .
qed

text \<open>The priority level the scheduler takes the next process from.\<close>

definition picked :: "kstate \<Rightarrow> u32 list list \<Rightarrow> nat" where
  "picked s qs = (LEAST i. eligible s qs i)"

lemma picked_eligible:
  assumes "qs ! 4 \<noteq> []"
  shows "eligible s qs (picked s qs)" "i < picked s qs \<Longrightarrow> \<not> eligible s qs i"
proof -
  have "eligible s qs 4" using assms by (simp add: eligible_def)
  then show "eligible s qs (picked s qs)" unfolding picked_def by (rule LeastI)
  show "i < picked s qs \<Longrightarrow> \<not> eligible s qs i" unfolding picked_def by (rule not_less_Least)
qed

text \<open>The state after a switch, given the process \<open>n\<close> that follows the running one in its
  queue.\<close>

definition switched :: "kstate \<Rightarrow> u32 \<Rightarrow> u32 list \<Rightarrow> kstate" where
  "switched s p rs = s\<lparr>max_rounds := rs, next_proc := p, prev_proc := cur_proc s, cur_proc := p,
     pcbs := (pcbs s)(p := (pcbs s p)\<lparr>status := RUNNING\<rparr>),
     tss_esp0 := (if is_userproc (pcbs s p) then p + sizeof_pcb else tss_esp0 s)\<rparr>"

lemma switched_simps [simp]:
  "links (switched s p rs) = links s" "ready_processes (switched s p rs) = ready_processes s"
  "max_rounds (switched s p rs) = rs" "max_priority (switched s p rs) = max_priority s"
  "cur_proc (switched s p rs) = p" "prev_proc (switched s p rs) = cur_proc s"
  "pcbs (switched s p rs) = (pcbs s)(p := (pcbs s p)\<lparr>status := RUNNING\<rparr>)"
  "msgs (switched s p rs) = msgs s" "processes (switched s p rs) = processes s"
  "tss_esp0 (switched s p rs) = (if is_userproc (pcbs s p) then p + sizeof_pcb else tss_esp0 s)"
  by (simp_all add: switched_def)

lemma dispatch_ok:
  assumes ok: "queues_ok s qs" and ne: "qs ! 4 \<noteq> []"
    and pr: "pr = prio_of s (cur_proc s)" "pr < PRIORITY_KIND"
    and nx: "qs ! pr \<noteq> [] \<Longrightarrow> cl_next_elem (links s) (rqueue s pr) (cur_proc s) = n \<and> n \<in> set (qs ! pr)"
    and k: "k = picked s qs"
    and p: "p = (if k = pr then n else hd (qs ! k))"
  shows "\<exists>rs. length rs = PRIORITY_KIND \<and> dispatch s = Some (switched s p rs) \<and> p \<in> set (qs ! k)
     \<and> k < PRIORITY_KIND"
proof -
  note D = queues_okD [OF ok]
  have el: "eligible s qs k" "\<And>i. i < k \<Longrightarrow> \<not> eligible s qs i"
    using picked_eligible [OF ne] k by auto
  then have k5: "k < PRIORITY_KIND" and kne: "qs ! k \<noteq> []" by (auto simp: eligible_def)
  have mp: "unat (max_priority s) \<le> k" using D(7) [OF k5 kne] .
  have pick: "pick_priority s (unat (max_priority s))
      = Some (k, s\<lparr>max_rounds := refill (unat (max_priority s)) k (max_rounds s)\<rparr>)"
    using pick_priority_ok [OF ok el(1) mp] el(2) by blast
  have pm: "p \<in> set (qs ! k)" using p nx kne by auto
  then have p0: "p \<noteq> 0" using D(5) [OF k5] by blast
  have ge: "cl_get_elem (links s) (rqueue s k) 0 = Some (hd (qs ! k))"
    using cl_rel_get_elem [OF D(4) [OF k5]] kne by (cases "qs ! k") auto
  let ?r = "refill (unat (max_priority s)) k (max_rounds s)"
  let ?rs = "if k = pr then ?r[pr := ?r ! pr - 1] else ?r"
  have ch: "choose_next (s\<lparr>max_rounds := ?r\<rparr>) k = Some (s\<lparr>max_rounds := ?rs, next_proc := p\<rparr>)"
    using nx kne k5 pr D(2,3) ge p by (auto simp: choose_next_def Let_def load_def)
  have "dispatch s = Some (switched s p ?rs)"
    using p0 by (auto simp: dispatch_def pick ch Let_def switched_def switch_to_def update_tss_def upd_pcb_def)
  then show ?thesis using D(3) pm k5 by (intro exI [of _ ?rs]) simp
qed

lemma set_status_same: "status (pcbs s p) = st \<Longrightarrow> set_status s p st = s"
  by (simp add: upd_pcb_def fun_upd_idem)

lemma set_status_simps [simp]:
  "pcbs (upd_pcb s p f) = (pcbs s)(p := f (pcbs s p))" "links (upd_pcb s p f) = links s"
  "ready_processes (upd_pcb s p f) = ready_processes s" "max_rounds (upd_pcb s p f) = max_rounds s"
  "max_priority (upd_pcb s p f) = max_priority s" "cur_proc (upd_pcb s p f) = cur_proc s"
  "msgs (upd_pcb s p f) = msgs s" "processes (upd_pcb s p f) = processes s"
  "next_proc (upd_pcb s p f) = next_proc s" "timer_ticks (upd_pcb s p f) = timer_ticks s"
  by (simp_all add: upd_pcb_def)

lemma picked_cong: "max_rounds s' = max_rounds s \<Longrightarrow> picked s' qs = picked s qs"
  by (simp add: picked_def eligible_def)

lemma kinv_switched:
  assumes "queues_ok s qs" "p \<in> queued qs" "length rs = PRIORITY_KIND"
    and "\<And>q. q \<in> queued qs \<Longrightarrow> status (pcbs s q) = READY"
  shows "kinv (switched s p rs) qs"
proof -
  have "queues_ok (switched s p rs) qs"
    using assms(1,3) queues_okD(3) [OF assms(1)] by (subst queues_ok_cong [where s = s]) auto
  then show ?thesis using assms(2,4) by (auto simp: kinv_def)
qed

text \<open>Rescheduling without blocking, from a state whose running process is still queued.\<close>

lemma schedule_ok:
  assumes ok: "queues_ok s qs" and ne: "qs ! 4 \<noteq> []"
    and cur: "cur = cur_proc s" "cur \<in> queued qs" "status (pcbs s cur) \<in> {RUNNING, READY}"
    and rdy: "\<And>q. q \<in> queued qs \<Longrightarrow> q \<noteq> cur \<Longrightarrow> status (pcbs s q) = READY"
    and k: "k = picked s qs"
    and p: "p = (if k = prio_of s cur then hd (after_in cur (qs ! k) @ [cur]) else hd (qs ! k))"
  shows "\<exists>rs. schedule s = Some (switched (set_status (s\<lparr>next_proc := 0\<rparr>) cur READY) p rs)
     \<and> kinv (switched (set_status (s\<lparr>next_proc := 0\<rparr>) cur READY) p rs) qs \<and> p \<in> set (qs ! k)"
proof -
  let ?s = "set_status (s\<lparr>next_proc := 0\<rparr>) cur READY"
  have ok': "queues_ok ?s qs" using ok by (subst queues_ok_cong [where s = s]) auto
  note D = queues_okD [OF ok']
  define pr where "pr = prio_of s cur"
  have pr5: "pr < PRIORITY_KIND" and mem: "cur \<in> set (qs ! pr)"
    using queuedE [OF cur(2) ok] by (auto simp: pr_def)
  obtain as bs where split: "qs ! pr = as @ cur # bs" "cur \<notin> set as"
    using mem by (metis split_list_first)
  have nx: "cl_next_elem (links ?s) (rqueue ?s pr) cur = hd (after_in cur (qs ! pr) @ [cur])"
    using cl_rel_next_elem [of "links ?s" "rqueue ?s pr" as cur bs] D(4) [OF pr5] split
    by (simp add: after_in_split)
  have nin: "hd (after_in cur (qs ! pr) @ [cur]) \<in> set (qs ! pr)"
    using split hd_in_set [of "after_in cur (qs ! pr) @ [cur]"] by (auto simp: after_in_split)
  have leave: "leave_cpu (s\<lparr>next_proc := 0\<rparr>) = Some ?s"
    using cur set_status_same [of "s\<lparr>next_proc := 0\<rparr>" cur READY] by (auto simp: leave_cpu_def Let_def)
  have c: "pr = prio_of ?s (cur_proc ?s)" "k = picked ?s qs"
    "p = (if k = pr then hd (after_in cur (qs ! pr) @ [cur]) else hd (qs ! k))"
    using cur k p picked_cong [of ?s s qs] by (auto simp: pr_def)
  obtain rs where rs: "length rs = PRIORITY_KIND" "dispatch ?s = Some (switched ?s p rs)"
      "p \<in> set (qs ! k)" "k < PRIORITY_KIND"
    using dispatch_ok [OF ok' ne c(1) pr5 _ c(2,3)] nx nin cur(1) by auto
  have "kinv (switched ?s p rs) qs"
    using ok' rs rdy by (intro kinv_switched) (auto simp: queued_def)
  then show ?thesis using leave rs by (auto simp: schedule_def)
qed

lemma schedule_kinv:
  assumes "kinv s qs" "qs ! 4 \<noteq> []"
  shows "\<exists>p rs. schedule s = Some (switched (set_status (s\<lparr>next_proc := 0\<rparr>) (cur_proc s) READY) p rs)
     \<and> kinv (switched (set_status (s\<lparr>next_proc := 0\<rparr>) (cur_proc s) READY) p rs) qs"
proof -
  have "queues_ok s qs" "cur_proc s \<in> queued qs" "status (pcbs s (cur_proc s)) \<in> {RUNNING, READY}"
    and "\<And>q. q \<in> queued qs \<Longrightarrow> q \<noteq> cur_proc s \<Longrightarrow> status (pcbs s q) = READY"
    using assms(1) by (auto simp: kinv_def)
  from schedule_ok [OF this(1) assms(2) refl this(2-4) refl refl] show ?thesis by blast
qed

text \<open>Blocking: the running process leaves its queue and keeps its links, so its successor is
  still found through it.\<close>

definition blocked :: "kstate \<Rightarrow> process_status \<Rightarrow> kstate" where
  "blocked s st = (set_status (s\<lparr>next_proc := 0\<rparr>) (cur_proc s) st)
     \<lparr>links := cl_remove (links s) (rqueue s (prio_of s (cur_proc s))) (cur_proc s)\<rparr>"

lemma self_block_eq:
  assumes "length (ready_processes s) = PRIORITY_KIND" "prio_of s (cur_proc s) < PRIORITY_KIND"
    and "st \<noteq> RUNNING" "st \<noteq> WAITING_MID"
  shows "self_block s st = dispatch (blocked s st)"
  using assms
  by (cases "st = WAITING_MSG")
    (auto simp: self_block_def schedule_def leave_cpu_def blocked_def load_def Let_def upd_pcb_def
      intro!: arg_cong [where f = dispatch])

lemma self_block_ok:
  assumes inv: "kinv s qs" and cur: "cur = cur_proc s" "pr = prio_of s cur"
    and st: "st \<notin> {RUNNING, READY, WAITING_MID}"
    and qs': "qs' = qs[pr := remove1 cur (qs ! pr)]" and ne: "qs' ! 4 \<noteq> []"
    and k: "k = picked s qs'"
    and p: "p = (if k = pr then hd (after_in cur (qs ! k)) else hd (qs' ! k))"
  shows "\<exists>rs. self_block s st = Some (switched (blocked s st) p rs)
     \<and> kinv (switched (blocked s st) p rs) qs' \<and> p \<in> set (qs' ! k) \<and> cur \<notin> queued qs'"
proof -
  have ok: "queues_ok s qs" and cq: "cur \<in> queued qs" using inv cur by (auto simp: kinv_def)
  have pr5: "pr < PRIORITY_KIND" and mem: "cur \<in> set (qs ! pr)"
    using queuedE [OF cq ok] cur by auto
  let ?s = "blocked s st"
  have "queues_ok (s\<lparr>links := cl_remove (links s) (rqueue s pr) cur\<rparr>) qs'"
    using remove_ok [OF ok mem pr5] qs' by simp
  then have ok': "queues_ok ?s qs'"
    using cur by (subst queues_ok_cong [where s = "s\<lparr>links := cl_remove (links s) (rqueue s pr) cur\<rparr>"])
      (auto simp: blocked_def)
  have qd: "queued qs' = queued qs - {cur}" using queued_remove [OF ok mem pr5] qs' by simp
  obtain as bs where split: "qs ! pr = as @ cur # bs" "cur \<notin> set as"
    using mem by (metis split_list_first)
  then have q': "qs' ! pr = as @ bs" using qs' pr5 queues_okD(1) [OF ok] by (simp add: remove1_append)
  have rel: "cl_rel (links s) (rqueue s pr) (as @ cur # bs)" using queues_okD(4) [OF ok pr5] split by simp
  have nx: "cl_next_elem (links ?s) (rqueue ?s pr) cur = hd (after_in cur (qs ! pr))" if "as @ bs \<noteq> []"
    using that cl_rel_remove_split(2) [OF rel] cl_rel_first [OF cl_rel_remove_split(1) [OF rel]] split cur
      rel by (cases bs) (auto simp: cl_next_elem_def blocked_def after_in_split cl_rel_def)
  have nin: "hd (after_in cur (qs ! pr)) \<in> set (qs' ! pr)" if "as @ bs \<noteq> []"
    using that split q' hd_in_set [of "bs @ as"] by (auto simp: after_in_split)
  have c: "pr = prio_of ?s (cur_proc ?s)" "k = picked ?s qs'"
    "p = (if k = pr then hd (after_in cur (qs ! pr)) else hd (qs' ! k))"
    using cur k p picked_cong [of ?s s qs'] by (auto simp: blocked_def)
  have "cur_proc ?s = cur" using cur by (simp add: blocked_def)
  then obtain rs where rs: "length rs = PRIORITY_KIND" "dispatch ?s = Some (switched ?s p rs)"
      "p \<in> set (qs' ! k)" "k < PRIORITY_KIND"
    using dispatch_ok [OF ok' ne c(1) pr5 _ c(2,3)] nx nin q' by auto
  have "kinv (switched ?s p rs) qs'"
    using ok' rs inv qd cur by (intro kinv_switched) (auto simp: queued_def blocked_def kinv_def)
  then show ?thesis
    using rs self_block_eq [of s st] queues_okD(2) [OF ok] pr5 cur st qd by auto
qed

text \<open>Waking a process that is not queued.\<close>

lemma unblock_ok:
  assumes inv: "kinv s qs" and fresh: "p \<notin> queue_nodes s qs" "p \<noteq> 0" "prio_of s p < PRIORITY_KIND"
    and i: "i = prio_of s p"
  shows "\<exists>s'. unblock_proc s p = Some s' \<and> kinv s' (qs[i := qs ! i @ [p]])
     \<and> cur_proc s' = cur_proc s \<and> msgs s' = msgs s \<and> ready_processes s' = ready_processes s
     \<and> pcbs s' = (pcbs s)(p := (pcbs s p)\<lparr>status := READY\<rparr>)"
proof -
  have ok: "queues_ok s qs" using inv by (simp add: kinv_def)
  have pq: "p \<notin> queued qs" using fresh by (auto simp: queue_nodes_def queued_def cl_nodes_def)
  let ?s = "set_status s p READY"
  have ok': "queues_ok ?s qs" using ok by (subst queues_ok_cong [where s = s]) auto
  have fr: "p \<notin> queue_nodes ?s qs" using fresh by (simp add: queue_nodes_def)
  have c: "prio_of ?s p = i" "unat (priority (pcbs s p)) = i" "i < PRIORITY_KIND"
    using fresh(3) i by simp_all
  obtain s' where s1: "make_ready ?s p (priority (pcbs s p)) = Some s'" "queues_ok s' (qs[i := qs ! i @ [p]])"
      "s' = ?s\<lparr>links := cl_append (links ?s) (rqueue ?s i) p,
             max_priority := min (priority (pcbs s p)) (max_priority ?s)\<rparr>"
    using make_ready_ok [OF ok' fr fresh(2) c] by blast
  then have s': "make_ready ?s p (priority (pcbs s p)) = Some s'"
      "queues_ok s' (qs[i := qs ! i @ [p]])" "pcbs s' = pcbs ?s" "cur_proc s' = cur_proc s"
      "msgs s' = msgs s" "ready_processes s' = ready_processes s"
    by simp_all
  have "queued (qs[i := qs ! i @ [p]]) = insert p (queued qs)"
    using queued_append [OF queues_okD(1) [OF ok]] fresh i by simp
  then have "kinv s' (qs[i := qs ! i @ [p]])" using s' inv pq by (auto simp: kinv_def)
  then show ?thesis using s' by (auto simp: unblock_proc_def Let_def)
qed

section \<open>Starting processes\<close>

text \<open>What both ways of starting a process do: the control block is filled in, entered into
  the process array and appended to the ready queue of its priority.\<close>

lemma prio_num_lt: "unat (prio_num pr) < PRIORITY_KIND"
  by (cases pr) auto

lemma init_process_info_ok:
  assumes "cstr nm 0 n" "length n \<le> 16" "length (name (pcbs s p)) = 16"
  shows "\<exists>b. init_process_info s p nm k pr = Some (upd_pcb s p (\<lambda>_. b)) \<and> length (name b) = 16
    \<and> priority b = prio_num pr \<and> pid b = word_of_int k \<and> status b = status (pcbs s p)"
  using assms memset_put [of 0 16 "name (pcbs s p)" 0]
    strcpy_cstr [OF assms(1), of 0 "put (name (pcbs s p)) 0 (replicate 16 0)"]
  by (auto simp: init_process_info_def Let_def upd_pcb_def)

text \<open>Everything else a start leaves unchanged.\<close>

definition starts :: "kstate \<Rightarrow> u32 \<Rightarrow> nat \<Rightarrow> kstate \<Rightarrow> bool" where
  "starts s p k s' \<longleftrightarrow> cur_proc s' = cur_proc s \<and> ready_processes s' = ready_processes s
     \<and> processes s' = (processes s)[k := p] \<and> (\<forall>q. q \<noteq> p \<longrightarrow> pcbs s' q = pcbs s q)
     \<and> length (name (pcbs s' p)) = 16 \<and> pid (pcbs s' p) = of_nat k"

lemma start_ready:
  assumes ok: "queues_ok s qs" and fresh: "p \<notin> queue_nodes s qs" "p \<noteq> 0"
    and s1: "s1 = upd_pcb (s\<lparr>processes := (processes s)[k := p]\<rparr>) p f"
    and b: "priority (f (pcbs s p)) = prio_num pr" "pid (f (pcbs s p)) = of_nat k"
      "length (name (f (pcbs s p))) = 16"
    and i: "i = unat (prio_num pr)"
  shows "\<exists>s'. make_ready s1 p (prio_num pr) = Some s' \<and> queues_ok s' (qs[i := qs ! i @ [p]])
     \<and> starts s p k s' \<and> status (pcbs s' p) = status (f (pcbs s p))"
proof -
  have "p \<notin> queued qs" using fresh by (auto simp: queue_nodes_def queued_def cl_nodes_def)
  then have ok1: "queues_ok s1 qs" using ok s1 by (subst queues_ok_cong [where s = s]) auto
  have c: "p \<notin> queue_nodes s1 qs" "prio_of s1 p = i" "unat (prio_num pr) = i" "i < PRIORITY_KIND"
    using s1 fresh b i prio_num_lt [of pr] by (simp_all add: queue_nodes_def)
  obtain s' where "make_ready s1 p (prio_num pr) = Some s'" "queues_ok s' (qs[i := qs ! i @ [p]])"
    and s': "s' = s1\<lparr>links := cl_append (links s1) (rqueue s1 i) p, max_priority := min (prio_num pr) (max_priority s1)\<rparr>"
    using make_ready_ok [OF ok1 c(1) fresh(2) c(2-4)] by blast
  moreover have "starts s p k s'" "status (pcbs s' p) = status (f (pcbs s p))"
    using b by (simp_all add: starts_def s' s1)
  ultimately show ?thesis by blast
qed

lemma kinv_starts:
  assumes "kinv s qs" "queues_ok s' (qs[i := qs ! i @ [p]])" "starts s p k s'" "i < PRIORITY_KIND"
    "status (pcbs s' p) = READY" "p \<notin> queue_nodes s qs"
  shows "kinv s' (qs[i := qs ! i @ [p]])"
proof -
  have "p \<notin> queued qs" using assms(6) by (auto simp: queue_nodes_def queued_def cl_nodes_def)
  moreover have "cur_proc s \<in> queued qs" using assms(1) by (simp add: kinv_def)
  ultimately have pc: "p \<noteq> cur_proc s" by auto
  have "length qs = PRIORITY_KIND" using assms(1) by (simp add: kinv_def queues_ok_def)
  then have "queued (qs[i := qs ! i @ [p]]) = insert p (queued qs)" by (rule queued_append [OF _ assms(4)])
  then show ?thesis
    using assms(1-3,5) pc unfolding kinv_def starts_def by (simp; metis)
qed

lemma start_process_ok:
  assumes "kinv s qs" "p \<notin> queue_nodes s qs" "p \<noteq> 0" "k < length (processes s)"
    and nm: "cstr nm 0 n" "length n \<le> 16" "length (name (pcbs s p)) = 16"
    and i: "i = unat (prio_num pr)"
  shows "\<exists>s'. start_process s nm (int k) pr fn arg p = Some s' \<and> kinv s' (qs[i := qs ! i @ [p]])
     \<and> starts s p k s'"
proof -
  let ?s = "s\<lparr>processes := (processes s)[k := p]\<rparr>"
  obtain b where b: "init_process_info ?s p nm (int k) pr = Some (upd_pcb ?s p (\<lambda>_. b))"
      "length (name b) = 16" "priority b = prio_num pr" "pid b = of_nat k"
    using init_process_info_ok [OF nm(1,2), of ?s p "int k" pr] nm(3) by auto
  define g where "g b = b\<lparr>esp := p + sizeof_pcb - sizeof_thread_stack,
       self_stack := (self_stack b)\<lparr>ts_ebp := 0, ts_ebx := 0, ts_esi := 0, ts_edi := 0,
                       ts_eip := Execute_func, ts_func := fn, ts_args := arg\<rparr>,
       status := READY, sendings := 0, message := 0\<rparr>" for b :: pcb
  have cp: "create_process (upd_pcb ?s p (\<lambda>_. b)) p fn arg = upd_pcb ?s p (\<lambda>_. g b)"
    by (simp add: create_process_def upd_pcb_def g_def)
  obtain s' where s': "make_ready (upd_pcb ?s p (\<lambda>_. g b)) p (prio_num pr) = Some s'"
      "queues_ok s' (qs[i := qs ! i @ [p]])" "starts s p k s'" "status (pcbs s' p) = READY"
    using start_ready [of s qs p _ k "\<lambda>_. g b" pr i] assms(1-3) i b
    by (auto simp: kinv_def g_def)
  moreover have "start_process s nm (int k) pr fn arg p = Some s'"
    using assms(4) b(1) s'(1) cp by (simp add: start_process_def append_all_array_def mem_simps Let_def)
  ultimately show ?thesis
    using kinv_starts [OF assms(1) s'(2,3) _ s'(4) assms(2)] prio_num_lt [of pr] i by auto
qed

lemma start_userprocess_ok:
  assumes "kinv s qs" "p \<notin> queue_nodes s qs" "p \<noteq> 0" "k < length (processes s)"
    and nm: "cstr nm 0 n" "length n \<le> 16" "length (name (pcbs s p)) = 16"
    and i: "i = unat (prio_num pr)"
  shows "\<exists>s'. start_userprocess s nm (int k) pr fn p stk = Some s' \<and> kinv s' (qs[i := qs ! i @ [p]])
     \<and> starts s p k s'"
proof -
  let ?s = "s\<lparr>processes := (processes s)[k := p]\<rparr>"
  obtain b where b: "init_process_info ?s p nm (int k) pr = Some (upd_pcb ?s p (\<lambda>_. b))"
      "length (name b) = 16" "priority b = prio_num pr" "pid b = of_nat k"
    using init_process_info_ok [OF nm(1,2), of ?s p "int k" pr] nm(3) by auto
  define g where "g b = b\<lparr>is_userproc := True, userstack := stk,
       esp := p + sizeof_pcb - sizeof_thread_stack,
       self_stack := (self_stack b)\<lparr>ts_ebp := 0, ts_ebx := 0, ts_esi := 0, ts_edi := 0,
                       ts_eip := Execute_func, ts_func := Init_userprocess, ts_args := fn\<rparr>,
       status := READY, sendings := 0, message := 0\<rparr>" for b :: pcb
  have cp: "create_process (upd_pcb (upd_pcb ?s p (\<lambda>_. b)) p (\<lambda>b. b\<lparr>is_userproc := True, userstack := stk\<rparr>))
      p Init_userprocess fn = upd_pcb ?s p (\<lambda>_. g b)"
    by (simp add: create_process_def upd_pcb_def g_def)
  obtain s' where s': "make_ready (upd_pcb ?s p (\<lambda>_. g b)) p (prio_num pr) = Some s'"
      "queues_ok s' (qs[i := qs ! i @ [p]])" "starts s p k s'" "status (pcbs s' p) = READY"
    using start_ready [of s qs p _ k "\<lambda>_. g b" pr i] assms(1-3) i b
    by (auto simp: kinv_def g_def)
  moreover have "start_userprocess s nm (int k) pr fn p stk = Some s'"
    using assms(4) b(1) s'(1) cp by (simp add: start_userprocess_def append_all_array_def mem_simps Let_def)
  ultimately show ?thesis
    using kinv_starts [OF assms(1) s'(2,3) _ s'(4) assms(2)] prio_num_lt [of pr] i by auto
qed

definition queue_objs :: "cycle_list list \<Rightarrow> u32 list" where
  "queue_objs ls = concat (map (\<lambda>l. [cl_head l, cl_tail l]) ls)"

lemma set_queue_objs: "set (queue_objs ls) = (\<Union>i \<in> {..< length ls}. {cl_head (ls ! i), cl_tail (ls ! i)})"
proof -
  have "set (queue_objs ls) = (\<Union>l \<in> set ls. {cl_head l, cl_tail l})"
    by (auto simp: queue_objs_def)
  also have "set ls = (\<lambda>i. ls ! i) ` {..< length ls}" by (auto simp: set_conv_nth)
  finally show ?thesis by auto
qed

lemma queue_nodes_eq:
  assumes "length (ready_processes s) = PRIORITY_KIND"
  shows "queue_nodes s qs = set (queue_objs (ready_processes s)) \<union> queued qs"
  using assms by (auto simp: queue_nodes_def queued_def set_queue_objs cl_nodes_def)

lemma cl_initialize_frame:
  "y \<notin> {cl_head l, cl_tail l} \<Longrightarrow>
   next_of (cl_initialize m l) y = next_of m y \<and> prev_of (cl_initialize m l) y = prev_of m y"
  by (simp add: cl_initialize_def Let_def)

lemma init_queues_frame:
  "y \<notin> set (queue_objs ls) \<Longrightarrow>
   next_of (init_queues m ls) y = next_of m y \<and> prev_of (init_queues m ls) y = prev_of m y"
  by (induction ls arbitrary: m) (simp_all add: queue_objs_def cl_initialize_frame)

lemma init_queues_rel:
  "distinct (queue_objs ls) \<Longrightarrow> l \<in> set ls \<Longrightarrow> cl_rel (init_queues m ls) l []"
proof (induction ls arbitrary: m)
  case (Cons k ls)
  show ?case
  proof (cases "l \<in> set ls")
    case True
    then show ?thesis using Cons by (simp add: queue_objs_def)
  next
    case False
    then have "l = k" using Cons.prems by simp
    then have "cl_rel (init_queues (cl_initialize m k) ls) l [] \<longleftrightarrow> cl_rel (cl_initialize m k) l []"
      using Cons.prems init_queues_frame
      by (intro cl_rel_cong) (auto simp: cl_nodes_def queue_objs_def)
    then show ?thesis using Cons.prems \<open>l = k\<close> cl_rel_initialize by (simp add: queue_objs_def)
  qed
qed simp

lemma queue_objs_disjoint:
  assumes "distinct (queue_objs ls)" "i < length ls" "j < length ls" "i \<noteq> j"
  shows "{cl_head (ls ! i), cl_tail (ls ! i)} \<inter> {cl_head (ls ! j), cl_tail (ls ! j)} = {}"
  using assms
proof (induction ls arbitrary: i j)
  case (Cons l ls)
  have "{cl_head l, cl_tail l} \<inter> {cl_head (ls ! k), cl_tail (ls ! k)} = {}" if "k < length ls" for k
    using Cons.prems(1) nth_mem [OF that] by (auto simp: queue_objs_def)
  with Cons show ?case by (cases i; cases j) (auto simp: queue_objs_def)
qed simp

lemma init_pm_ok:
  assumes "length (ready_processes s) = PRIORITY_KIND" "distinct (queue_objs (ready_processes s))"
  shows "queues_ok (init_pm s) (replicate PRIORITY_KIND [])"
proof -
  have "cl_rel (links (init_pm s)) (rqueue s i) []" if "i < PRIORITY_KIND" for i
    using that assms by (auto simp: init_pm_def intro!: init_queues_rel)
  then show ?thesis
    using assms queue_objs_disjoint [OF assms(2)]
    by (auto simp: queues_ok_def init_pm_def cl_nodes_def)
qed

lemma queued_five: "queued [a, b, c, d, e] = set a \<union> set b \<union> set c \<union> set d \<union> set e"
  by (auto simp: queued_def lessThan_Suc numeral_eq_Suc)

lemma deal_init_process_ok:
  assumes ok: "queues_ok s (replicate PRIORITY_KIND [])"
    and fresh: "init_proc_addr \<notin> set (queue_objs (ready_processes s))"
    and len: "0 < length (processes s)" "length (name (pcbs s init_proc_addr)) = 16"
  shows "\<exists>s'. deal_init_process s 0 = Some s' \<and> kinv s' [[], [], [], [], [init_proc_addr]]
     \<and> starts (s\<lparr>cur_proc := init_proc_addr, cur_proc_idx := -1\<rparr>) init_proc_addr 0 s'"
proof -
  let ?p = init_proc_addr and ?qs = "replicate PRIORITY_KIND []"
  let ?t = "s\<lparr>processes := (processes s)[0 := ?p]\<rparr>"
  let ?s = "s\<lparr>cur_proc := ?p, cur_proc_idx := -1\<rparr>"
  have "cstr [105, 110, 105, 116, 0] 0 [105, 110, 105, 116]" by simp
  then obtain b where b: "init_process_info ?t ?p [105, 110, 105, 116, 0] 0 PRIORITY_E = Some (upd_pcb ?t ?p (\<lambda>_. b))"
      "length (name b) = 16" "priority b = prio_num PRIORITY_E" "pid b = of_nat 0"
    using init_process_info_ok [of "[105, 110, 105, 116, 0]" "[105, 110, 105, 116]" ?t ?p 0 PRIORITY_E] len(2)
    by auto
  let ?u = "upd_pcb (?s\<lparr>processes := (processes ?s)[0 := ?p]\<rparr>) ?p (\<lambda>_. b\<lparr>status := RUNNING\<rparr>)"
  have ok': "queues_ok ?s ?qs" using ok by (subst queues_ok_cong [where s = s]) auto
  have fr: "?p \<notin> queue_nodes ?s ?qs"
    using fresh queues_okD(2) [OF ok] by (subst queue_nodes_eq) (auto simp: queued_def)
  let ?f = "\<lambda>_. b\<lparr>status := RUNNING\<rparr>"
  have c: "?p \<noteq> 0" "priority (?f (pcbs ?s ?p)) = prio_num PRIORITY_E" "pid (?f (pcbs ?s ?p)) = of_nat 0"
      "length (name (?f (pcbs ?s ?p))) = 16" "4 = unat (prio_num PRIORITY_E)"
    using b by (simp_all add: init_proc_addr_def)
  obtain s' where s': "make_ready ?u ?p (prio_num PRIORITY_E) = Some s'"
      "queues_ok s' (?qs[4 := ?qs ! 4 @ [?p]])" "starts ?s ?p 0 s'" "status (pcbs s' ?p) = status (?f (pcbs ?s ?p))"
    using start_ready [OF ok' fr c(1) refl c(2-5)] by blast
  have qs: "?qs[4 := ?qs ! 4 @ [?p]] = [[], [], [], [], [?p]]" by (simp add: eval_nat_numeral)
  have "upd_pcb (upd_pcb ?t ?p (\<lambda>_. b)\<lparr>cur_proc := ?p, cur_proc_idx := - 1\<rparr>) ?p (\<lambda>b. b\<lparr>status := RUNNING\<rparr>)
      \<lparr>processes := (processes s)[0 := ?p]\<rparr> = ?u"
    by (simp add: upd_pcb_def)
  then have "deal_init_process s 0 = Some s'"
    using len(1) b(1) s'(1) by (simp add: deal_init_process_def append_all_array_def mem_simps Let_def)
  moreover have "kinv s' [[], [], [], [], [?p]]"
    using s' qs by (auto simp: kinv_def starts_def queued_five)
  ultimately show ?thesis using s'(3) by blast
qed

lemma queue_nodes_starts:
  assumes "kinv s qs" "q \<notin> set (queue_objs (ready_processes s))" "q \<notin> queued qs"
  shows "q \<notin> queue_nodes s qs"
  using assms by (simp add: queue_nodes_eq kinv_def queues_ok_def)

text \<open>The state before booting: the process array and the names have their sizes and the
  objects of the five queues do not overlap each other or the control blocks.\<close>

definition preboot :: "kstate \<Rightarrow> bool" where
  "preboot s \<longleftrightarrow> length (processes s) = NR_PROC \<and> (\<forall>p. length (name (pcbs s p)) = 16)
     \<and> length (ready_processes s) = PRIORITY_KIND
     \<and> distinct (queue_objs (ready_processes s)
         @ [init_proc_addr, IDLE_PCB, MM_PCB, FS_PCB, DR_PCB, NET_PCB, TER_PCB, KR_PCB])"

definition boot_queues :: "u32 list list" where
  "boot_queues = [[DR_PCB], [MM_PCB, FS_PCB], [NET_PCB, TER_PCB, KR_PCB], [], [init_proc_addr, IDLE_PCB]]"

definition started :: "kstate \<Rightarrow> kstate \<Rightarrow> bool" where
  "started s s' \<longleftrightarrow> ready_processes s' = ready_processes s \<and> length (processes s') = NR_PROC
     \<and> (\<forall>p. length (name (pcbs s' p)) = 16) \<and> cur_proc s' = init_proc_addr"

lemma started_starts: "started s t \<Longrightarrow> starts t p k t' \<Longrightarrow> started s t'"
  unfolding started_def starts_def by (metis length_list_update)

text \<open>One more process started, as a process of the kernel or as a server.\<close>

lemma boot_step:
  assumes "started s t" "kinv t qs" "p \<notin> set (queue_objs (ready_processes s))" "p \<notin> queued qs" "p \<noteq> 0"
    "k < NR_PROC" "cstr nm 0 n" "length n \<le> 16"
    "unat (prio_num pr) = j" "qs' = qs[j := qs ! j @ [p]]" "k' = int k"
  shows "\<exists>t'. start_process t nm k' pr fn arg p = Some t' \<and> started s t'
      \<and> kinv t' qs' \<and> starts t p k t'"
    and "\<exists>t'. start_userprocess t nm k' pr fn p stk = Some t' \<and> started s t'
      \<and> kinv t' qs' \<and> starts t p k t'"
proof -
  have c: "p \<notin> queue_nodes t qs" "k < length (processes t)" "length (name (pcbs t p)) = 16"
    using assms queue_nodes_starts [OF assms(2)] by (auto simp: started_def)
  show "\<exists>t'. start_process t nm k' pr fn arg p = Some t' \<and> started s t'
      \<and> kinv t' qs' \<and> starts t p k t'"
    using start_process_ok [OF assms(2) c(1) assms(5) c(2) assms(7,8) c(3) assms(9) [symmetric]] started_starts [OF assms(1)]
      assms(9-11) by blast
  show "\<exists>t'. start_userprocess t nm k' pr fn p stk = Some t' \<and> started s t'
      \<and> kinv t' qs' \<and> starts t p k t'"
    using start_userprocess_ok [OF assms(2) c(1) assms(5) c(2) assms(7,8) c(3) assms(9) [symmetric]] started_starts [OF assms(1)]
      assms(9-11) by blast
qed

lemma five_levels [simp]:
  "[a, b, c, d, e] ! 2 = c" "[a, b, c, d, e] ! 4 = e" "[a, b, c, d, e] ! 3 = d"
  "[a, b, c, d, e][0 := x] = [x, b, c, d, e]" "[a, b, c, d, e][1 := x] = [a, x, c, d, e]"
  "[a, b, c, d, e][2 := x] = [a, b, x, d, e]" "[a, b, c, d, e][4 := x] = [a, b, c, d, x]"
  by (simp_all add: eval_nat_numeral)

lemma boot_ok:
  assumes "preboot s"
  shows "\<exists>s'. boot s idle kw = Some s' \<and> kinv s' boot_queues \<and> started s s'
    \<and> processes s' = (processes s)[0 := init_proc_addr, 1 := IDLE_PCB, 2 := MM_PCB, 3 := FS_PCB,
          4 := DR_PCB, 5 := NET_PCB, 6 := TER_PCB, 7 := KR_PCB]"
proof -
  note pre = assms [unfolded preboot_def]
  have objs: "p \<notin> set (queue_objs (ready_processes s))"
    if "p \<in> {init_proc_addr, IDLE_PCB, MM_PCB, FS_PCB, DR_PCB, NET_PCB, TER_PCB, KR_PCB}" for p
    using pre that by auto
  have "queues_ok (init_pm s) (replicate PRIORITY_KIND [])" using pre by (intro init_pm_ok) auto
  from deal_init_process_ok [OF this] obtain s0 where
    s0: "deal_init_process (init_pm s) 0 = Some s0" "kinv s0 [[], [], [], [], [init_proc_addr]]"
      "starts ((init_pm s)\<lparr>cur_proc := init_proc_addr, cur_proc_idx := -1\<rparr>) init_proc_addr 0 s0"
    using pre objs by (auto simp: init_pm_def)
  have t0: "started s s0"
    using s0(3) pre by (auto simp: started_def starts_def init_pm_def) metis
  obtain s1 where s1: "start_process s0 [105, 100, 108, 101, 0] 1 PRIORITY_E (Entry idle) (Entry 0) IDLE_PCB = Some s1"
      "started s s1" "kinv s1 [[], [], [], [], [init_proc_addr, IDLE_PCB]]"
      "starts s0 IDLE_PCB 1 s1"
    by atomize_elim (rule boot_step(1) [OF t0 s0(2), where n = "[105, 100, 108, 101]" and j = 4], simp_all add: objs, simp_all add: queued_five pcb_addrs)
  obtain s2 where s2: "start_userprocess s1 [109, 109, 0] 2 PRIORITY_B (Entry 0x20000) MM_PCB (MM_PCB - 0x10000 + 0xfff) = Some s2"
      "started s s2" "kinv s2 [[], [MM_PCB], [], [], [init_proc_addr, IDLE_PCB]]"
      "starts s1 MM_PCB 2 s2"
    by atomize_elim (rule boot_step(2) [OF s1(2,3), where n = "[109, 109]" and j = 1], simp_all add: objs, simp_all add: queued_five pcb_addrs)
  obtain s3 where s3: "start_userprocess s2 [102, 115, 0] 3 PRIORITY_B (Entry 0x30000) FS_PCB (FS_PCB - 0x10000 + 0xfff) = Some s3"
      "started s s3" "kinv s3 [[], [MM_PCB, FS_PCB], [], [], [init_proc_addr, IDLE_PCB]]"
      "starts s2 FS_PCB 3 s3"
    by atomize_elim (rule boot_step(2) [OF s2(2,3), where n = "[102, 115]" and j = 1], simp_all add: objs, simp_all add: queued_five pcb_addrs)
  obtain s4 where s4: "start_userprocess s3 [100, 114, 0] 4 PRIORITY_A (Entry 0x40000) DR_PCB (DR_PCB - 0x10000 + 0xfff) = Some s4"
      "started s s4" "kinv s4 [[DR_PCB], [MM_PCB, FS_PCB], [], [], [init_proc_addr, IDLE_PCB]]"
      "starts s3 DR_PCB 4 s4"
    by atomize_elim (rule boot_step(2) [OF s3(2,3), where n = "[100, 114]" and j = 0], simp_all add: objs, simp_all add: queued_five pcb_addrs)
  obtain s5 where s5: "start_userprocess s4 [110, 101, 116, 0] 5 PRIORITY_C (Entry 0x50000) NET_PCB (NET_PCB - 0x10000 + 0xfff) = Some s5"
      "started s s5" "kinv s5 [[DR_PCB], [MM_PCB, FS_PCB], [NET_PCB], [], [init_proc_addr, IDLE_PCB]]"
      "starts s4 NET_PCB 5 s5"
    by atomize_elim (rule boot_step(2) [OF s4(2,3), where n = "[110, 101, 116]" and j = 2], simp_all add: objs, simp_all add: queued_five pcb_addrs)
  obtain s6 where s6: "start_userprocess s5 [116, 101, 114, 109, 105, 110, 97, 108, 0] 6 PRIORITY_C (Entry 0x60000) TER_PCB (TER_PCB - 0x10000 + 0xfff) = Some s6"
      "started s s6" "kinv s6 [[DR_PCB], [MM_PCB, FS_PCB], [NET_PCB, TER_PCB], [], [init_proc_addr, IDLE_PCB]]"
      "starts s5 TER_PCB 6 s6"
    by atomize_elim (rule boot_step(2) [OF s5(2,3), where n = "[116, 101, 114, 109, 105, 110, 97, 108]" and j = 2], simp_all add: objs, simp_all add: queued_five pcb_addrs)
  obtain s7 where s7: "start_process s6 [107, 101, 114, 110, 101, 108, 0] 7 PRIORITY_C (Entry kw) (Entry 0) KR_PCB = Some s7"
      "started s s7" "kinv s7 [[DR_PCB], [MM_PCB, FS_PCB], [NET_PCB, TER_PCB, KR_PCB], [], [init_proc_addr, IDLE_PCB]]"
      "starts s6 KR_PCB 7 s7"
    by atomize_elim (rule boot_step(1) [OF s6(2,3), where n = "[107, 101, 114, 110, 101, 108]" and j = 2], simp_all add: objs, simp_all add: queued_five pcb_addrs)
  have "boot s idle kw = Some s7" using s0(1) s1(1) s2(1) s3(1) s4(1) s5(1) s6(1) s7(1) by (simp add: boot_def)
  moreover have "processes s7 = (processes s)[0 := init_proc_addr, 1 := IDLE_PCB, 2 := MM_PCB, 3 := FS_PCB,
      4 := DR_PCB, 5 := NET_PCB, 6 := TER_PCB, 7 := KR_PCB]"
    using s0(3) s1(4) s2(4) s3(4) s4(4) s5(4) s6(4) s7(4) by (simp add: starts_def init_pm_def)
  ultimately show ?thesis using s7 by (simp add: boot_queues_def)
qed

section \<open>Properties\<close>

text \<open>C1: from a state in which the queues are well formed and the init process is queued,
  \<open>schedule\<close> always switches: it takes the process from the first nonempty ready queue that
  has not used up its rounds; within the priority of the running process it takes the
  successor in its queue (round robin), otherwise the first process of the queue. The queues
  are kept, and the picked process is the only one running.\<close>

theorem schedule_picks_first_eligible:
  assumes "kinv s qs" and "qs ! 4 \<noteq> []" and "k = (LEAST i. eligible s qs i)"
  shows "\<exists>s'. schedule s = Some s' \<and> kinv s' qs \<and> prev_proc s' = cur_proc s
     \<and> cur_proc s' \<in> set (qs ! k)
     \<and> cur_proc s' = (if k = prio_of s (cur_proc s) then hd (after_in (cur_proc s) (qs ! k) @ [cur_proc s])
                      else hd (qs ! k))"
  using schedule_ok [of s qs "cur_proc s" k] assms by (auto simp: kinv_def picked_def)

text \<open>C2: a process that blocks leaves its ready queue and no other queue changes, its status
  is the one it blocked with, and the scheduler switches to another queued process: the
  successor of the blocked one when its level is still the first eligible one, and otherwise
  the first process of the first eligible level.\<close>

theorem self_block_leaves_queue:
  assumes "kinv s qs" and "st \<notin> {RUNNING, READY, WAITING_MID}"
    and "qs' = qs[prio_of s (cur_proc s) := remove1 (cur_proc s) (qs ! prio_of s (cur_proc s))]"
    and "qs' ! 4 \<noteq> []" and "k = (LEAST i. eligible s qs' i)"
  shows "\<exists>s'. self_block s st = Some s' \<and> kinv s' qs' \<and> cur_proc s \<notin> queued qs'
     \<and> status (pcbs s' (cur_proc s)) = st \<and> cur_proc s' \<in> set (qs' ! k)
     \<and> cur_proc s' = (if k = prio_of s (cur_proc s) then hd (after_in (cur_proc s) (qs ! k)) else hd (qs' ! k))"
proof -
  have k: "k = picked s qs'" using assms(5) by (simp add: picked_def)
  define p where "p = (if k = prio_of s (cur_proc s) then hd (after_in (cur_proc s) (qs ! k)) else hd (qs' ! k))"
  obtain rs where rs: "self_block s st = Some (switched (blocked s st) p rs)"
      "kinv (switched (blocked s st) p rs) qs'" "p \<in> set (qs' ! k)" "cur_proc s \<notin> queued qs'"
    using self_block_ok [OF assms(1) refl refl assms(2,3,4) k p_def] by blast
  have "p \<in> queued qs'" using rs(2) by (simp add: kinv_def)
  with rs(4) have "p \<noteq> cur_proc s" by blast
  with rs show ?thesis by (auto simp: blocked_def p_def)
qed

text \<open>C4: waking a process that is not queued appends it to the ready queue of its priority,
  makes it ready and leaves the running process alone.\<close>

theorem unblock_proc_appends:
  assumes "kinv s qs" and "p \<notin> queue_nodes s qs" and "p \<noteq> 0" and "prio_of s p < PRIORITY_KIND"
  shows "\<exists>s'. unblock_proc s p = Some s' \<and> kinv s' (qs[prio_of s p := qs ! prio_of s p @ [p]])
     \<and> cur_proc s' = cur_proc s \<and> status (pcbs s' p) = READY"
  using unblock_ok [OF assms refl] by auto

text \<open>A timer interrupt counts the tick for the running process and keeps the
  queues. While the process has ticks left it only loses one; once they are used up every
  further interrupt reschedules, because nothing gives the process new ticks.\<close>

theorem timer_handler_accounts:
  assumes "kinv s qs" and "qs ! 4 \<noteq> []"
  shows "\<exists>s'. timer_handler s = Some s' \<and> kinv s' qs
     \<and> elapsed_ticks (pcbs s' (cur_proc s)) = elapsed_ticks (pcbs s (cur_proc s)) + 1
     \<and> (if ticks (pcbs s (cur_proc s)) = 0
        then prev_proc s' = cur_proc s \<and> ticks (pcbs s' (cur_proc s)) = 0
        else cur_proc s' = cur_proc s \<and> ticks (pcbs s' (cur_proc s)) = ticks (pcbs s (cur_proc s)) - 1)"
proof -
  let ?c = "cur_proc s"
  let ?s = "upd_pcb (s\<lparr>timer_ticks := timer_ticks s + 1\<rparr>) ?c (\<lambda>b. b\<lparr>elapsed_ticks := elapsed_ticks b + 1\<rparr>)"
  have ok: "queues_ok s qs" using assms(1) by (simp add: kinv_def)
  have kc: "kinv s' qs" if "queues_ok s' qs" "cur_proc s' = ?c" "\<And>p. status (pcbs s' p) = status (pcbs s p)" for s'
    using that assms(1) by (simp add: kinv_def)
  have "queues_ok ?s qs" using ok by (subst queues_ok_cong [where s = s]) auto
  then have k1: "kinv ?s qs" by (rule kc) auto
  show ?thesis
  proof (cases "ticks (pcbs s ?c) = 0")
    case True
    have th: "timer_handler s = schedule ?s" using True by (simp add: timer_handler_def Let_def upd_pcb_def)
    obtain p rs where "schedule ?s = Some (switched (set_status (?s\<lparr>next_proc := 0\<rparr>) ?c READY) p rs)"
        "kinv (switched (set_status (?s\<lparr>next_proc := 0\<rparr>) ?c READY) p rs) qs"
      using schedule_kinv [OF k1 assms(2)] by auto
    then show ?thesis using True th by auto
  next
    case False
    let ?t = "upd_pcb ?s ?c (\<lambda>b. b\<lparr>ticks := ticks b - 1\<rparr>)"
    have "timer_handler s = Some ?t" using False by (simp add: timer_handler_def Let_def upd_pcb_def)
    moreover have "queues_ok ?t qs" using ok by (subst queues_ok_cong [where s = s]) auto
    ultimately show ?thesis using False kc [of ?t] by auto
  qed
qed

text \<open>A process that yields stays in its queue and the processor goes to the process that
  \<open>schedule\<close> would pick.\<close>

lemma proc_yield_round_robin:
  assumes "kinv s qs" and "qs ! 4 \<noteq> []" and "k = (LEAST i. eligible s qs i)"
  shows "\<exists>s'. proc_yield s = Some s' \<and> kinv s' qs \<and> prev_proc s' = cur_proc s
     \<and> cur_proc s' = (if k = prio_of s (cur_proc s) then hd (after_in (cur_proc s) (qs ! k) @ [cur_proc s])
                      else hd (qs ! k))"
proof -
  let ?s = "set_status s (cur_proc s) READY"
  have ok: "queues_ok ?s qs" using assms(1) by (subst queues_ok_cong [where s = s]) (auto simp: kinv_def)
  have c: "cur_proc ?s \<in> queued qs" "status (pcbs ?s (cur_proc ?s)) \<in> {RUNNING, READY}"
    "\<And>q. q \<in> queued qs \<Longrightarrow> q \<noteq> cur_proc ?s \<Longrightarrow> status (pcbs ?s q) = READY"
    using assms(1) by (auto simp: kinv_def)
  have k: "k = picked ?s qs" using assms(3) picked_cong [of ?s s qs] by (simp add: picked_def)
  from schedule_ok [OF ok assms(2) refl c k refl] show ?thesis
    by (auto simp: proc_yield_def)
qed

text \<open>C8: booting from zeroed queues succeeds: afterwards the init process runs, the queues
  hold the servers at their priorities in the order in which they were started, and the
  process array holds them under their numbers.\<close>

theorem boot_establishes_queues:
  assumes "preboot s"
  shows "\<exists>s'. boot s idle_process kernel_work = Some s'
    \<and> kinv s' [[DR_PCB], [MM_PCB, FS_PCB], [NET_PCB, TER_PCB, KR_PCB], [], [init_proc_addr, IDLE_PCB]]
    \<and> cur_proc s' = init_proc_addr
    \<and> map (pid2pcb s') [0, 1, 2, 3, 4, 5, 6, 7]
        = map Some [init_proc_addr, IDLE_PCB, MM_PCB, FS_PCB, DR_PCB, NET_PCB, TER_PCB, KR_PCB]"
  using boot_ok [OF assms, of idle_process kernel_work] assms
  by (auto simp: boot_queues_def started_def preboot_def pid2pcb_def load_def)

section \<open>Witnesses\<close>

definition zero_stack :: thread_stack where
  "zero_stack = \<lparr>ts_ebp = 0, ts_ebx = 0, ts_edi = 0, ts_esi = 0, ts_eip = Entry 0, ts_func = Entry 0,
     ts_args = Entry 0\<rparr>"

definition zero_pcb :: pcb where
  "zero_pcb = \<lparr>pid = 0, name = replicate 16 0, status = RUNNING, priority = 0, ticks = 0, elapsed_ticks = 0,
     pagedir_pos = 0, esp = 0, next_ready = 0, message = 0, sendings = 0, intr_cnt = 0, reply_cnt = 0,
     userstack = 0, is_userproc = False, self_stack = zero_stack\<rparr>"

definition zero_message :: message where
  "zero_message = \<lparr>source = 0, destination = 0, mtype = 0,
     mcontext = \<lparr>con_1 = 0, con_2 = 0, con_3 = 0, con_4 = 0\<rparr>\<rparr>"

text \<open>A zeroed data segment with the queues' objects at \<open>0x10000\<close>.\<close>

definition zero_kstate :: kstate where
  "zero_kstate = \<lparr>pcbs = (\<lambda>_. zero_pcb), links = \<lparr>prev_of = (\<lambda>_. 0), next_of = (\<lambda>_. 0)\<rparr>,
     ready_processes = map (\<lambda>a. \<lparr>cl_head = a, cl_tail = a + 8\<rparr>) [0x10000, 0x10010, 0x10020, 0x10030, 0x10040],
     processes = replicate NR_PROC 0, max_rounds = replicate PRIORITY_KIND 0, max_priority = 0,
     cur_proc = 0, next_proc = 0, prev_proc = 0, cur_proc_idx = 0, tss_esp0 = 0, timer_ticks = 0,
     msgs = (\<lambda>_. zero_message)\<rparr>"

lemma preboot_zero: "preboot zero_kstate"
  by (simp add: preboot_def zero_kstate_def zero_pcb_def queue_objs_def pcb_addrs)

lemma booted_kinv:
  "\<exists>s. kinv s boot_queues \<and> cur_proc s = init_proc_addr \<and> ready_processes s = ready_processes zero_kstate"
  using boot_ok [OF preboot_zero, of 0 0] by (auto simp: started_def)

lemma boot_queues_4 [simp]: "boot_queues ! 4 = [init_proc_addr, IDLE_PCB]"
  by (simp add: boot_queues_def)

theorem schedule_picks_first_eligible_witness:
  "\<exists>s s'. kinv s boot_queues \<and> schedule s = Some s' \<and> kinv s' boot_queues \<and> prev_proc s' = init_proc_addr"
proof -
  obtain s where s: "kinv s boot_queues" "cur_proc s = init_proc_addr" using booted_kinv by blast
  from schedule_picks_first_eligible [OF s(1) _ refl] show ?thesis using s by auto
qed

theorem timer_handler_accounts_example:
  "\<exists>s s'. kinv s boot_queues \<and> timer_handler s = Some s' \<and> kinv s' boot_queues"
proof -
  obtain s where s: "kinv s boot_queues" "cur_proc s = init_proc_addr" using booted_kinv by blast
  from timer_handler_accounts [OF s(1)] show ?thesis using s by auto
qed

theorem boot_establishes_queues_witness:
  "\<exists>s'. boot zero_kstate 0x1000 0x2000 = Some s' \<and> cur_proc s' = init_proc_addr"
  using boot_establishes_queues [OF preboot_zero] by blast

lemma booted_prio:
  "kinv s boot_queues \<Longrightarrow> cur_proc s = init_proc_addr \<Longrightarrow> prio_of s init_proc_addr = 4"
  using queues_okD(5) [of s boot_queues 4 init_proc_addr] by (simp add: kinv_def)

theorem self_block_leaves_queue_witness:
  "\<exists>s s'. kinv s boot_queues \<and> self_block s BLOCKED = Some s' \<and> status (pcbs s' init_proc_addr) = BLOCKED"
proof -
  obtain s where s: "kinv s boot_queues" "cur_proc s = init_proc_addr" using booted_kinv by blast
  have "init_proc_addr \<noteq> IDLE_PCB" by (simp add: pcb_addrs)
  then show ?thesis
    using self_block_leaves_queue [OF s(1) _ refl _ refl, of BLOCKED] s booted_prio [OF s]
    by (auto simp: boot_queues_def)
qed

text \<open>The init process blocks after booting and is woken again.\<close>

theorem unblock_proc_appends_witness:
  "\<exists>s s'. kinv s (boot_queues[4 := [IDLE_PCB]]) \<and> unblock_proc s init_proc_addr = Some s'
    \<and> kinv s' (boot_queues[4 := [IDLE_PCB, init_proc_addr]])"
proof -
  obtain s where s: "kinv s boot_queues" "cur_proc s = init_proc_addr" "ready_processes s = ready_processes zero_kstate"
    using booted_kinv by blast
  let ?c = init_proc_addr and ?qs = "boot_queues[4 := [IDLE_PCB]]"
  have "?c \<noteq> IDLE_PCB" by (simp add: pcb_addrs)
  then have qs: "?qs = boot_queues[prio_of s (cur_proc s) := remove1 (cur_proc s) (boot_queues ! prio_of s (cur_proc s))]"
      "?qs ! 4 \<noteq> []" "BLOCKED \<notin> {RUNNING, READY, WAITING_MID}"
    using s(2) booted_prio [OF s(1,2)] by (auto simp: boot_queues_def)
  obtain p rs where b: "kinv (switched (blocked s BLOCKED) p rs) ?qs" "?c \<notin> queued ?qs"
    using self_block_ok [OF s(1) refl refl qs(3,1,2) refl refl] s(2) by metis
  let ?t = "switched (blocked s BLOCKED) p rs"
  have r: "ready_processes ?t = ready_processes zero_kstate" "prio_of ?t ?c = 4"
    using s booted_prio [OF s(1,2)] by (auto simp: blocked_def)
  have "?c \<notin> queue_nodes ?t ?qs"
    using b r(1) by (intro queue_nodes_starts) (simp_all add: zero_kstate_def queue_objs_def pcb_addrs)
  moreover have "?c \<noteq> 0" "prio_of ?t ?c < PRIORITY_KIND" using r(2) by (simp_all add: init_proc_addr_def)
  ultimately have "\<exists>s'. unblock_proc ?t ?c = Some s' \<and> kinv s' (?qs[prio_of ?t ?c := ?qs ! prio_of ?t ?c @ [?c]])"
    using unblock_proc_appends [OF b(1)] by blast
  then have "\<exists>s'. unblock_proc ?t ?c = Some s' \<and> kinv s' (?qs[4 := ?qs ! 4 @ [?c]])"
    unfolding r(2) .
  then show ?thesis using b(1) by (auto simp: boot_queues_def)
qed

end
