(* ===== verification/User_Mode.thy ===== *)
theory User_Mode
  imports Process
begin

text \<open>
  Model of how a process enters user mode (\<open>init_userprocess\<close> of \<open>kernel/process.cc\<close>): the frame that the
  return from an interrupt restores, and \<open>get_current_proc\<close>, which finds the control block from the
  stack pointer. The jump itself is assembly code. The loop of the idle process is here too.

  The theory shows that the control block of a process is found from every address of its page, and that
  the frame enters the function in user mode, with interrupts enabled, on the user stack of the process.
\<close>

abbreviation (input) SELECTOR_U_DATA :: u32 where "SELECTOR_U_DATA \<equiv> push_bit 3 5 + push_bit 2 0 + 3"
abbreviation (input) SELECTOR_U_CODE :: u32 where "SELECTOR_U_CODE \<equiv> push_bit 3 4 + push_bit 2 0 + 3"
abbreviation (input) SELECTOR_GS :: u32 where "SELECTOR_GS \<equiv> push_bit 3 6 + push_bit 2 0 + 3"
abbreviation (input) EF_MBS :: u32 where "EF_MBS \<equiv> push_bit 1 1"
abbreviation (input) EF_IF_ON :: u32 where "EF_IF_ON \<equiv> push_bit 9 1"
abbreviation (input) EF_IOPL_ON :: u32 where "EF_IOPL_ON \<equiv> push_bit 12 3"

record intr_stack =
  is_no :: u32
  is_edi :: u32
  is_esi :: u32
  is_ebp :: u32
  is_esp_ :: u32
  is_ebx :: u32
  is_edx :: u32
  is_ecx :: u32
  is_eax :: u32
  is_gs :: u32
  is_fs :: u32
  is_es :: u32
  is_ds :: u32
  is_err :: u32
  is_ip :: code_ptr
  is_cs :: u32
  is_eflags :: u32
  is_esp :: u32
  is_ss :: u32

definition get_current_proc :: "u32 \<Rightarrow> u32" where
  "get_current_proc sp = sp AND 0xfffff000"

text \<open>The kernel's state and the frame, which stands behind the control block at the address that becomes the
  saved stack pointer; \<open>garbage\<close> is what stood there.\<close>

definition init_userprocess :: "kstate \<Rightarrow> u32 \<Rightarrow> intr_stack \<Rightarrow> code_ptr \<Rightarrow> kstate \<times> intr_stack" where
  "init_userprocess s sp garbage fn =
     (let proc = get_current_proc sp;
          s1 = upd_pcb s proc (\<lambda>b. b\<lparr>esp := proc + sizeof_pcb\<rparr>)
      in (s1, garbage\<lparr>is_edi := 0, is_esi := 0, is_ebp := 0, is_esp_ := 0, is_ebx := 0, is_edx := 0, is_ecx := 0, is_eax := 0,
            is_gs := SELECTOR_GS, is_ds := SELECTOR_U_DATA, is_fs := SELECTOR_U_DATA, is_es := SELECTOR_U_DATA,
            is_ip := fn, is_cs := SELECTOR_U_CODE, is_eflags := EF_MBS OR EF_IOPL_ON OR EF_IF_ON,
            is_esp := userstack (pcbs s1 proc), is_ss := SELECTOR_U_DATA\<rparr>))"

text \<open>One round of the loop of \<open>idle_process\<close>, after the machine was woken by an interrupt.\<close>

definition idle_round :: "kstate \<Rightarrow> kstate option" where
  "idle_round s = self_block s BLOCKED"

section \<open>Properties\<close>

lemma current_proc_of_page:
  assumes "sp div 4096 = proc div 4096" and "proc mod 4096 = 0"
  shows "get_current_proc sp = proc"
proof -
  have "(0xfffff000 :: u32) = NOT (mask 12)" by (simp add: mask_eq_exp_minus_1)
  moreover have "w AND NOT (mask 12) = push_bit 12 (drop_bit 12 w)" for w :: u32
    by (rule bit_word_eqI) (auto simp: bit_simps)
  ultimately have *: "w AND 0xfffff000 = push_bit 12 (drop_bit 12 w)" for w :: u32 by metis
  have "drop_bit 12 w = w div 4096" "push_bit 12 w = w * 4096" for w :: u32 by (simp_all add: drop_bit_eq_div push_bit_eq_mult)
  then show ?thesis using * [of sp] assms by (metis add.right_neutral div_mult_mod_eq get_current_proc_def)
qed

lemma user_frame:
  assumes "init_userprocess s sp garbage fn = (s', fr)"
  shows "is_ip fr = fn" and "is_cs fr AND 3 = 3" and "is_ss fr AND 3 = 3" and "bit (is_eflags fr) 9"
    and "is_esp fr = userstack (pcbs s (get_current_proc sp))"
    and "esp (pcbs s' (get_current_proc sp)) = get_current_proc sp + sizeof_pcb"
    and "\<forall>p. p \<noteq> get_current_proc sp \<longrightarrow> pcbs s' p = pcbs s p"
  using assms by (auto simp: init_userprocess_def Let_def upd_pcb_def bit_or_iff bit_push_bit_iff)

end
