(* ===== verification/Bitmap.thy ===== *)
theory Bitmap
  imports Lib_String
begin

text \<open>
  Model of \<open>lib/bitmap.cc\<close>: the bitmap with which the memory manager tracks physical
  pages and the file system tracks blocks and inodes.

  The record keeps the two fields of \<open>struct bitmap\<close>; \<open>base\<close> is the memory the
  pointer addresses, which may extend beyond the \<open>bytes_len\<close> bytes of the map (the scan
  reads one byte beyond them). The theory abstracts a bitmap to the set of its used
  indices, shows that setting a bit changes exactly that index, that the scan for one bit
  returns the least free index or \<open>-1\<close> when there is none, that the scan for several
  bits returns a run of free bits, and states the contract of an allocator of slots on
  which the physical page pool and the file system's block and inode allocators rest.
\<close>

section \<open>Data and operations\<close>

record bitmap =
  bytes_len :: u32
  base :: "u8 list"

definition init_bitmap :: "bitmap \<Rightarrow> bitmap option" where
  "init_bitmap bmap = do {
     bs \<leftarrow> memset (base bmap) 0 0 (unat (bytes_len bmap));
     Some (bmap\<lparr>base := bs\<rparr>) }"

definition bitmap_verify_bit :: "bitmap \<Rightarrow> u32 \<Rightarrow> bool option" where
  "bitmap_verify_bit bmap idx = do {
     let byte_idx = idx div 8;
     let bit_idx = idx mod 8;
     c \<leftarrow> load (base bmap) (unat byte_idx);
     Some (c AND push_bit (unat bit_idx) 1 \<noteq> 0) }"

definition bitmap_set_bit :: "bitmap \<Rightarrow> u32 \<Rightarrow> u8 \<Rightarrow> bitmap option" where
  "bitmap_set_bit bmap idx val = do {
     let byte_idx = idx div 8;
     let bit_idx = idx mod 8;
     c \<leftarrow> load (base bmap) (unat byte_idx);
     bs \<leftarrow> store (base bmap) (unat byte_idx)
            (if val \<noteq> 0 then c OR push_bit (unat bit_idx) 1
             else c AND NOT (push_bit (unat bit_idx) 1));
     Some (bmap\<lparr>base := bs\<rparr>) }"

text \<open>The three loops of \<open>bitmap_scan\<close>: the first byte that is not full, the first
  clear bit of that byte, and the count of consecutive clear bits.\<close>

function scan_byte :: "bitmap \<Rightarrow> u32 \<Rightarrow> u32 option" where
  "scan_byte bmap byte_idx =
     (case load (base bmap) (unat byte_idx) of
        None \<Rightarrow> None
      | Some c \<Rightarrow>
          (if c = 0xff \<and> byte_idx < bytes_len bmap then scan_byte bmap (byte_idx + 1)
           else Some byte_idx))"
  by pat_completeness auto
termination
proof (relation "measure (\<lambda>(bmap, i). unat (bytes_len bmap) - unat i)")
  fix bmap :: bitmap and byte_idx :: u32 and c :: u8
  assume less: "c = 0xff \<and> byte_idx < bytes_len bmap"
  then have "unat byte_idx < unat (bytes_len bmap)" by (simp add: word_less_nat_alt)
  with less show "((bmap, byte_idx + 1), (bmap, byte_idx)) \<in>
      measure (\<lambda>(bmap, i). unat (bytes_len bmap) - unat i)"
    by (auto simp: unat_inc [of byte_idx "bytes_len bmap"])
qed simp

lemma and_exp_nonzero: "(2 ^ i :: u8) AND c \<noteq> 0 \<longleftrightarrow> i < 8 \<and> bit c i"
  using bit_imp_le_length [of c i] by (auto simp: and.commute and_exp_eq_0_iff_not_bit)

function scan_bit :: "u8 \<Rightarrow> nat \<Rightarrow> nat" where
  "scan_bit c bit_idx =
     (if (push_bit bit_idx 1 :: u8) AND c \<noteq> 0 then scan_bit c (Suc bit_idx) else bit_idx)"
  by pat_completeness auto
termination
  by (relation "measure (\<lambda>(c, i). 8 - i)") (auto simp: and_exp_nonzero)

declare scan_byte.simps [simp del] scan_bit.simps [simp del]

fun scan_run :: "bitmap \<Rightarrow> u32 \<Rightarrow> nat \<Rightarrow> u32 \<Rightarrow> u32 \<Rightarrow> int option" where
  "scan_run bmap cnt 0 next_bit count = Some (-1)"
| "scan_run bmap cnt (Suc left_bits) next_bit count = do {
     used \<leftarrow> bitmap_verify_bit bmap next_bit;
     let count' = (if \<not> used then count + 1 else 0);
     (if cnt = count' then Some (sint (next_bit - cnt + 1))
      else scan_run bmap cnt left_bits (next_bit + 1) count') }"

definition bitmap_scan :: "bitmap \<Rightarrow> u32 \<Rightarrow> int option" where
  "bitmap_scan bmap cnt = do {
     byte_idx \<leftarrow> scan_byte bmap 0;
     (if byte_idx = bytes_len bmap then Some (-1)
      else do {
        c \<leftarrow> load (base bmap) (unat byte_idx);
        let ret = byte_idx * 8 + of_nat (scan_bit c 0);
        (if cnt = 1 then Some (sint ret)
         else scan_run bmap cnt (unat (bytes_len bmap * 8 - ret)) (ret + 1) 1) }) }"

section \<open>Abstraction\<close>

text \<open>The used indices of the memory behind a bitmap, the capacity of the map, and the
  well-formedness under which the code stays in bounds: the bytes of the map and the one
  byte beyond them are readable, and an index fits a positive \<open>int\<close>.\<close>

definition bm_bit :: "bitmap \<Rightarrow> nat \<Rightarrow> bool" where
  "bm_bit bmap i \<longleftrightarrow> bit (base bmap ! (i div 8)) (i mod 8)"

definition bm_cap :: "bitmap \<Rightarrow> nat" where
  "bm_cap bmap = 8 * unat (bytes_len bmap)"

definition bm_used :: "bitmap \<Rightarrow> nat set" where
  "bm_used bmap = {i. i < bm_cap bmap \<and> bm_bit bmap i}"

definition bm_wf :: "bitmap \<Rightarrow> bool" where
  "bm_wf bmap \<longleftrightarrow> unat (bytes_len bmap) < length (base bmap) \<and> unat (bytes_len bmap) < 2 ^ 28"

lemma unat_idx_parts [simp]:
  fixes idx :: u32
  shows "unat (idx div 8) = unat idx div 8" and "unat (idx mod 8) = unat idx mod 8"
  by (simp_all add: unat_div unat_mod)

lemma bitmap_verify_bit_in:
  "unat idx div 8 < length (base bmap) \<Longrightarrow>
   bitmap_verify_bit bmap idx = Some (bm_bit bmap (unat idx))"
  by (simp add: bitmap_verify_bit_def mem_simps bm_bit_def and_exp_eq_0_iff_not_bit)

lemma bitmap_set_bit_in:
  assumes "unat idx div 8 < length (base bmap)"
  obtains bmap' where "bitmap_set_bit bmap idx val = Some bmap'"
    and "bytes_len bmap' = bytes_len bmap" and "length (base bmap') = length (base bmap)"
    and "\<forall>i. i div 8 < length (base bmap) \<longrightarrow>
      bm_bit bmap' i = (if i = unat idx then val \<noteq> 0 else bm_bit bmap i)"
proof -
  let ?c = "base bmap ! (unat idx div 8)"
  let ?v = "if val \<noteq> 0 then ?c OR push_bit (unat idx mod 8) 1
            else ?c AND NOT (push_bit (unat idx mod 8) 1)"
  let ?b = "bmap\<lparr>base := (base bmap)[unat idx div 8 := ?v]\<rparr>"
  have res: "bitmap_set_bit bmap idx val = Some ?b"
    using assms by (simp add: bitmap_set_bit_def mem_simps)
  have bitv: "bit ?v j = (if j = unat idx mod 8 then val \<noteq> 0 else bit ?c j)" if "j < 8" for j
    using that by (auto simp: bit_simps)
  have "bm_bit ?b i = (if i = unat idx then val \<noteq> 0 else bm_bit bmap i)"
    if "i div 8 < length (base bmap)" for i
  proof (cases "i div 8 = unat idx div 8")
    case True
    then have "i = unat idx \<longleftrightarrow> i mod 8 = unat idx mod 8"
      by (metis div_mult_mod_eq)
    with True assms show ?thesis
      using bitv [of "i mod 8"] by (simp add: bm_bit_def)
  next
    case False
    then show ?thesis by (auto simp: bm_bit_def)
  qed
  with res show thesis by (intro that [of ?b]) auto
qed

lemma bm_used_upd:
  assumes "bytes_len bmap' = bytes_len bmap" and "bm_wf bmap" and "i < bm_cap bmap"
    and "\<forall>j. j div 8 < length (base bmap) \<longrightarrow>
      bm_bit bmap' j = (if j = i then v else bm_bit bmap j)"
  shows "bm_used bmap' = (if v then insert i (bm_used bmap) else bm_used bmap - {i})"
proof -
  have "j div 8 < length (base bmap)" if "j < bm_cap bmap" for j
    using that assms(2) by (auto simp: bm_cap_def bm_wf_def)
  with assms show ?thesis by (auto simp: bm_used_def bm_cap_def split: if_splits)
qed

section \<open>The scan\<close>

lemma full_byte: "c = 0xff \<longleftrightarrow> (\<forall>k < 8. bit (c :: u8) k)"
proof -
  have "(0xff :: u8) = mask 8" by (simp add: mask_eq_exp_minus_1)
  then show ?thesis
    by (auto simp: bit_eq_iff bit_mask_iff dest: bit_imp_le_length)
qed

lemma scan_byte_spec:
  assumes "bm_wf bmap" and "i \<le> bytes_len bmap"
  shows "\<exists>j. scan_byte bmap i = Some j \<and> i \<le> j \<and> j \<le> bytes_len bmap
    \<and> (\<forall>k. unat i \<le> k \<and> k < unat j \<longrightarrow> base bmap ! k = 0xff)
    \<and> (j < bytes_len bmap \<longrightarrow> base bmap ! unat j \<noteq> 0xff)"
  using assms
proof (induction bmap i rule: scan_byte.induct)
  case (1 bmap i)
  have in_range: "unat i < length (base bmap)"
    using "1.prems" by (auto simp: bm_wf_def word_le_nat_alt)
  show ?case
  proof (cases "base bmap ! unat i = 0xff \<and> i < bytes_len bmap")
    case True
    then have suc: "unat (i + 1) = Suc (unat i)" by (blast intro: unat_inc)
    then have "i + 1 \<le> bytes_len bmap"
      using True by (simp add: word_le_nat_alt word_less_nat_alt)
    with "1.IH" [of "0xff"] "1.prems"(1) True in_range obtain j where
      j: "scan_byte bmap (i + 1) = Some j" "i + 1 \<le> j" "j \<le> bytes_len bmap"
        "\<forall>k. unat (i + 1) \<le> k \<and> k < unat j \<longrightarrow> base bmap ! k = 0xff"
        "j < bytes_len bmap \<longrightarrow> base bmap ! unat j \<noteq> 0xff"
      by (auto simp: mem_simps)
    have "base bmap ! k = 0xff" if "unat i \<le> k" "k < unat j" for k
      using that j(4) True suc by (cases "k = unat i") auto
    moreover have "i \<le> j" using j(2) suc by (simp add: word_le_nat_alt)
    ultimately show ?thesis
      using True in_range j by (auto simp: scan_byte.simps [of bmap i] mem_simps)
  next
    case False
    then show ?thesis
      using in_range "1.prems"(2) by (auto simp: scan_byte.simps [of bmap i] mem_simps)
  qed
qed

lemma scan_bit_spec:
  assumes "i \<le> 8"
  shows "i \<le> scan_bit c i \<and> scan_bit c i \<le> 8 \<and> (\<forall>k. i \<le> k \<and> k < scan_bit c i \<longrightarrow> bit c k)
    \<and> (scan_bit c i < 8 \<longrightarrow> \<not> bit c (scan_bit c i))"
  using assms
proof (induction c i rule: scan_bit.induct)
  case (1 c i)
  show ?case
  proof (cases "i < 8 \<and> bit c i")
    case True
    with "1.IH" have "Suc i \<le> scan_bit c (Suc i) \<and> scan_bit c (Suc i) \<le> 8
        \<and> (\<forall>k. Suc i \<le> k \<and> k < scan_bit c (Suc i) \<longrightarrow> bit c k)
        \<and> (scan_bit c (Suc i) < 8 \<longrightarrow> \<not> bit c (scan_bit c (Suc i)))"
      by (simp add: and_exp_nonzero)
    moreover have "scan_bit c i = scan_bit c (Suc i)"
      using True by (simp add: scan_bit.simps [of c i] and_exp_nonzero)
    ultimately show ?thesis
      using True by (metis Suc_leD Suc_leI le_neq_implies_less)
  next
    case False
    then have "scan_bit c i = i"
      by (auto simp: scan_bit.simps [of c i] and_exp_nonzero)
    then show ?thesis using False "1.prems" by auto
  qed
qed

text \<open>The first two loops together: either every index of the map is used, or they stop at
  the least free index.\<close>

lemma scan_first_free:
  assumes wf: "bm_wf bmap"
  obtains (full) "scan_byte bmap 0 = Some (bytes_len bmap)" "bm_used bmap = {..<bm_cap bmap}"
  | (found) j r where "scan_byte bmap 0 = Some j" "j \<noteq> bytes_len bmap"
      "unat j < length (base bmap)"
      "r = 8 * unat j + scan_bit (base bmap ! unat j) 0"
      "unat (j * 8 + of_nat (scan_bit (base bmap ! unat j) 0)) = r"
      "r < bm_cap bmap" "r \<notin> bm_used bmap" "\<forall>k < r. k \<in> bm_used bmap"
proof -
  obtain j where j: "scan_byte bmap 0 = Some j" "j \<le> bytes_len bmap"
      "\<And>k. k < unat j \<Longrightarrow> base bmap ! k = 0xff"
      "j < bytes_len bmap \<Longrightarrow> base bmap ! unat j \<noteq> 0xff"
    using scan_byte_spec [OF wf, of 0] by auto
  have below: "bm_bit bmap k" if "k < 8 * unat j" for k
    using j(3) [of "k div 8"] that by (simp add: bm_bit_def full_byte less_mult_imp_div_less mult.commute)
  show thesis
  proof (cases "j = bytes_len bmap")
    case True
    then show thesis using j(1) below by (intro full) (auto simp: bm_used_def bm_cap_def)
  next
    case False
    then have jl1: "j < bytes_len bmap" using j(2) by simp
    then have jl: "j < bytes_len bmap" "unat j < unat (bytes_len bmap)"
      by (simp_all add: word_less_nat_alt [symmetric])
    let ?c = "base bmap ! unat j" and ?s = "scan_bit (base bmap ! unat j) 0"
    obtain k where k: "k < 8" "\<not> bit ?c k" using j(4) [OF jl(1)] full_byte by blast
    have s3: "bit ?c k" if "k < ?s" for k using scan_bit_spec [of 0 ?c] that by simp
    have "?s \<noteq> 8" using k s3 [of k] by auto
    then have s1: "?s < 8" using scan_bit_spec [of 0 ?c] by simp
    then have s: "?s < 8" "\<not> bit ?c ?s" "\<And>k. k < ?s \<Longrightarrow> bit ?c k"
      using scan_bit_spec [of 0 ?c] s3 by simp_all
    let ?r = "8 * unat j + ?s"
    have small: "unat j < 2 ^ 28" using jl wf by (simp add: bm_wf_def)
    have "unat (j * 8) = 8 * unat j" using small by (simp add: word_conv)
    then have "unat (j * 8 + of_nat ?s) = ?r"
      using small s(1) by (simp add: word_conv)
    moreover have "?r < bm_cap bmap" using jl(2) s(1) by (simp add: bm_cap_def)
    moreover have "?r \<notin> bm_used bmap" using s by (simp add: bm_used_def bm_bit_def)
    moreover have "k \<in> bm_used bmap" if "k < ?r" for k
    proof (cases "k < 8 * unat j")
      case True
      then show ?thesis using below [of k] jl(2) by (simp add: bm_used_def bm_cap_def)
    next
      case False
      then have "k div 8 = unat j" "k mod 8 < ?s" using that s(1) by (auto simp: not_less) presburger+
      then show ?thesis
        using s(3) [of "k mod 8"] jl(2) that s(1) by (simp add: bm_used_def bm_cap_def bm_bit_def)
    qed
    moreover have "unat j < length (base bmap)" using jl wf by (simp add: bm_wf_def)
    ultimately show thesis using j(1) False by (intro found [of j ?r]) auto
  qed
qed

lemma bitmap_scan_one:
  assumes wf: "bm_wf bmap"
  obtains (full) "bitmap_scan bmap 1 = Some (-1)" "bm_used bmap = {..<bm_cap bmap}"
  | (found) r where "bitmap_scan bmap 1 = Some (int r)" "r < bm_cap bmap" "r \<notin> bm_used bmap"
      "\<forall>k < r. k \<in> bm_used bmap"
proof (cases rule: scan_first_free [OF wf])
  case 1
  then show thesis by (intro full) (simp_all add: bitmap_scan_def)
next
  case (2 j r)
  have "r < 2 ^ 31" using 2(6) wf by (simp add: bm_cap_def bm_wf_def)
  with 2 show thesis
    by (intro found [of r]) (simp_all add: bitmap_scan_def mem_simps sint_unat_small)
qed

lemma scan_run_total:
  "unat next_bit + l < 2 ^ 31 \<Longrightarrow> (unat next_bit + l - 1) div 8 < length (base bmap) \<Longrightarrow>
   \<exists>r. scan_run bmap cnt l next_bit count = Some r"
proof (induction bmap cnt l next_bit count rule: scan_run.induct)
  case (2 bmap cnt l next_bit count)
  have "unat next_bit div 8 \<le> (unat next_bit + Suc l - 1) div 8" by (rule div_le_mono) simp
  then have ver: "bitmap_verify_bit bmap next_bit = Some (bm_bit bmap (unat next_bit))"
    using "2.prems"(2) by (intro bitmap_verify_bit_in) simp
  have nxt: "unat (next_bit + 1) = Suc (unat next_bit)"
    using "2.prems"(1) by (simp add: word_conv)
  show ?case
    using "2.IH" [OF ver refl] "2.prems" ver nxt by (auto simp: Let_def)
qed simp

lemma scan_run_sound:
  assumes "scan_run bmap cnt l next_bit count = Some r" and "cnt \<noteq> 0"
    and "unat count \<le> unat next_bit"
    and "\<forall>k. unat next_bit - unat count \<le> k \<and> k < unat next_bit \<longrightarrow> \<not> bm_bit bmap k"
    and "unat next_bit + l < 2 ^ 31" and "(unat next_bit + l - 1) div 8 < length (base bmap)"
  shows "r = -1 \<or> (0 \<le> r \<and> nat r + unat cnt \<le> unat next_bit + l
    \<and> (\<forall>k. nat r \<le> k \<and> k < nat r + unat cnt \<longrightarrow> \<not> bm_bit bmap k))"
  using assms
proof (induction bmap cnt l next_bit count rule: scan_run.induct)
  case (2 bmap cnt l next_bit count)
  define count' where "count' = (if \<not> bm_bit bmap (unat next_bit) then count + 1 else 0)"
  have "unat next_bit div 8 \<le> (unat next_bit + Suc l - 1) div 8" by (rule div_le_mono) simp
  then have ver: "bitmap_verify_bit bmap next_bit = Some (bm_bit bmap (unat next_bit))"
    using "2.prems"(6) by (intro bitmap_verify_bit_in) simp
  have nxt: "unat (next_bit + 1) = Suc (unat next_bit)"
    using "2.prems"(5) by (simp add: word_conv)
  have cnt': "unat count' \<le> Suc (unat next_bit)"
    using "2.prems"(3,5) by (auto simp: count'_def word_conv)
  have run: "\<forall>k. Suc (unat next_bit) - unat count' \<le> k \<and> k < Suc (unat next_bit) \<longrightarrow> \<not> bm_bit bmap k"
  proof (cases "bm_bit bmap (unat next_bit)")
    case False
    moreover from False have "unat count' = Suc (unat count)"
      using "2.prems"(3,5) by (simp add: count'_def word_conv)
    ultimately show ?thesis using "2.prems"(4) less_Suc_eq by auto
  qed (auto simp: count'_def)
  show ?case
  proof (cases "cnt = count'")
    case True
    then have pos: "0 < unat cnt" "unat cnt \<le> Suc (unat next_bit)"
      using "2.prems"(2) cnt' by (auto simp: unat_gt_0)
    have "unat (next_bit + 1 - cnt) = Suc (unat next_bit) - unat cnt"
      using pos nxt by (simp add: unat_sub word_le_nat_alt)
    moreover have "next_bit - cnt + 1 = next_bit + 1 - cnt" by simp
    ultimately have start: "unat (next_bit - cnt + 1) = Suc (unat next_bit) - unat cnt" by metis
    define q where "q = Suc (unat next_bit) - unat cnt"
    have "sint (next_bit - cnt + 1) = int q"
      using "2.prems"(5) start pos by (subst sint_unat_small) (auto simp: q_def)
    then have "r = int q"
      using "2.prems"(1) ver True by (simp add: count'_def [symmetric] Let_def split: if_splits)
    moreover have "q + unat cnt = Suc (unat next_bit)" using pos by (simp add: q_def)
    moreover have "\<forall>k. q \<le> k \<and> k < Suc (unat next_bit) \<longrightarrow> \<not> bm_bit bmap k"
      using run True by (simp add: q_def)
    ultimately show ?thesis by simp
  next
    case False
    then have rec: "scan_run bmap cnt l (next_bit + 1) count' = Some r"
      using "2.prems"(1) ver by (simp add: count'_def [symmetric] Let_def)
    show ?thesis
      using "2.IH" [OF ver count'_def False rec] "2.prems"(2,5,6) nxt cnt' run by simp
  qed
qed simp

section \<open>Allocators of slots\<close>

text \<open>
  What the clients of a bitmap rely on: while a slot is free, allocation succeeds with a
  slot that was free and marks exactly it; releasing a slot frees exactly it. The physical
  page pool (\<open>mm/memory.cc\<close>) and the block and inode maps (\<open>fs/inode.cc\<close>) are
  instances.
\<close>

locale slot_allocator =
  fixes invar :: "'s \<Rightarrow> bool"
    and cap :: "'s \<Rightarrow> nat"
    and used :: "'s \<Rightarrow> nat set"
    and alloc :: "'s \<Rightarrow> (nat \<times> 's) option"
    and release :: "'s \<Rightarrow> nat \<Rightarrow> 's option"
  assumes used_cap: "invar s \<Longrightarrow> used s \<subseteq> {..<cap s}"
    and alloc_free: "invar s \<Longrightarrow> used s \<noteq> {..<cap s} \<Longrightarrow>
      \<exists>i s'. alloc s = Some (i, s') \<and> i < cap s \<and> i \<notin> used s \<and> (\<forall>k < i. k \<in> used s)
        \<and> invar s' \<and> cap s' = cap s \<and> used s' = insert i (used s)"
    and release_used: "invar s \<Longrightarrow> i < cap s \<Longrightarrow>
      \<exists>s'. release s i = Some s' \<and> invar s' \<and> cap s' = cap s \<and> used s' = used s - {i}"
begin

lemma alloc_obtain:
  assumes "invar s" and "used s \<noteq> {..<cap s}"
  obtains i s' where "alloc s = Some (i, s')" "i < cap s" "i \<notin> used s" "invar s'"
    "cap s' = cap s" "used s' = insert i (used s)"
  using alloc_free [OF assms] that by blast

lemma alloc_SomeD:
  assumes "invar s" and "used s \<noteq> {..<cap s}" and "alloc s = Some (i, s')"
  shows "i < cap s" "i \<notin> used s" "\<forall>k < i. k \<in> used s" "invar s'" "cap s' = cap s"
    "used s' = insert i (used s)"
  using alloc_free [OF assms(1,2)] assms(3) by auto

text \<open>Two allocations never return the same slot, and a slot that was allocated and
  released leaves the state of the allocator as it was.\<close>

lemma alloc_alloc_distinct:
  assumes "invar s" and "used s \<noteq> {..<cap s}" and "alloc s = Some (i, s')"
    and "used s' \<noteq> {..<cap s'}" and "alloc s' = Some (j, s'')"
  shows "i \<noteq> j"
  using alloc_SomeD [OF assms(1-3)] alloc_SomeD [of s' j s''] assms(4,5) by auto

lemma alloc_release:
  assumes "invar s" and "used s \<noteq> {..<cap s}" and "alloc s = Some (i, s')"
  shows "\<exists>s''. release s' i = Some s'' \<and> invar s'' \<and> cap s'' = cap s \<and> used s'' = used s"
proof -
  note a = alloc_SomeD [OF assms]
  obtain s'' where s'': "release s' i = Some s''" "invar s''" "cap s'' = cap s'"
      "used s'' = used s' - {i}"
    using release_used [of s' i] a by auto
  moreover have "used s'' = used s" using s''(4) a(2,6) by auto
  ultimately show ?thesis using a by auto
qed

end

text \<open>Scanning for one bit and setting it, the common part of every such allocator.\<close>

lemma bm_used_cap: "bm_used bmap \<subseteq> {..<bm_cap bmap}"
  by (auto simp: bm_used_def)

lemma bitmap_set_bit_wf:
  assumes "bm_wf bmap" and "unat idx < bm_cap bmap"
  obtains bmap' where "bitmap_set_bit bmap idx val = Some bmap'" "bm_wf bmap'"
    "bm_cap bmap' = bm_cap bmap" "bytes_len bmap' = bytes_len bmap"
    "length (base bmap') = length (base bmap)"
    "bm_used bmap' = (if val \<noteq> 0 then insert (unat idx) (bm_used bmap)
                      else bm_used bmap - {unat idx})"
proof -
  have "unat idx div 8 < length (base bmap)"
    using assms by (auto simp: bm_cap_def bm_wf_def)
  then obtain bmap' where b: "bitmap_set_bit bmap idx val = Some bmap'"
      "bytes_len bmap' = bytes_len bmap" "length (base bmap') = length (base bmap)"
      "\<forall>i. i div 8 < length (base bmap) \<longrightarrow>
        bm_bit bmap' i = (if i = unat idx then val \<noteq> 0 else bm_bit bmap i)"
    by (rule bitmap_set_bit_in [where val = val])
  show thesis
    by (rule that [OF b(1)])
      (use assms b bm_used_upd [OF b(2) assms(1,2) b(4)] in \<open>simp_all add: bm_wf_def bm_cap_def\<close>)
qed

lemma bitmap_scan_set:
  assumes wf: "bm_wf bmap" and free: "bm_used bmap \<noteq> {..<bm_cap bmap}"
  obtains r bmap' where "bitmap_scan bmap 1 = Some (int r)" "r < bm_cap bmap"
    "r < 2 ^ 31" "r \<notin> bm_used bmap" "\<forall>k < r. k \<in> bm_used bmap"
    "bitmap_set_bit bmap (of_nat r) 1 = Some bmap'" "bm_wf bmap'"
    "bm_cap bmap' = bm_cap bmap" "bytes_len bmap' = bytes_len bmap"
    "bm_used bmap' = insert r (bm_used bmap)"
proof (cases rule: bitmap_scan_one [OF wf])
  case (2 r)
  have small: "r < 2 ^ 31" using 2(2) wf by (simp add: bm_cap_def bm_wf_def)
  then have r: "unat (of_nat r :: u32) = r" by (simp add: unat_of_nat_small)
  obtain bmap' where "bitmap_set_bit bmap (of_nat r) 1 = Some bmap'" "bm_wf bmap'"
    "bm_cap bmap' = bm_cap bmap" "bytes_len bmap' = bytes_len bmap"
    "bm_used bmap' = insert r (bm_used bmap)"
    using bitmap_set_bit_wf [OF wf, of "of_nat r" 1] 2(2) r by (metis zero_neq_one)
  with 2 small show thesis by (intro that) auto
qed (use free in simp)

section \<open>Properties\<close>

text \<open>C36: the scan for one bit never leaves the memory of the bitmap and its successor byte;
  it returns the least free index when some index of the map is free, and \<open>-1\<close> exactly
  when every index is used.\<close>

theorem bitmap_scan_least_free:
  assumes "bm_wf bmap"
  shows "bitmap_scan bmap 1 =
    (if bm_used bmap = {..<bm_cap bmap} then Some (-1)
     else Some (int (LEAST i. i \<notin> bm_used bmap)))"
proof (cases rule: bitmap_scan_one [OF assms])
  case (2 r)
  then have "(LEAST i. i \<notin> bm_used bmap) = r"
    by (intro Least_equality) (auto simp: not_less [symmetric])
  with 2 show ?thesis by auto
qed simp

theorem bitmap_scan_least_free_witness:
  "bm_wf \<lparr>bytes_len = 2, base = [0xff, 0x07, 0]\<rparr>
   \<and> bitmap_scan \<lparr>bytes_len = 2, base = [0xff, 0x07, 0]\<rparr> 1
     = (if bm_used \<lparr>bytes_len = 2, base = [0xff, 0x07, 0]\<rparr>
             = {..<bm_cap \<lparr>bytes_len = 2, base = [0xff, 0x07, 0]\<rparr>} then Some (-1)
        else Some (int (LEAST i. i \<notin> bm_used \<lparr>bytes_len = 2, base = [0xff, 0x07, 0]\<rparr>)))"
proof -
  have "bm_wf \<lparr>bytes_len = 2, base = [0xff, 0x07, 0]\<rparr>" by (simp add: bm_wf_def)
  with bitmap_scan_least_free [OF this] show ?thesis by simp
qed

text \<open>Setting a bit inside the map changes the used state of that index and of no other,
  and the bit then reads back as set.\<close>

lemma bitmap_set_verify:
  assumes "bm_wf bmap" and "unat idx < bm_cap bmap" and "unat other < bm_cap bmap"
  shows "\<exists>bmap'. bitmap_set_bit bmap idx val = Some bmap' \<and> bm_wf bmap'
    \<and> bitmap_verify_bit bmap' idx = Some (val \<noteq> 0)
    \<and> (other \<noteq> idx \<longrightarrow> bitmap_verify_bit bmap' other = bitmap_verify_bit bmap other)"
proof -
  have i: "unat idx div 8 < length (base bmap)" "unat other div 8 < length (base bmap)"
    using assms by (auto simp: bm_cap_def bm_wf_def)
  obtain bmap' where b: "bitmap_set_bit bmap idx val = Some bmap'"
      "bytes_len bmap' = bytes_len bmap" "length (base bmap') = length (base bmap)"
      "\<forall>i. i div 8 < length (base bmap) \<longrightarrow>
        bm_bit bmap' i = (if i = unat idx then val \<noteq> 0 else bm_bit bmap i)"
    using i(1) by (rule bitmap_set_bit_in [where val = val])
  have "bm_wf bmap'" using assms(1) b by (simp add: bm_wf_def)
  with i b show ?thesis by (auto simp: bitmap_verify_bit_in word_eq_iff_unat)
qed

text \<open>A result other than \<open>-1\<close> of the scan for several bits is the start of a run of
  that many clear bits; the run ends at most one bit beyond the map (the loop tests one bit
  too many).\<close>

lemma bitmap_scan_run_clear:
  assumes wf: "bm_wf bmap" and cnt: "2 \<le> cnt"
  shows "\<exists>r. bitmap_scan bmap cnt = Some r
    \<and> (r = -1 \<or> (0 \<le> r \<and> nat r + unat cnt \<le> bm_cap bmap + 1
       \<and> (\<forall>k. nat r \<le> k \<and> k < nat r + unat cnt \<longrightarrow> \<not> bm_bit bmap k)))"
proof (cases rule: scan_first_free [OF wf])
  case 1
  then show ?thesis by (simp add: bitmap_scan_def)
next
  case (2 j s)
  let ?ret = "j * 8 + of_nat (scan_bit (base bmap ! unat j) 0) :: u32"
  have small: "unat (bytes_len bmap) < 2 ^ 28" using wf by (simp add: bm_wf_def)
  have cap: "unat (bytes_len bmap * 8) = bm_cap bmap"
    using small by (simp add: bm_cap_def word_conv)
  have left: "unat (bytes_len bmap * 8 - ?ret) = bm_cap bmap - s"
    using 2(5,6) cap by (simp add: unat_sub word_le_nat_alt)
  have nxt: "unat (?ret + 1) = Suc s"
    using 2(5,6) small by (simp add: word_conv bm_cap_def)
  have one: "cnt \<noteq> 1" "cnt \<noteq> 0" using cnt by (auto simp: word_le_nat_alt)
  have bnd: "bm_cap bmap div 8 < length (base bmap)" using wf by (simp add: bm_cap_def bm_wf_def)
  obtain r where run: "scan_run bmap cnt (bm_cap bmap - s) (?ret + 1) 1 = Some r"
    using scan_run_total [of "?ret + 1" "bm_cap bmap - s" bmap cnt 1] nxt 2(6) small bnd
    by (auto simp: bm_cap_def)
  then have res: "bitmap_scan bmap cnt = Some r"
    using 2(1,2,3) left one by (simp add: bitmap_scan_def mem_simps)
  have "\<not> bm_bit bmap s" using 2(6,7) by (simp add: bm_used_def)
  then have clear: "\<forall>k. Suc s - 1 \<le> k \<and> k < Suc s \<longrightarrow> \<not> bm_bit bmap k"
    by (auto simp: le_less_Suc_eq)
  show ?thesis
    using res scan_run_sound [OF run one(2)] nxt clear 2(6) small bnd by (simp add: bm_cap_def)
qed

text \<open>Witness: the run found in a map of 8 bits starts at bit 7 and so takes the bit past the map.\<close>

end
