(* ===== verification/Ring_Buffer.thy ===== *)
theory Ring_Buffer
  imports Lib_String
begin

text \<open>
  Model of \<open>lib/ring_buffer.cc\<close> (the keyboard buffer, a ring of 64 bytes) and of
  \<open>lib/indirect_ring_buffer.cc\<close> (the packet buffers, a ring of 10 buffer pointers).

  Both refine a bounded FIFO queue. The contract is the locale \<open>bounded_queue\<close>: a queue
  abstracts to the list of its elements, an insertion appends unless the queue is full, and
  a removal takes the first element. It is interpreted for \<open>ringbuffer_put\<close> and
  \<open>ringbuffer_get\<close>; the pointer ring, whose two operations hand out slots instead of
  moving data, is interpreted for the contract \<open>slot_ring\<close>.
\<close>

section \<open>The keyboard ring\<close>

record ring_buffer =
  buffer :: "u8 list"
  rb_head :: u8
  rb_tail :: u8

definition init_ringbuffer :: "ring_buffer \<Rightarrow> ring_buffer option" where
  "init_ringbuffer rb = do {
     bs \<leftarrow> memset (buffer rb) 0 0 64;
     Some (rb\<lparr>buffer := bs, rb_head := 0, rb_tail := 0\<rparr>) }"

text \<open>The index arithmetic is done at \<open>int\<close> width before it is stored in a byte.\<close>

definition ringbuffer_is_full :: "ring_buffer \<Rightarrow> bool" where
  "ringbuffer_is_full rb \<longleftrightarrow> unat (rb_tail rb) = (unat (rb_head rb) + 1) mod 64"

definition ringbuffer_is_empty :: "ring_buffer \<Rightarrow> bool" where
  "ringbuffer_is_empty rb \<longleftrightarrow> rb_tail rb = rb_head rb"

definition ringbuffer_put :: "ring_buffer \<Rightarrow> u8 \<Rightarrow> ring_buffer option" where
  "ringbuffer_put rb ch =
     (if ringbuffer_is_full rb then Some rb
      else do {
        bs \<leftarrow> store (buffer rb) (unat (rb_head rb)) ch;
        Some (rb\<lparr>buffer := bs, rb_head := of_nat ((unat (rb_head rb) + 1) mod 64)\<rparr>) })"

definition ringbuffer_get :: "ring_buffer \<Rightarrow> (u8 \<times> ring_buffer) option" where
  "ringbuffer_get rb =
     (if ringbuffer_is_empty rb then Some (0, rb)
      else do {
        ret \<leftarrow> load (buffer rb) (unat (rb_tail rb));
        Some (ret, rb\<lparr>rb_tail := of_nat ((unat (rb_tail rb) + 1) mod 64)\<rparr>) })"

section \<open>The packet ring\<close>

text \<open>A buffer is named by its address; \<open>0\<close> is \<open>NULL\<close>.\<close>

record indirect_ring_buffer =
  buf :: "u32 list"
  irb_head :: u8
  irb_tail :: u8

definition irb_LEN :: nat where
  "irb_LEN = 10"

definition irb_new :: indirect_ring_buffer where
  "irb_new = \<lparr>buf = replicate irb_LEN 0, irb_head = 0, irb_tail = 0\<rparr>"

fun irb_copy :: "u32 list \<Rightarrow> nat \<Rightarrow> nat \<Rightarrow> u32 list \<Rightarrow> u32 list option" where
  "irb_copy bs i 0 bufs = Some bs"
| "irb_copy bs i (Suc n) bufs = do {
     p \<leftarrow> load bufs i;
     bs' \<leftarrow> store bs i p;
     irb_copy bs' (Suc i) n bufs }"

definition irb_initialize :: "indirect_ring_buffer \<Rightarrow> u32 list \<Rightarrow> indirect_ring_buffer option" where
  "irb_initialize rb bufs = do {
     bs \<leftarrow> irb_copy (buf rb) 0 irb_LEN bufs;
     Some (rb\<lparr>irb_head := 0, irb_tail := 0, buf := bs\<rparr>) }"

definition irb_is_full :: "indirect_ring_buffer \<Rightarrow> bool" where
  "irb_is_full rb \<longleftrightarrow> unat (irb_tail rb) = (unat (irb_head rb) + 1) mod irb_LEN"

definition irb_is_empty :: "indirect_ring_buffer \<Rightarrow> bool" where
  "irb_is_empty rb \<longleftrightarrow> irb_tail rb = irb_head rb"

definition get_first_free_buffer :: "indirect_ring_buffer \<Rightarrow> (u32 \<times> indirect_ring_buffer) option" where
  "get_first_free_buffer rb =
     (if irb_is_full rb then Some (0, rb)
      else do {
        ret \<leftarrow> load (buf rb) (unat (irb_head rb));
        Some (ret, rb\<lparr>irb_head := of_nat ((unat (irb_head rb) + 1) mod irb_LEN)\<rparr>) })"

definition get_first_used_buffer :: "indirect_ring_buffer \<Rightarrow> (u32 \<times> indirect_ring_buffer) option" where
  "get_first_used_buffer rb =
     (if irb_is_empty rb then Some (0, rb)
      else do {
        ret \<leftarrow> load (buf rb) (unat (irb_tail rb));
        Some (ret, rb\<lparr>irb_tail := of_nat ((unat (irb_tail rb) + 1) mod irb_LEN)\<rparr>) })"

section \<open>Index arithmetic of a ring\<close>

text \<open>The number of occupied slots of a ring of \<open>n\<close> slots, and their contents in order.\<close>

definition ring_count :: "nat \<Rightarrow> nat \<Rightarrow> nat \<Rightarrow> nat" where
  "ring_count n h t = (h + n - t) mod n"

definition ring_list :: "nat \<Rightarrow> 'a list \<Rightarrow> nat \<Rightarrow> nat \<Rightarrow> 'a list" where
  "ring_list n xs h t = map (\<lambda>i. xs ! ((t + i) mod n)) [0..<ring_count n h t]"

lemma ring_count_less: "0 < n \<Longrightarrow> ring_count n h t < n"
  by (simp add: ring_count_def)

lemma ring_count_cases:
  "h < n \<Longrightarrow> t < n \<Longrightarrow> ring_count n h t = (if t \<le> h then h - t else h + n - t)"
  by (auto simp: ring_count_def mod_if)

lemma ring_empty_iff: "h < n \<Longrightarrow> t < n \<Longrightarrow> ring_list n xs h t = [] \<longleftrightarrow> t = h"
  by (auto simp: ring_list_def ring_count_cases)

lemma length_ring_list [simp]: "length (ring_list n xs h t) = ring_count n h t"
  by (simp add: ring_list_def)

lemma ring_full_iff:
  "h < n \<Longrightarrow> t < n \<Longrightarrow> t = (h + 1) mod n \<longleftrightarrow> ring_count n h t = n - 1"
  by (cases "h + 1 = n") (auto simp: ring_count_cases split: if_splits)

lemma ring_count_put:
  assumes "h < n" "t < n" "t \<noteq> (h + 1) mod n"
  shows "ring_count n ((h + 1) mod n) t = Suc (ring_count n h t)"
  using assms by (cases "h + 1 = n") (auto simp: ring_count_cases)

lemma ring_count_get:
  assumes "h < n" "t < n" "t \<noteq> h"
  shows "Suc (ring_count n h ((t + 1) mod n)) = ring_count n h t"
  using assms by (cases "t + 1 = n") (auto simp: ring_count_cases)

lemma ring_last_slot:
  assumes "h < n" "t < n"
  shows "(t + ring_count n h t) mod n = h"
  using assms by (auto simp: ring_count_cases)

lemma mod_once: "a < 2 * n \<Longrightarrow> a mod n = (if a < n then a else a - (n::nat))"
  by (simp add: le_mod_geq)

lemma ring_slot_neq_head:
  assumes "h < n" "t < n" "i < ring_count n h t"
  shows "(t + i) mod n \<noteq> h"
proof -
  have "t + i < 2 * n" using assms by (simp add: ring_count_cases split: if_splits)
  then show ?thesis
    using assms by (auto simp: ring_count_cases mod_once split: if_splits)
qed

lemma ring_list_put:
  assumes "h < n" "t < n" "t \<noteq> (h + 1) mod n" "length xs = n"
  shows "ring_list n (xs[h := x]) ((h + 1) mod n) t = ring_list n xs h t @ [x]"
proof -
  have "map (\<lambda>i. xs[h := x] ! ((t + i) mod n)) [0..<ring_count n h t] = ring_list n xs h t"
    unfolding ring_list_def using ring_slot_neq_head [OF assms(1,2)]
    by (intro map_cong refl nth_list_update_neq) (metis atLeastLessThan_iff set_upt)
  then show ?thesis
    using assms ring_last_slot [OF assms(1,2)]
    by (simp add: ring_list_def [of n "xs[h := x]" "(h + 1) mod n"] ring_count_put del: One_nat_def add_Suc_right)
qed

lemma ring_list_advance:
  assumes "h < n" "t < n" "t \<noteq> (h + 1) mod n" "length xs = n"
  shows "ring_list n xs ((h + 1) mod n) t = ring_list n xs h t @ [xs ! h]"
  using ring_list_put [OF assms, of "xs ! h"] by simp

lemma ring_list_get:
  assumes "h < n" "t < n" "t \<noteq> h"
  shows "ring_list n xs h t = xs ! t # ring_list n xs h ((t + 1) mod n)"
proof -
  have "ring_list n xs h t = map (\<lambda>i. xs ! ((t + i) mod n)) [0..<Suc (ring_count n h ((t + 1) mod n))]"
    using ring_count_get [OF assms] by (simp add: ring_list_def)
  also have "\<dots> = xs ! t # map (\<lambda>i. xs ! ((t + Suc i) mod n)) [0..<ring_count n h ((t + 1) mod n)]"
    using assms by (simp add: upt_conv_Cons map_Suc_upt [symmetric] del: upt_Suc map_Suc_upt)
  also have "\<dots> = xs ! t # ring_list n xs h ((t + 1) mod n)"
    by (simp add: ring_list_def mod_add_left_eq)
  finally show ?thesis .
qed

section \<open>The FIFO contract\<close>

locale bounded_queue =
  fixes invar :: "'q \<Rightarrow> bool"
    and elems :: "'q \<Rightarrow> 'a list"
    and size_max :: nat
    and is_full :: "'q \<Rightarrow> bool"
    and is_empty :: "'q \<Rightarrow> bool"
    and insert_last :: "'q \<Rightarrow> 'a \<Rightarrow> 'q option"
    and remove_first :: "'q \<Rightarrow> ('a \<times> 'q) option"
  assumes size_le: "invar q \<Longrightarrow> length (elems q) \<le> size_max"
    and full_iff: "invar q \<Longrightarrow> is_full q \<longleftrightarrow> length (elems q) = size_max"
    and empty_iff: "invar q \<Longrightarrow> is_empty q \<longleftrightarrow> elems q = []"
    and insert_room: "invar q \<Longrightarrow> \<not> is_full q \<Longrightarrow>
      \<exists>q'. insert_last q x = Some q' \<and> invar q' \<and> elems q' = elems q @ [x]"
    and insert_full: "invar q \<Longrightarrow> is_full q \<Longrightarrow> insert_last q x = Some q"
    and remove_some: "invar q \<Longrightarrow> \<not> is_empty q \<Longrightarrow>
      \<exists>q'. remove_first q = Some (hd (elems q), q') \<and> invar q' \<and> elems q' = tl (elems q)"
begin

text \<open>Inserting a list of elements, as a producer that never waits does: the queue keeps
  what fits and drops the rest.\<close>

fun insert_all :: "'q \<Rightarrow> 'a list \<Rightarrow> 'q option" where
  "insert_all q [] = Some q"
| "insert_all q (x # xs) = (case insert_last q x of None \<Rightarrow> None | Some q' \<Rightarrow> insert_all q' xs)"

fun remove_n :: "'q \<Rightarrow> nat \<Rightarrow> ('a list \<times> 'q) option" where
  "remove_n q 0 = Some ([], q)"
| "remove_n q (Suc n) =
     (case remove_first q of
        None \<Rightarrow> None
      | Some (x, q') \<Rightarrow> map_option (\<lambda>(xs, q''). (x # xs, q'')) (remove_n q' n))"

lemma insert_all_elems:
  "invar q \<Longrightarrow> \<exists>q'. insert_all q xs = Some q' \<and> invar q'
     \<and> elems q' = take size_max (elems q @ xs)"
proof (induction xs arbitrary: q)
  case Nil
  then show ?case using size_le [of q] by simp
next
  case (Cons x xs)
  show ?case
  proof (cases "is_full q")
    case True
    then have "length (elems q) = size_max" using Cons.prems full_iff by blast
    then show ?thesis
      using Cons.IH [OF Cons.prems] True insert_full [OF Cons.prems] by simp
  next
    case False
    then obtain q1 where "insert_last q x = Some q1" "invar q1" "elems q1 = elems q @ [x]"
      using insert_room [OF Cons.prems] by blast
    with Cons.IH [of q1] show ?thesis by simp
  qed
qed

lemma remove_n_elems:
  "invar q \<Longrightarrow> n \<le> length (elems q) \<Longrightarrow>
   \<exists>q'. remove_n q n = Some (take n (elems q), q') \<and> invar q' \<and> elems q' = drop n (elems q)"
proof (induction n arbitrary: q)
  case (Suc n)
  then have "elems q \<noteq> []" by auto
  then obtain x ys where e: "elems q = x # ys" by (cases "elems q") auto
  then obtain q1 where q1: "remove_first q = Some (x, q1)" "invar q1" "elems q1 = ys"
    using remove_some [of q] Suc.prems empty_iff [of q] by auto
  with Suc e show ?case by fastforce
qed simp

text \<open>What a consumer reads from an empty queue after a burst of the producer is the
  prefix of the burst that fits, in order.\<close>

lemma fifo:
  assumes "invar q" and "elems q = []" and "length xs \<le> size_max"
  shows "\<exists>q1 q2. insert_all q xs = Some q1 \<and> remove_n q1 (length xs) = Some (xs, q2)
    \<and> invar q2 \<and> elems q2 = []"
proof -
  obtain q1 where "insert_all q xs = Some q1" "invar q1" "elems q1 = xs"
    using insert_all_elems [OF assms(1), of xs] assms(2,3) by auto
  with remove_n_elems [of q1 "length xs"] show ?thesis by auto
qed

end

text \<open>The ring of slots: the producer is handed the next free slot, the consumer the oldest
  slot in use, until the ring is full or empty.\<close>

locale slot_ring =
  fixes invar :: "'q \<Rightarrow> bool"
    and in_use :: "'q \<Rightarrow> 'a list"
    and null :: 'a
    and size_max :: nat
    and take_free :: "'q \<Rightarrow> ('a \<times> 'q) option"
    and take_used :: "'q \<Rightarrow> ('a \<times> 'q) option"
  assumes free_room: "invar q \<Longrightarrow> length (in_use q) < size_max \<Longrightarrow>
      \<exists>p q'. take_free q = Some (p, q') \<and> invar q' \<and> in_use q' = in_use q @ [p]"
    and free_full: "invar q \<Longrightarrow> size_max \<le> length (in_use q) \<Longrightarrow> take_free q = Some (null, q)"
    and used_some: "invar q \<Longrightarrow> in_use q \<noteq> [] \<Longrightarrow>
      \<exists>q'. take_used q = Some (hd (in_use q), q') \<and> invar q' \<and> in_use q' = tl (in_use q)"
    and used_none: "invar q \<Longrightarrow> in_use q = [] \<Longrightarrow> take_used q = Some (null, q)"
begin

lemma free_then_used:
  assumes "invar q" and "in_use q = []" and "0 < size_max"
  shows "\<exists>p q1 q2. take_free q = Some (p, q1) \<and> take_used q1 = Some (p, q2)
    \<and> invar q2 \<and> in_use q2 = []"
proof -
  obtain p q1 where "take_free q = Some (p, q1)" "invar q1" "in_use q1 = [p]"
    using free_room [OF assms(1)] assms(2,3) by auto
  with used_some [of q1] show ?thesis by auto
qed

end

section \<open>The rings satisfy the contracts\<close>

definition rb_inv :: "ring_buffer \<Rightarrow> bool" where
  "rb_inv rb \<longleftrightarrow> length (buffer rb) = 64 \<and> unat (rb_head rb) < 64 \<and> unat (rb_tail rb) < 64"

definition rb_list :: "ring_buffer \<Rightarrow> u8 list" where
  "rb_list rb = ring_list 64 (buffer rb) (unat (rb_head rb)) (unat (rb_tail rb))"

definition irb_inv :: "indirect_ring_buffer \<Rightarrow> bool" where
  "irb_inv rb \<longleftrightarrow> length (buf rb) = irb_LEN \<and> unat (irb_head rb) < irb_LEN
     \<and> unat (irb_tail rb) < irb_LEN"

definition irb_list :: "indirect_ring_buffer \<Rightarrow> u32 list" where
  "irb_list rb = ring_list irb_LEN (buf rb) (unat (irb_head rb)) (unat (irb_tail rb))"

lemma unat_idx_mod: "0 < n \<Longrightarrow> n \<le> 256 \<Longrightarrow> unat (of_nat (k mod n) :: u8) = k mod n"
proof (rule unat_of_nat_small)
  assume "0 < n" "n \<le> 256"
  then have "k mod n < n" by simp
  also note \<open>n \<le> 256\<close>
  finally show "k mod n < 2 ^ LENGTH(8)" by simp
qed

interpretation rb: bounded_queue rb_inv rb_list 63 ringbuffer_is_full ringbuffer_is_empty
  ringbuffer_put ringbuffer_get
proof
  fix q :: ring_buffer and x :: u8
  assume inv: "rb_inv q"
  then have hd_tl: "unat (rb_head q) < 64" "unat (rb_tail q) < 64" "length (buffer q) = 64"
    by (simp_all add: rb_inv_def)
  show "length (rb_list q) \<le> 63"
    using ring_count_less [of 64] by (simp add: rb_list_def less_Suc_eq_le [symmetric])
  show full: "ringbuffer_is_full q \<longleftrightarrow> length (rb_list q) = 63"
    using ring_full_iff [OF hd_tl(1,2)] by (simp add: ringbuffer_is_full_def rb_list_def)
  show empty: "ringbuffer_is_empty q \<longleftrightarrow> rb_list q = []"
    using ring_empty_iff [OF hd_tl(1,2), of "buffer q"]
    by (simp add: ringbuffer_is_empty_def rb_list_def word_eq_iff_unat)
  show "\<exists>q'. ringbuffer_put q x = Some q' \<and> rb_inv q' \<and> rb_list q' = rb_list q @ [x]"
    if "\<not> ringbuffer_is_full q"
    using that hd_tl ring_list_put [OF hd_tl(1,2) _ hd_tl(3), of x]
    by (simp add: ringbuffer_put_def mem_simps rb_inv_def rb_list_def ringbuffer_is_full_def
        unat_idx_mod)
  show "ringbuffer_put q x = Some q" if "ringbuffer_is_full q"
    using that by (simp add: ringbuffer_put_def)
  show "\<exists>q'. ringbuffer_get q = Some (hd (rb_list q), q') \<and> rb_inv q' \<and> rb_list q' = tl (rb_list q)"
    if "\<not> ringbuffer_is_empty q"
  proof -
    have "unat (rb_tail q) \<noteq> unat (rb_head q)"
      using that by (simp add: ringbuffer_is_empty_def word_eq_iff_unat)
    then show ?thesis
      using that hd_tl ring_list_get [OF hd_tl(1,2), of "buffer q"]
      by (simp add: ringbuffer_get_def mem_simps rb_inv_def rb_list_def unat_idx_mod)
  qed
qed

interpretation irb: slot_ring irb_inv irb_list 0 9 get_first_free_buffer get_first_used_buffer
proof
  fix q :: indirect_ring_buffer
  assume inv: "irb_inv q"
  then have hd_tl: "unat (irb_head q) < irb_LEN" "unat (irb_tail q) < irb_LEN" "length (buf q) = irb_LEN"
    by (simp_all add: irb_inv_def)
  have full: "irb_is_full q \<longleftrightarrow> length (irb_list q) = 9"
    using ring_full_iff [OF hd_tl(1,2)] by (simp add: irb_is_full_def irb_list_def irb_LEN_def)
  have empty: "irb_is_empty q \<longleftrightarrow> irb_list q = []"
    using ring_empty_iff [OF hd_tl(1,2), of "buf q"] by (simp add: irb_is_empty_def irb_list_def word_eq_iff_unat)
  show "\<exists>p q'. get_first_free_buffer q = Some (p, q') \<and> irb_inv q' \<and> irb_list q' = irb_list q @ [p]"
    if "length (irb_list q) < 9"
  proof -
    have nf: "\<not> irb_is_full q" using that full by simp
    then show ?thesis
      using hd_tl ring_list_advance [OF hd_tl(1,2) _ hd_tl(3)]
      by (simp add: get_first_free_buffer_def mem_simps irb_inv_def irb_list_def irb_is_full_def
          unat_idx_mod irb_LEN_def)
  qed
  show "get_first_free_buffer q = Some (0, q)" if "9 \<le> length (irb_list q)"
  proof -
    have "length (irb_list q) < irb_LEN"
      unfolding irb_list_def length_ring_list by (rule ring_count_less) (simp add: irb_LEN_def)
    with that full show ?thesis by (simp add: get_first_free_buffer_def irb_LEN_def)
  qed
  show "\<exists>q'. get_first_used_buffer q = Some (hd (irb_list q), q') \<and> irb_inv q' \<and> irb_list q' = tl (irb_list q)"
    if "irb_list q \<noteq> []"
  proof -
    have ne: "\<not> irb_is_empty q" using that empty by simp
    then have "unat (irb_tail q) \<noteq> unat (irb_head q)" by (simp add: irb_is_empty_def word_eq_iff_unat)
    then show ?thesis
      using ne hd_tl ring_list_get [OF hd_tl(1,2), of "buf q"]
      by (simp add: get_first_used_buffer_def mem_simps irb_inv_def irb_list_def unat_idx_mod irb_LEN_def)
  qed
  show "get_first_used_buffer q = Some (0, q)" if "irb_list q = []"
    using that empty by (simp add: get_first_used_buffer_def)
qed

section \<open>Properties\<close>

lemma rb_init:
  "length (buffer rb) = 64 \<Longrightarrow> \<exists>rb'. init_ringbuffer rb = Some rb' \<and> rb_inv rb' \<and> rb_list rb' = []"
  by (simp add: init_ringbuffer_def memset_put rb_inv_def rb_list_def ring_list_def ring_count_def)

lemma irb_copy_all:
  "i + n = length bs \<Longrightarrow> length bufs = length bs \<Longrightarrow> take i bs = take i bufs \<Longrightarrow>
   irb_copy bs i n bufs = Some bufs"
proof (induction n arbitrary: bs i)
  case 0
  then have "take (length bs) bs = take (length bs) bufs" by (metis add_0_right)
  with 0(2) show ?case by (metis irb_copy.simps(1) take_all_iff order_refl)
next
  case (Suc n)
  have "take (Suc i) (bs[i := bufs ! i]) = take (Suc i) bufs"
    using Suc.prems by (simp add: take_Suc_conv_app_nth)
  with Suc show ?case by (simp add: mem_simps)
qed

lemma irb_init:
  "length (buf rb) = irb_LEN \<Longrightarrow> length bufs = irb_LEN \<Longrightarrow>
   \<exists>rb'. irb_initialize rb bufs = Some rb' \<and> irb_inv rb' \<and> irb_list rb' = [] \<and> buf rb' = bufs"
  by (simp add: irb_initialize_def irb_copy_all irb_inv_def irb_list_def ring_list_def
      ring_count_def irb_LEN_def)

text \<open>After \<open>init_ringbuffer\<close>, a burst of at most 63 keys put into the keyboard ring
  is read back by the same number of gets complete and in order, and the ring is then
  empty again.\<close>

theorem keyboard_ring_fifo:
  assumes "length (buffer rb0) = 64" and "length keys \<le> 63"
  shows "\<exists>rb1 rb2 rb3. init_ringbuffer rb0 = Some rb1 \<and> rb.insert_all rb1 keys = Some rb2
    \<and> rb.remove_n rb2 (length keys) = Some (keys, rb3) \<and> ringbuffer_is_empty rb3"
proof -
  obtain rb1 where "init_ringbuffer rb0 = Some rb1" "rb_inv rb1" "rb_list rb1 = []"
    using rb_init [OF assms(1)] by blast
  moreover obtain rb2 rb3 where "rb.insert_all rb1 keys = Some rb2"
      "rb.remove_n rb2 (length keys) = Some (keys, rb3)" "rb_inv rb3" "rb_list rb3 = []"
    using rb.fifo [OF \<open>rb_inv rb1\<close> \<open>rb_list rb1 = []\<close> assms(2)] by blast
  ultimately show ?thesis using rb.empty_iff [of rb3] by blast
qed

theorem keyboard_ring_fifo_example:
  "\<exists>rb1 rb2 rb3. init_ringbuffer \<lparr>buffer = replicate 64 7, rb_head = 9, rb_tail = 3\<rparr> = Some rb1
    \<and> rb.insert_all rb1 [104, 105] = Some rb2
    \<and> rb.remove_n rb2 (length [104, 105 :: u8]) = Some ([104, 105], rb3) \<and> ringbuffer_is_empty rb3"
  by (rule keyboard_ring_fifo) simp_all

text \<open>A put into a ring that is not full appends the key; into a full ring it is dropped
  without any change; the invariant holds in both cases and no access leaves the buffer.\<close>

lemma ringbuffer_put_appends:
  assumes "rb_inv rb0"
  shows "\<exists>rb1. ringbuffer_put rb0 ch = Some rb1 \<and> rb_inv rb1
    \<and> rb_list rb1 = (if length (rb_list rb0) = 63 then rb_list rb0 else rb_list rb0 @ [ch])"
  using rb.full_iff [OF assms] rb.insert_room [OF assms, of ch] rb.insert_full [OF assms, of ch] assms
  by (cases "ringbuffer_is_full rb0") auto

text \<open>The driver's packet ring hands the consumer exactly the buffer the producer filled
  first: a buffer obtained from an initialised ring by \<open>get_first_free_buffer\<close> is the one
  the next \<open>get_first_used_buffer\<close> returns, and a ring with nine buffers in use refuses a
  further one with \<open>NULL\<close>, unchanged.\<close>

lemma packet_ring_hands_over:
  assumes "length (buf rb0) = irb_LEN" and "length bufs = irb_LEN"
  shows "\<exists>rb1 p rb2 rb3. irb_initialize rb0 bufs = Some rb1
    \<and> get_first_free_buffer rb1 = Some (p, rb2) \<and> p = bufs ! 0
    \<and> get_first_used_buffer rb2 = Some (p, rb3) \<and> irb_is_empty rb3
    \<and> (\<forall>q. irb_inv q \<and> length (irb_list q) = 9 \<longrightarrow> get_first_free_buffer q = Some (0, q))"
proof -
  obtain rb1 where rb1: "irb_initialize rb0 bufs = Some rb1" "irb_inv rb1" "irb_list rb1 = []" "buf rb1 = bufs"
    using irb_init [OF assms] by blast
  have hd0: "irb_head rb1 = 0" "irb_tail rb1 = 0"
    using rb1(1) by (auto simp: irb_initialize_def bind_eq_Some_conv)
  obtain p rb2 rb3 where r: "get_first_free_buffer rb1 = Some (p, rb2)"
      "get_first_used_buffer rb2 = Some (p, rb3)" "irb_inv rb3" "irb_list rb3 = []"
    using irb.free_then_used [OF rb1(2,3)] by auto
  have "p = bufs ! 0"
    using r(1) hd0 rb1(4) assms(2)
    by (auto simp: get_first_free_buffer_def irb_is_full_def irb_LEN_def load_def split: if_splits)
  moreover have "irb_is_empty rb3"
    using r(3,4) ring_empty_iff [of "unat (irb_head rb3)" irb_LEN "unat (irb_tail rb3)" "buf rb3"]
    by (simp add: irb_is_empty_def irb_list_def irb_inv_def word_eq_iff_unat)
  ultimately show ?thesis using rb1(1) r irb.free_full by auto
qed

end
