(* ===== verification/Ipc.thy ===== *)
theory Ipc
  imports Process
begin

text \<open>
  Model of the kernel's message passing: \<open>kernel/ipc.cc\<close> with \<open>kernel/ipc.h\<close>, and the
  system call handler of \<open>kernel/syscall_init.cc\<close>.

  A \<open>Message\<close> object is named by its address; \<open>msgs\<close> of the kernel state holds the
  objects. Sending to a process that waits for the sender copies the message into the
  waiting process's object and wakes it; otherwise the sender enters the receiver's list of
  senders, which is linked through \<open>next_ready\<close>, and blocks.

  The theory relates the list of senders of a process to a list (\<open>chain\<close>) and shows that
  delivery copies exactly the sent type and context, that blocked senders are served last in,
  first out, and that each operation keeps the scheduler's invariant.
\<close>

section \<open>Operations\<close>

definition REPLY :: u32 where "REPLY = 0xfffffe"
definition INTR :: u32 where "INTR = 0xffffff"
definition ipc_SEND :: u32 where "ipc_SEND = 1"
definition ipc_RECV :: u32 where "ipc_RECV = 2"
definition ipc_SEND_RECV :: u32 where "ipc_SEND_RECV = 3"

definition upd_msg :: "kstate \<Rightarrow> u32 \<Rightarrow> (message \<Rightarrow> message) \<Rightarrow> kstate" where
  "upd_msg s m f = s\<lparr>msgs := (msgs s)(m := f (msgs s m))\<rparr>"

definition reset_message :: "kstate \<Rightarrow> u32 \<Rightarrow> u32 \<Rightarrow> msg_context \<Rightarrow> kstate" where
  "reset_message s m ty con = upd_msg s m (\<lambda>x. x\<lparr>mtype := ty, mcontext := con\<rparr>)"

text \<open>Is the process waiting for a message from this sender? A reply is taken by every
  waiting process.\<close>

definition accepts :: "kstate \<Rightarrow> u32 \<Rightarrow> u32 \<Rightarrow> u32 \<Rightarrow> bool" where
  "accepts s dst src ty \<longleftrightarrow>
     (status (pcbs s dst) = WAITING_MSG
        \<and> (destination (msgs s (message (pcbs s dst))) = ANY
           \<or> src = destination (msgs s (message (pcbs s dst)))))
     \<or> (status (pcbs s dst) = WAITING_MSG \<and> ty = REPLY)"

definition ipc_send :: "kstate \<Rightarrow> u32 \<Rightarrow> u32 \<Rightarrow> kstate option" where
  "ipc_send s this dst =
     (let m = msgs s this; src = source m; dmsg = message (pcbs s dst) in
      if src = INTERRUPT_NET then
        (let s1 = upd_pcb s dst (\<lambda>b. b\<lparr>intr_cnt := intr_cnt b + 1\<rparr>) in
         if status (pcbs s dst) = WAITING_MSG \<and> destination (msgs s1 dmsg) = ANY
         then unblock_proc (upd_msg s1 dmsg (\<lambda>x. x\<lparr>mtype := INTR\<rparr>)) dst
         else Some s1)
      else if accepts s dst src (mtype m) then
        unblock_proc (upd_msg s dmsg (\<lambda>x. x\<lparr>mtype := mtype m, mcontext := mcontext m, destination := src\<rparr>)) dst
      else if src = INTERRUPT then
        (let s1 = upd_pcb s INTERRUPT (\<lambda>b. b\<lparr>next_ready := sendings (pcbs s dst)\<rparr>)
         in Some (upd_pcb s1 dst (\<lambda>b. b\<lparr>sendings := INTERRUPT\<rparr>)))
      else
        (let s1 = upd_pcb s src (\<lambda>b. b\<lparr>message := this\<rparr>);
             s2 = upd_pcb s1 (cur_proc s1) (\<lambda>b. b\<lparr>next_ready := sendings (pcbs s1 dst)\<rparr>);
             s3 = upd_pcb s2 dst (\<lambda>b. b\<lparr>sendings := cur_proc s2\<rparr>)
         in self_block s3 SENDING_MSG))"

text \<open>Taking the message of one particular sender that is not the first: the walk along the
  list of senders. \<open>None\<close> is a walk that does not end, \<open>Some None\<close> that the sender is
  not there.\<close>

partial_function (option) recv_walk :: "kstate \<Rightarrow> u32 \<Rightarrow> u32 \<Rightarrow> u32 \<Rightarrow> kstate option option" where
  "recv_walk s this want prev_sender =
     (if prev_sender = 0 then Some None
      else (let sender = next_ready (pcbs s prev_sender) in
        if want = sender then
          (let w = msgs s (message (pcbs s want));
               s1 = upd_msg s this (\<lambda>x. x\<lparr>mtype := mtype w, mcontext := mcontext w\<rparr>);
               s2 = upd_pcb s1 prev_sender (\<lambda>b. b\<lparr>next_ready := next_ready (pcbs s1 sender)\<rparr>);
               s3 = upd_msg s2 this (\<lambda>x. x\<lparr>destination := prev_sender\<rparr>)
           in if status (pcbs s3 prev_sender) = SENDING_MSG
              then (case unblock_proc s3 prev_sender of None \<Rightarrow> None | Some s4 \<Rightarrow> Some (Some s4))
              else Some (Some s3))
        else recv_walk s this want (next_ready (pcbs s prev_sender))))"

declare recv_walk.simps [code]

definition recv_block :: "kstate \<Rightarrow> u32 \<Rightarrow> u32 \<Rightarrow> kstate option" where
  "recv_block s this want =
     (let s1 = upd_msg s this (\<lambda>x. x\<lparr>destination := want\<rparr>);
          s2 = upd_pcb s1 (source (msgs s this)) (\<lambda>b. b\<lparr>message := this\<rparr>)
      in self_block s2 WAITING_MSG)"

definition ipc_receive :: "kstate \<Rightarrow> u32 \<Rightarrow> u32 \<Rightarrow> kstate option" where
  "ipc_receive s this want =
     (let src = source (msgs s this); prev_sender = sendings (pcbs s src) in
      if intr_cnt (pcbs s src) \<noteq> 0 \<and> want = ANY then
        Some (upd_pcb (upd_msg s this (\<lambda>x. x\<lparr>mtype := INTR\<rparr>)) src (\<lambda>b. b\<lparr>intr_cnt := intr_cnt b - 1\<rparr>))
      else if prev_sender \<noteq> 0 then
        (if want = prev_sender \<or> want = 0 then
           (let w = msgs s (message (pcbs s prev_sender));
                s1 = upd_msg s this (\<lambda>x. x\<lparr>mtype := mtype w, mcontext := mcontext w\<rparr>);
                nxt = next_ready (pcbs s1 (sendings (pcbs s1 src)));
                s2 = upd_pcb s1 src (\<lambda>b. b\<lparr>sendings := (if nxt = sendings b then 0 else nxt)\<rparr>);
                s3 = upd_msg s2 this (\<lambda>x. x\<lparr>destination := prev_sender\<rparr>)
            in if status (pcbs s3 prev_sender) = SENDING_MSG then unblock_proc s3 prev_sender
               else Some s3)
         else do {
           r \<leftarrow> recv_walk s this want prev_sender;
           (case r of Some s' \<Rightarrow> Some s' | None \<Rightarrow> recv_block s this want) })
      else recv_block s this want)"

definition ipc_reply :: "kstate \<Rightarrow> u32 \<Rightarrow> kstate option" where
  "ipc_reply s this = ipc_send s this (destination (msgs s this))"

text \<open>The handler of \<open>int 0x99\<close>; \<open>self\<close> is the control block the kernel stack lies
  in. When the send blocks, the receive of a combined call is left for the time the caller
  runs again: the flag says so.\<close>

definition syscall_handler :: "kstate \<Rightarrow> u32 \<Rightarrow> u32 \<Rightarrow> u32 \<Rightarrow> u32 \<Rightarrow> (kstate \<times> bool) option" where
  "syscall_handler s ty msg target self = do {
     let s1 = (if source (msgs s msg) = 0 then upd_msg s msg (\<lambda>x. x\<lparr>source := self\<rparr>) else s);
     s2 \<leftarrow> (if ty AND ipc_SEND \<noteq> 0 then ipc_send s1 msg target else Some s1);
     (if ty AND ipc_RECV \<noteq> 0 then
        (if cur_proc s2 \<noteq> cur_proc s1 then Some (s2, True)
         else do { s3 \<leftarrow> ipc_receive s2 msg target; Some (s3, False) })
      else Some (s2, False)) }"

section \<open>Lemmas\<close>

lemma upd_msg_simps [simp]:
  "pcbs (upd_msg s m f) = pcbs s" "links (upd_msg s m f) = links s"
  "ready_processes (upd_msg s m f) = ready_processes s" "max_rounds (upd_msg s m f) = max_rounds s"
  "max_priority (upd_msg s m f) = max_priority s" "cur_proc (upd_msg s m f) = cur_proc s"
  "msgs (upd_msg s m f) = (msgs s)(m := f (msgs s m))"
  by (simp_all add: upd_msg_def)

lemma kinv_cong:
  assumes "links s' = links s" "ready_processes s' = ready_processes s" "max_rounds s' = max_rounds s"
    "max_priority s' = max_priority s" "cur_proc s' = cur_proc s"
    "\<And>p. p \<in> queued qs \<Longrightarrow>
       status (pcbs s' p) = status (pcbs s p) \<and> priority (pcbs s' p) = priority (pcbs s p)"
  shows "kinv s' qs \<longleftrightarrow> kinv s qs"
  using assms queues_ok_cong [of s' s qs] by (auto simp: kinv_def)

lemma queue_nodes_cong: "ready_processes s' = ready_processes s \<Longrightarrow> queue_nodes s' qs = queue_nodes s qs"
  by (simp add: queue_nodes_def)

lemma kinv_upd_msg [simp]: "kinv (upd_msg s m f) qs \<longleftrightarrow> kinv s qs"
  by (rule kinv_cong) auto

text \<open>The list of blocked senders that starts at \<open>a\<close>.\<close>

fun chain :: "(u32 \<Rightarrow> pcb) \<Rightarrow> u32 \<Rightarrow> u32 list \<Rightarrow> bool" where
  "chain P a [] \<longleftrightarrow> a = 0"
| "chain P a (x # xs) \<longleftrightarrow> a = x \<and> x \<noteq> 0 \<and> chain P (next_ready (P x)) xs"

lemma chain_cong: "(\<And>x. x \<in> set xs \<Longrightarrow> next_ready (P x) = next_ready (Q x)) \<Longrightarrow> chain P a xs \<longleftrightarrow> chain Q a xs"
  by (induction xs arbitrary: a) auto

text \<open>A process that can be woken: it is in no queue and has a valid priority.\<close>

definition wakeable :: "kstate \<Rightarrow> u32 list list \<Rightarrow> u32 \<Rightarrow> bool" where
  "wakeable s qs p \<longleftrightarrow> p \<notin> queue_nodes s qs \<and> p \<noteq> 0 \<and> prio_of s p < PRIORITY_KIND"

definition wake :: "kstate \<Rightarrow> u32 list list \<Rightarrow> u32 \<Rightarrow> u32 list list" where
  "wake s qs p = qs[prio_of s p := qs ! prio_of s p @ [p]]"

definition unqueue :: "kstate \<Rightarrow> u32 list list \<Rightarrow> u32 list list" where
  "unqueue s qs = qs[prio_of s (cur_proc s) := remove1 (cur_proc s) (qs ! prio_of s (cur_proc s))]"

lemma wake_cong: "pcbs s' p = pcbs s p \<Longrightarrow> wake s' qs p = wake s qs p"
  by (simp add: wake_def)

lemma unblock_wake:
  assumes "kinv s qs" "wakeable s qs p"
  shows "\<exists>s'. unblock_proc s p = Some s' \<and> kinv s' (wake s qs p) \<and> cur_proc s' = cur_proc s
     \<and> msgs s' = msgs s \<and> ready_processes s' = ready_processes s
     \<and> pcbs s' = (pcbs s)(p := (pcbs s p)\<lparr>status := READY\<rparr>)"
  using unblock_ok [OF assms(1) _ _ _ refl] assms(2) by (auto simp: wakeable_def wake_def)

lemma self_block_unqueue:
  assumes "kinv s qs" "st \<notin> {RUNNING, READY, WAITING_MID}" "unqueue s qs ! 4 \<noteq> []"
  shows "\<exists>s'. self_block s st = Some s' \<and> kinv s' (unqueue s qs) \<and> cur_proc s \<notin> queued (unqueue s qs)
     \<and> msgs s' = msgs s \<and> ready_processes s' = ready_processes s \<and> cur_proc s' \<noteq> cur_proc s
     \<and> pcbs s' = (pcbs s)(cur_proc s := (pcbs s (cur_proc s))\<lparr>status := st\<rparr>,
                          cur_proc s' := (pcbs s (cur_proc s'))\<lparr>status := RUNNING\<rparr>)"
proof -
  obtain p rs where r: "self_block s st = Some (switched (blocked s st) p rs)"
      "kinv (switched (blocked s st) p rs) (unqueue s qs)" "cur_proc s \<notin> queued (unqueue s qs)"
    using self_block_ok [OF assms(1) refl refl assms(2) unqueue_def assms(3) refl refl] by blast
  then have "p \<noteq> cur_proc s" by (auto simp: kinv_def)
  then show ?thesis using r by (auto simp: blocked_def)
qed

lemma send_accepted:
  assumes inv: "kinv s qs" and w: "wakeable s qs dst"
    and acc: "accepts s dst (source (msgs s this)) (mtype (msgs s this))"
    and ni: "source (msgs s this) \<noteq> INTERRUPT_NET"
  shows "\<exists>s'. ipc_send s this dst = Some s' \<and> kinv s' (wake s qs dst) \<and> cur_proc s' = cur_proc s
     \<and> ready_processes s' = ready_processes s
     \<and> pcbs s' = (pcbs s)(dst := (pcbs s dst)\<lparr>status := READY\<rparr>)
     \<and> msgs s' = (msgs s)(message (pcbs s dst) :=
          (msgs s (message (pcbs s dst)))\<lparr>mtype := mtype (msgs s this), mcontext := mcontext (msgs s this),
             destination := source (msgs s this)\<rparr>)"
proof -
  let ?s = "upd_msg s (message (pcbs s dst)) (\<lambda>x. x\<lparr>mtype := mtype (msgs s this),
    mcontext := mcontext (msgs s this), destination := source (msgs s this)\<rparr>)"
  have "kinv ?s qs" "wakeable ?s qs dst"
    using inv w by (simp_all add: wakeable_def queue_nodes_cong [of ?s s])
  from unblock_wake [OF this] wake_cong [of ?s dst s] show ?thesis
    using acc ni by (auto simp: ipc_send_def Let_def)
qed

lemma send_refused:
  assumes inv: "kinv s qs" and c: "c = cur_proc s" "source (msgs s this) = c"
    and na: "\<not> accepts s dst c (mtype (msgs s this))" and ni: "c \<notin> {INTERRUPT, INTERRUPT_NET}"
    and ne: "unqueue s qs ! 4 \<noteq> []" and d: "dst \<noteq> c"
  shows "\<exists>s'. ipc_send s this dst = Some s' \<and> kinv s' (unqueue s qs) \<and> c \<notin> queued (unqueue s qs)
     \<and> msgs s' = msgs s \<and> ready_processes s' = ready_processes s
     \<and> pcbs s' c = (pcbs s c)\<lparr>message := this, next_ready := sendings (pcbs s dst), status := SENDING_MSG\<rparr>
     \<and> sendings (pcbs s' dst) = c \<and> intr_cnt (pcbs s' dst) = intr_cnt (pcbs s dst)
     \<and> (\<forall>p. p \<noteq> c \<longrightarrow> next_ready (pcbs s' p) = next_ready (pcbs s p))
     \<and> (\<forall>p. priority (pcbs s' p) = priority (pcbs s p))"
proof -
  define t where "t = upd_pcb (upd_pcb (upd_pcb s c (\<lambda>b. b\<lparr>message := this\<rparr>))
     c (\<lambda>b. b\<lparr>next_ready := sendings (pcbs s dst)\<rparr>)) dst (\<lambda>b. b\<lparr>sendings := c\<rparr>)"
  have send: "ipc_send s this dst = self_block t SENDING_MSG"
    using c na ni d by (simp add: ipc_send_def t_def Let_def)
  have tp: "pcbs t = (pcbs s)(c := (pcbs s c)\<lparr>message := this, next_ready := sendings (pcbs s dst)\<rparr>,
      dst := (pcbs s dst)\<lparr>sendings := c\<rparr>)" and tc: "cur_proc t = c" "msgs t = msgs s"
      "ready_processes t = ready_processes s"
    using d c by (auto simp: t_def)
  have "kinv t qs \<longleftrightarrow> kinv s qs" unfolding t_def by (rule kinv_cong) auto
  moreover have uq: "unqueue t qs = unqueue s qs" using tp tc c by (auto simp: unqueue_def)
  ultimately obtain s' where s': "self_block t SENDING_MSG = Some s'" "kinv s' (unqueue s qs)"
      "c \<notin> queued (unqueue s qs)" "msgs s' = msgs t" "ready_processes s' = ready_processes t" "cur_proc s' \<noteq> c"
      "pcbs s' = (pcbs t)(c := (pcbs t c)\<lparr>status := SENDING_MSG\<rparr>, cur_proc s' := (pcbs t (cur_proc s'))\<lparr>status := RUNNING\<rparr>)"
    using self_block_unqueue [of t qs SENDING_MSG] inv ne tc by auto
  show ?thesis
    using s' send tp tc d by (intro exI [of _ s']) auto
qed

lemma receive_first:
  assumes inv: "kinv s qs" and src: "src = source (msgs s this)"
    and ch: "chain (pcbs s) (sendings (pcbs s src)) (x # xs)" "distinct (x # xs)" "src \<notin> set (x # xs)"
    and want: "want = x \<or> want = ANY \<and> intr_cnt (pcbs s src) = 0"
    and x: "status (pcbs s x) = SENDING_MSG" "wakeable s qs x"
  shows "\<exists>s'. ipc_receive s this want = Some s' \<and> kinv s' (wake s qs x) \<and> cur_proc s' = cur_proc s
     \<and> ready_processes s' = ready_processes s
     \<and> status (pcbs s' x) = READY \<and> chain (pcbs s') (sendings (pcbs s' src)) xs
     \<and> msgs s' = (msgs s)(this := (msgs s this)\<lparr>mtype := mtype (msgs s (message (pcbs s x))),
            mcontext := mcontext (msgs s (message (pcbs s x))), destination := x\<rparr>)"
proof -
  have sx: "sendings (pcbs s src) = x" "x \<noteq> 0" "chain (pcbs s) (next_ready (pcbs s x)) xs"
    using ch(1) by auto
  have nx: "next_ready (pcbs s x) \<noteq> x" using sx(3) ch(2) by (cases xs) (auto simp: sx(2))
  let ?w = "msgs s (message (pcbs s x))"
  define t where "t = upd_msg (upd_pcb (upd_msg s this (\<lambda>m. m\<lparr>mtype := mtype ?w, mcontext := mcontext ?w\<rparr>))
     src (\<lambda>b. b\<lparr>sendings := next_ready (pcbs s x)\<rparr>)) this (\<lambda>m. m\<lparr>destination := x\<rparr>)"
  have tp: "pcbs t = (pcbs s)(src := (pcbs s src)\<lparr>sendings := next_ready (pcbs s x)\<rparr>)"
      "ready_processes t = ready_processes s" "cur_proc t = cur_proc s"
      "msgs t = (msgs s)(this := (msgs s this)\<lparr>mtype := mtype ?w, mcontext := mcontext ?w, destination := x\<rparr>)"
    by (auto simp: t_def)
  have rec: "ipc_receive s this want = unblock_proc t x"
    using want sx nx src x(1) ch(3)
    by (auto simp: ipc_receive_def t_def Let_def ANY_def upd_pcb_def upd_msg_def)
  have "kinv t qs \<longleftrightarrow> kinv s qs" unfolding t_def by (rule kinv_cong) auto
  moreover have wk: "wakeable t qs x" "wake t qs x = wake s qs x"
    using x(2) tp ch(3) by (auto simp: wakeable_def wake_def queue_nodes_cong [of t s])
  ultimately obtain s' where s': "unblock_proc t x = Some s'" "kinv s' (wake s qs x)" "cur_proc s' = cur_proc t"
      "msgs s' = msgs t" "ready_processes s' = ready_processes t" "pcbs s' = (pcbs t)(x := (pcbs t x)\<lparr>status := READY\<rparr>)"
    using unblock_wake [of t qs x] inv by auto
  have "chain (pcbs s') (next_ready (pcbs s x)) xs \<longleftrightarrow> chain (pcbs s) (next_ready (pcbs s x)) xs"
    using s'(6) tp(1) ch(2,3) by (intro chain_cong) auto
  then show ?thesis
    using s' rec tp sx ch(3) by (intro exI [of _ s']) auto
qed

lemma receive_blocks:
  assumes inv: "kinv s qs" and c: "c = cur_proc s" "source (msgs s this) = c"
    and e: "sendings (pcbs s c) = 0" "intr_cnt (pcbs s c) = 0 \<or> want \<noteq> ANY"
    and ne: "unqueue s qs ! 4 \<noteq> []"
  shows "\<exists>s'. ipc_receive s this want = Some s' \<and> kinv s' (unqueue s qs) \<and> c \<notin> queued (unqueue s qs)
     \<and> cur_proc s' \<noteq> c \<and> ready_processes s' = ready_processes s
     \<and> pcbs s' = (pcbs s)(c := (pcbs s c)\<lparr>message := this, status := WAITING_MSG\<rparr>,
          cur_proc s' := (pcbs s (cur_proc s'))\<lparr>status := RUNNING\<rparr>)
     \<and> msgs s' = (msgs s)(this := (msgs s this)\<lparr>destination := want\<rparr>)"
proof -
  define t where "t = upd_pcb (upd_msg s this (\<lambda>x. x\<lparr>destination := want\<rparr>)) c (\<lambda>b. b\<lparr>message := this\<rparr>)"
  have rec: "ipc_receive s this want = self_block t WAITING_MSG"
    using c e by (auto simp: ipc_receive_def recv_block_def t_def Let_def)
  have tp: "pcbs t = (pcbs s)(c := (pcbs s c)\<lparr>message := this\<rparr>)" "cur_proc t = c"
      "ready_processes t = ready_processes s" "msgs t = (msgs s)(this := (msgs s this)\<lparr>destination := want\<rparr>)"
    using c by (auto simp: t_def)
  have "kinv t qs \<longleftrightarrow> kinv s qs" unfolding t_def by (rule kinv_cong) auto
  moreover have uq: "unqueue t qs = unqueue s qs" using tp c by (auto simp: unqueue_def)
  ultimately obtain s' where s': "self_block t WAITING_MSG = Some s'" "kinv s' (unqueue s qs)"
      "c \<notin> queued (unqueue s qs)" "msgs s' = msgs t" "ready_processes s' = ready_processes t" "cur_proc s' \<noteq> c"
      "pcbs s' = (pcbs t)(c := (pcbs t c)\<lparr>status := WAITING_MSG\<rparr>, cur_proc s' := (pcbs t (cur_proc s'))\<lparr>status := RUNNING\<rparr>)"
    using self_block_unqueue [of t qs WAITING_MSG] inv ne tp by auto
  show ?thesis using s' rec tp by (intro exI [of _ s']) auto
qed

text \<open>A process that has left the queues can be woken again.\<close>

lemma unqueue_wakeable:
  assumes inv: "kinv s qs" and c: "c = cur_proc s"
    and s': "ready_processes s' = ready_processes s" "priority (pcbs s' c) = priority (pcbs s c)"
  shows "wakeable s' (unqueue s qs) c"
proof -
  have ok: "queues_ok s qs" and cq: "c \<in> queued qs" using inv c by (auto simp: kinv_def)
  note D = queues_okD [OF ok]
  let ?i = "prio_of s c"
  have i: "?i < PRIORITY_KIND" "c \<in> set (qs ! ?i)" "c \<noteq> 0" using queuedE [OF cq ok] by auto
  have "c \<notin> cl_nodes (rqueue s j) (unqueue s qs ! j)" if "j < PRIORITY_KIND" for j
  proof (cases "j = ?i")
    case True
    then show ?thesis
      using cl.nodes_remove [OF D(4) [OF i(1)] i(2)] D(1) i(1) c by (simp add: unqueue_def)
  next
    case False
    then have "cl_nodes (rqueue s j) (qs ! j) \<inter> cl_nodes (rqueue s ?i) (qs ! ?i) = {}"
      using D(6) [OF that i(1)] by simp
    then show ?thesis using False i(2) c by (auto simp: unqueue_def cl_nodes_def)
  qed
  then show ?thesis using i s' by (simp add: wakeable_def queue_nodes_def)
qed

lemma remove_after_append_mono:
  assumes "i < length qs"
  shows "set (qs[j := remove1 c (qs ! j)] ! i)
    \<subseteq> set (qs[k := qs ! k @ [d], j := remove1 c (qs[k := qs ! k @ [d]] ! j)] ! i)"
  using assms by (cases "j = i"; cases "k = i") (auto simp: remove1_append remove1_idem)

lemma unqueue_cong:
  "cur_proc s' = cur_proc s \<Longrightarrow> priority (pcbs s' (cur_proc s)) = priority (pcbs s (cur_proc s)) \<Longrightarrow>
   unqueue s' qs = unqueue s qs"
  by (simp add: unqueue_def)

section \<open>Properties\<close>

text \<open>C5: a message sent to a process that waits for it (for any message, for this sender, or
  when the message is a reply) is delivered at once: the waiting process's message object
  gets the type and the context of the sent message and the sender's address, no other
  message changes, the process is appended to the ready queue of its priority, and the sender
  goes on running.\<close>

theorem send_delivers_to_waiting:
  assumes "kinv s qs" and "wakeable s qs dst"
    and "accepts s dst (source (msgs s this)) (mtype (msgs s this))"
    and "source (msgs s this) \<noteq> INTERRUPT_NET"
  shows "\<exists>s'. ipc_send s this dst = Some s' \<and> kinv s' (wake s qs dst) \<and> cur_proc s' = cur_proc s
     \<and> status (pcbs s' dst) = READY
     \<and> msgs s' = (msgs s)(message (pcbs s dst) :=
          (msgs s (message (pcbs s dst)))\<lparr>mtype := mtype (msgs s this), mcontext := mcontext (msgs s this),
             destination := source (msgs s this)\<rparr>)"
  using send_accepted [OF assms] by fastforce

text \<open>C6: a send to a process that does not wait for the sender blocks the sender: it leaves
  the ready queues, its message is registered, and it becomes the first of the receiver's
  blocked senders.\<close>

theorem send_blocks_sender:
  assumes "kinv s qs" and "source (msgs s this) = cur_proc s" and "dst \<noteq> cur_proc s"
    and "\<not> accepts s dst (cur_proc s) (mtype (msgs s this))"
    and "cur_proc s \<notin> {INTERRUPT, INTERRUPT_NET}" and "unqueue s qs ! 4 \<noteq> []"
    and "chain (pcbs s) (sendings (pcbs s dst)) xs" and "cur_proc s \<notin> set xs"
  shows "\<exists>s'. ipc_send s this dst = Some s' \<and> kinv s' (unqueue s qs)
     \<and> cur_proc s \<notin> queued (unqueue s qs) \<and> status (pcbs s' (cur_proc s)) = SENDING_MSG
     \<and> message (pcbs s' (cur_proc s)) = this \<and> msgs s' = msgs s
     \<and> chain (pcbs s') (sendings (pcbs s' dst)) (cur_proc s # xs)"
proof -
  let ?c = "cur_proc s"
  obtain s' where s': "ipc_send s this dst = Some s'" "kinv s' (unqueue s qs)" "?c \<notin> queued (unqueue s qs)"
      "msgs s' = msgs s"
      "pcbs s' ?c = (pcbs s ?c)\<lparr>message := this, next_ready := sendings (pcbs s dst), status := SENDING_MSG\<rparr>"
      "sendings (pcbs s' dst) = ?c" "\<forall>p. p \<noteq> ?c \<longrightarrow> next_ready (pcbs s' p) = next_ready (pcbs s p)"
    using send_refused [OF assms(1) refl assms(2,4,5,6,3)] by auto
  have "?c \<noteq> 0" using queuedE(3) [of ?c qs s] assms(1) by (simp add: kinv_def)
  moreover have "chain (pcbs s') (sendings (pcbs s dst)) xs"
    using assms(7,8) s'(7) chain_cong [of xs "pcbs s'" "pcbs s"] by metis
  ultimately show ?thesis using s' by (intro exI [of _ s']) simp
qed

text \<open>C7: a receive for any message, or for the most recent blocked sender, takes the
  message of the most recent blocked sender: the receiver's object gets its type, its context
  and its address, the sender is made ready, and the remaining senders stay in order.\<close>

theorem receive_takes_latest_sender:
  assumes "kinv s qs" and "chain (pcbs s) (sendings (pcbs s (source (msgs s this)))) (x # xs)"
    and "distinct (source (msgs s this) # x # xs)"
    and "want = x \<or> want = ANY \<and> intr_cnt (pcbs s (source (msgs s this))) = 0"
    and "status (pcbs s x) = SENDING_MSG" and "wakeable s qs x"
  shows "\<exists>s'. ipc_receive s this want = Some s' \<and> kinv s' (wake s qs x) \<and> cur_proc s' = cur_proc s
     \<and> status (pcbs s' x) = READY \<and> chain (pcbs s') (sendings (pcbs s' (source (msgs s this)))) xs
     \<and> msgs s' = (msgs s)(this := (msgs s this)\<lparr>mtype := mtype (msgs s (message (pcbs s x))),
            mcontext := mcontext (msgs s (message (pcbs s x))), destination := x\<rparr>)"
  using receive_first [OF assms(1) refl assms(2) _ _ assms(4-6)] assms(3) by auto

text \<open>A reply to a process that waits for the server arrives.\<close>

lemma reply_delivers:
  assumes "kinv u qs" and "wakeable u qs c" and "status (pcbs u c) = WAITING_MSG" and "message (pcbs u c) = m"
    and "destination (msgs u m) = d" and "source (msgs u r) = d" and "destination (msgs u r) = c" and "d \<noteq> INTERRUPT_NET"
  shows "\<exists>s2 qs2. ipc_reply u r = Some s2 \<and> kinv s2 qs2 \<and> mtype (msgs s2 m) = mtype (msgs u r)
    \<and> mcontext (msgs s2 m) = mcontext (msgs u r) \<and> status (pcbs s2 c) = READY"
proof -
  have "accepts u c (source (msgs u r)) (mtype (msgs u r))" using assms(3-6) by (simp add: accepts_def)
  from send_accepted [OF assms(1,2) this] show ?thesis using assms by (auto simp: ipc_reply_def)
qed

text \<open>C3: a remote call works. The client calls a server that waits for any message with the
  combined send and receive: the server's message object holds the request and the client
  waits for the server. Whatever answer the server then writes into its object and replies
  with arrives in the client's message object, and the client is ready again.\<close>

theorem rpc_round_trip:
  assumes inv: "kinv s qs" and ne: "unqueue s qs ! 4 \<noteq> []"
    and client: "c = cur_proc s" "source (msgs s m) \<in> {0, c}" "sendings (pcbs s c) = 0"
      "c \<noteq> INTERRUPT_NET"
    and server: "wakeable s qs d" "status (pcbs s d) = WAITING_MSG" "message (pcbs s d) = r"
      "destination (msgs s r) = ANY" "source (msgs s r) = d" "d \<noteq> c" "d \<noteq> INTERRUPT_NET" "r \<noteq> m"
  shows "\<exists>s1 qs1. syscall_handler s ipc_SEND_RECV m d c = Some (s1, False) \<and> kinv s1 qs1
     \<and> mtype (msgs s1 r) = mtype (msgs s m) \<and> mcontext (msgs s1 r) = mcontext (msgs s m)
     \<and> status (pcbs s1 c) = WAITING_MSG
     \<and> (\<forall>ty con. \<exists>s2 qs2. ipc_reply (reset_message s1 r ty con) r = Some s2 \<and> kinv s2 qs2
          \<and> mtype (msgs s2 m) = ty \<and> mcontext (msgs s2 m) = con \<and> status (pcbs s2 c) = READY)"
proof -
  define s0 where "s0 = (if source (msgs s m) = 0 then upd_msg s m (\<lambda>x. x\<lparr>source := c\<rparr>) else s)"
  have c0: "c \<noteq> 0" using inv queuedE(3) [of c qs s] client(1) by (simp add: kinv_def)
  have S: "pcbs s0 = pcbs s" "cur_proc s0 = c" "ready_processes s0 = ready_processes s" "kinv s0 qs"
      "source (msgs s0 m) = c" "mtype (msgs s0 m) = mtype (msgs s m)" "mcontext (msgs s0 m) = mcontext (msgs s m)"
      "msgs s0 r = msgs s r"
    using inv client server(8) by (auto simp: s0_def)
  have w: "wakeable s0 qs d" and wq: "wake s0 qs d = wake s qs d"
    using server(1) S by (auto simp: wakeable_def wake_def queue_nodes_cong [of s0 s])
  have acc: "accepts s0 d (source (msgs s0 m)) (mtype (msgs s0 m))" "source (msgs s0 m) \<noteq> INTERRUPT_NET"
    using server S client(4) by (auto simp: accepts_def)
  obtain t where t: "ipc_send s0 m d = Some t" "kinv t (wake s qs d)" "cur_proc t = c"
      "ready_processes t = ready_processes s" "pcbs t = (pcbs s)(d := (pcbs s d)\<lparr>status := READY\<rparr>)"
      "msgs t = (msgs s0)(r := (msgs s r)\<lparr>mtype := mtype (msgs s m), mcontext := mcontext (msgs s m), destination := c\<rparr>)"
    using send_accepted [OF S(4) w acc] by (auto simp: S server(3) wq)
  let ?qs = "unqueue t (wake s qs d)"
  have ln: "length qs = PRIORITY_KIND" using inv by (simp add: kinv_def queues_ok_def)
  have "set (unqueue s qs ! 4) \<subseteq> set (?qs ! 4)"
    using remove_after_append_mono [of 4 qs "prio_of s c" c "prio_of s d" d] t(3,5) client(1) server(6) ln
    by (simp add: unqueue_def wake_def)
  then have ne': "?qs ! 4 \<noteq> []" using ne by auto
  have d0: "d \<noteq> ANY" using server(1) by (simp add: wakeable_def ANY_def)
  have tm: "source (msgs t m) = c" using t(6) S(5) server(8) by simp
  obtain s1 where s1: "ipc_receive t m d = Some s1" "kinv s1 ?qs" "cur_proc s1 \<noteq> c"
      "ready_processes s1 = ready_processes s"
      "pcbs s1 = (pcbs t)(c := (pcbs t c)\<lparr>message := m, status := WAITING_MSG\<rparr>,
          cur_proc s1 := (pcbs t (cur_proc s1))\<lparr>status := RUNNING\<rparr>)"
      "msgs s1 = (msgs t)(m := (msgs t m)\<lparr>destination := d\<rparr>)"
    using receive_blocks [OF t(2) t(3) [symmetric] tm _ _ ne', of d] t client(3) server(6) d0 by auto
  have call: "syscall_handler s ipc_SEND_RECV m d c = Some (s1, False)"
    using t s1 S(2) s0_def by (simp add: syscall_handler_def ipc_SEND_def ipc_RECV_def ipc_SEND_RECV_def Let_def)
  have pc: "pcbs s1 c = (pcbs t c)\<lparr>message := m, status := WAITING_MSG\<rparr>" using s1(3,5) by simp
  have reply: "\<exists>s2 qs2. ipc_reply (reset_message s1 r ty con) r = Some s2 \<and> kinv s2 qs2
          \<and> mtype (msgs s2 m) = ty \<and> mcontext (msgs s2 m) = con \<and> status (pcbs s2 c) = READY" for ty con
  proof -
    let ?u = "reset_message s1 r ty con"
    have u: "kinv ?u ?qs" "pcbs ?u = pcbs s1" "ready_processes ?u = ready_processes s"
        "msgs ?u m = (msgs t m)\<lparr>destination := d\<rparr>"
        "msgs ?u r = (msgs t r)\<lparr>mtype := ty, mcontext := con\<rparr>"
      using s1 server(8) by (auto simp: reset_message_def)
    have "wakeable ?u ?qs c" using unqueue_wakeable [OF t(2) t(3) [symmetric], of ?u] u(2,3) t(4) pc by simp
    from reply_delivers [OF u(1) this, of m d r] show ?thesis using u pc t(6) server by auto
  qed
  show ?thesis
    using call s1(2,6) t(6) server(8) pc reply by (intro exI [of _ s1] exI [of _ ?qs]) auto
qed

section \<open>Witnesses\<close>

text \<open>After booting, with a server at \<open>0x97000\<close> that waits for any message in the object
  at \<open>8\<close>.\<close>

definition waiting_server :: pcb where
  "waiting_server = zero_pcb\<lparr>status := WAITING_MSG, message := 8\<rparr>"

definition server_msgs :: "u32 \<Rightarrow> message" where
  "server_msgs = (\<lambda>_. zero_message)(8 := zero_message\<lparr>source := 0x97000\<rparr>, 16 := zero_message\<lparr>mtype := 5\<rparr>)"

lemma server_example:
  "\<exists>s. kinv s boot_queues \<and> cur_proc s = init_proc_addr \<and> prio_of s init_proc_addr = 4
    \<and> pcbs s 0x97000 = waiting_server \<and> msgs s = server_msgs \<and> sendings (pcbs s init_proc_addr) = 0
    \<and> wakeable s boot_queues 0x97000 \<and> unqueue s boot_queues ! 4 = [IDLE_PCB]"
proof -
  obtain s where s: "kinv s boot_queues" "cur_proc s = init_proc_addr" "ready_processes s = ready_processes zero_kstate"
    using booted_kinv by blast
  let ?t = "s\<lparr>pcbs := (\<lambda>p. (pcbs s p)\<lparr>sendings := 0\<rparr>)(0x97000 := waiting_server), msgs := server_msgs\<rparr>"
  have nq: "0x97000 \<notin> queued boot_queues" by (simp add: boot_queues_def queued_five pcb_addrs)
  have "kinv ?t boot_queues \<longleftrightarrow> kinv s boot_queues" using nq by (intro kinv_cong) auto
  then have k: "kinv ?t boot_queues" using s(1) by simp
  have pr: "prio_of ?t init_proc_addr = 4" using booted_prio [OF k] s(2) by simp
  have "0x97000 \<notin> queue_nodes ?t boot_queues"
    using nq s(3) by (intro queue_nodes_starts [OF k]) (simp_all add: zero_kstate_def queue_objs_def)
  then have "wakeable ?t boot_queues 0x97000" by (simp add: wakeable_def waiting_server_def zero_pcb_def)
  moreover have "unqueue ?t boot_queues ! 4 = [IDLE_PCB]"
    using pr s(2) by (simp add: unqueue_def) (simp add: boot_queues_def)
  ultimately show ?thesis using k pr s(2) by (intro exI [of _ ?t]) (simp add: init_proc_addr_def)
qed

theorem rpc_round_trip_witness:
  "\<exists>s s1. cur_proc s = init_proc_addr
     \<and> syscall_handler s ipc_SEND_RECV 16 0x97000 init_proc_addr = Some (s1, False)
     \<and> mtype (msgs s1 8) = 5
     \<and> (\<exists>s2. ipc_reply (reset_message s1 8 7 (mcontext zero_message)) 8 = Some s2 \<and> mtype (msgs s2 16) = 7)"
proof -
  obtain s where s: "kinv s boot_queues" "cur_proc s = init_proc_addr" "prio_of s init_proc_addr = 4"
      "pcbs s 0x97000 = waiting_server" "msgs s = server_msgs" "sendings (pcbs s init_proc_addr) = 0"
      "wakeable s boot_queues 0x97000" "unqueue s boot_queues ! 4 = [IDLE_PCB]"
    using server_example by blast
  have ob: "source (msgs s 16) = 0" "source (msgs s 8) = 0x97000" "destination (msgs s 8) = ANY" "mtype (msgs s 16) = 5"
    using s(5) by (simp_all add: server_msgs_def zero_message_def ANY_def)
  have sv: "status (pcbs s 0x97000) = WAITING_MSG" "message (pcbs s 0x97000) = 8"
    using s(4) by (simp_all add: waiting_server_def)
  have pre: "unqueue s boot_queues ! 4 \<noteq> []" "init_proc_addr = cur_proc s" "source (msgs s 16) \<in> {0, init_proc_addr}"
      "init_proc_addr \<noteq> INTERRUPT_NET" "0x97000 \<noteq> init_proc_addr" "0x97000 \<noteq> INTERRUPT_NET" "8 \<noteq> (16 :: u32)"
    using s ob by (simp_all add: pcb_addrs)
  from rpc_round_trip [OF s(1) pre(1-3) s(6) pre(4) s(7) sv ob(3,2) pre(5-7)] show ?thesis
    using s(2) ob(4) by metis
qed

theorem send_delivers_to_waiting_witness:
  "\<exists>s s'. kinv s boot_queues \<and> ipc_send s 16 0x97000 = Some s' \<and> mtype (msgs s' 8) = 5"
proof -
  obtain s where s: "kinv s boot_queues" "pcbs s 0x97000 = waiting_server" "msgs s = server_msgs"
      "wakeable s boot_queues 0x97000"
    using server_example by blast
  have a: "accepts s 0x97000 (source (msgs s 16)) (mtype (msgs s 16))" "source (msgs s 16) \<noteq> INTERRUPT_NET"
    "message (pcbs s 0x97000) = 8" "mtype (msgs s 16) = 5"
    using s(2,3) by (simp_all add: accepts_def waiting_server_def server_msgs_def zero_message_def ANY_def INTERRUPT_NET_def)
  from send_delivers_to_waiting [OF s(1,4) a(1,2)] show ?thesis using s(1) a(3,4) by auto
qed

text \<open>The init process sends to the idle process, which does not wait; when a receive for any
  message is then made with an object of the idle process, it gets that message.\<close>

lemma pending_example:
  "\<exists>s qs x. kinv s qs \<and> x = init_proc_addr \<and> status (pcbs s x) = SENDING_MSG \<and> wakeable s qs x
    \<and> chain (pcbs s) (sendings (pcbs s IDLE_PCB)) [x] \<and> message (pcbs s x) = 24
    \<and> source (msgs s 32) = IDLE_PCB \<and> mtype (msgs s 24) = 9 \<and> intr_cnt (pcbs s IDLE_PCB) = 0
    \<and> (\<exists>t. kinv t boot_queues \<and> ipc_send t 24 IDLE_PCB = Some s \<and> msgs s = msgs t)"
proof -
  obtain s where s: "kinv s boot_queues" "cur_proc s = init_proc_addr" "unqueue s boot_queues ! 4 = [IDLE_PCB]"
    using server_example by blast
  let ?t = "s\<lparr>pcbs := (\<lambda>p. (pcbs s p)\<lparr>sendings := 0, intr_cnt := 0\<rparr>),
     msgs := (\<lambda>_. zero_message)(24 := zero_message\<lparr>source := init_proc_addr, mtype := 9\<rparr>,
        32 := zero_message\<lparr>source := IDLE_PCB\<rparr>)\<rparr>"
  have "kinv ?t boot_queues \<longleftrightarrow> kinv s boot_queues" by (intro kinv_cong) auto
  then have k: "kinv ?t boot_queues" using s(1) by simp
  have ct: "init_proc_addr = cur_proc ?t" "source (msgs ?t 24) = init_proc_addr" using s(2) by simp_all
  have uq: "unqueue ?t boot_queues = unqueue s boot_queues" by (rule unqueue_cong) auto
  have ne: "IDLE_PCB \<noteq> init_proc_addr" by (simp add: pcb_addrs)
  have "IDLE_PCB \<in> queued boot_queues" by (simp add: boot_queues_def queued_five)
  then have "status (pcbs ?t IDLE_PCB) = READY" using k ne s(2) unfolding kinv_def by simp
  then have na: "\<not> accepts ?t IDLE_PCB init_proc_addr (mtype (msgs ?t 24))"
    unfolding accepts_def by simp
  have nx: "init_proc_addr \<notin> {INTERRUPT, INTERRUPT_NET}" "unqueue ?t boot_queues ! 4 \<noteq> []"
    using s(3) uq by (simp_all add: pcb_addrs)
  obtain s' where s': "ipc_send ?t 24 IDLE_PCB = Some s'" "kinv s' (unqueue ?t boot_queues)" "msgs s' = msgs ?t"
      "ready_processes s' = ready_processes ?t"
      "pcbs s' init_proc_addr = (pcbs ?t init_proc_addr)\<lparr>message := 24,
         next_ready := sendings (pcbs ?t IDLE_PCB), status := SENDING_MSG\<rparr>"
      "sendings (pcbs s' IDLE_PCB) = init_proc_addr" "intr_cnt (pcbs s' IDLE_PCB) = intr_cnt (pcbs ?t IDLE_PCB)"
    using send_refused [OF k ct na nx ne] by blast
  have w: "wakeable s' (unqueue ?t boot_queues) init_proc_addr"
    using unqueue_wakeable [OF k ct(1) s'(4)] s'(5) by simp
  have "(24 :: u32) \<noteq> 32" by simp
  then show ?thesis
    using s' w k by (intro exI [of _ s'] exI [of _ "unqueue ?t boot_queues"] exI [of _ init_proc_addr])
      (auto simp: init_proc_addr_def)
qed

theorem receive_takes_latest_sender_witness:
  "\<exists>s s'. ipc_receive s 32 ANY = Some s' \<and> mtype (msgs s' 32) = 9
     \<and> destination (msgs s' 32) = init_proc_addr \<and> status (pcbs s' init_proc_addr) = READY"
proof -
  obtain s qs where s: "kinv s qs" "status (pcbs s init_proc_addr) = SENDING_MSG" "wakeable s qs init_proc_addr"
      "chain (pcbs s) (sendings (pcbs s IDLE_PCB)) [init_proc_addr]" "message (pcbs s init_proc_addr) = 24"
      "source (msgs s 32) = IDLE_PCB" "mtype (msgs s 24) = 9" "intr_cnt (pcbs s IDLE_PCB) = 0"
    using pending_example by blast
  have "distinct [IDLE_PCB, init_proc_addr]" by (simp add: pcb_addrs)
  then obtain s' where "ipc_receive s 32 ANY = Some s'" "status (pcbs s' init_proc_addr) = READY"
      "msgs s' = (msgs s)(32 := (msgs s 32)\<lparr>mtype := mtype (msgs s (message (pcbs s init_proc_addr))),
         mcontext := mcontext (msgs s (message (pcbs s init_proc_addr))), destination := init_proc_addr\<rparr>)"
    using receive_takes_latest_sender [OF s(1), of 32 init_proc_addr "[]" ANY] s by auto
  then show ?thesis using s(5,7) by (intro exI [of _ s] exI [of _ s']) simp
qed

theorem send_blocks_sender_witness:
  "\<exists>s s'. kinv s boot_queues \<and> ipc_send s 16 IDLE_PCB = Some s'
     \<and> status (pcbs s' init_proc_addr) = SENDING_MSG \<and> sendings (pcbs s' IDLE_PCB) = init_proc_addr"
proof -
  obtain s where s: "kinv s boot_queues" "cur_proc s = init_proc_addr" "unqueue s boot_queues ! 4 = [IDLE_PCB]"
    using server_example by blast
  let ?t = "s\<lparr>pcbs := (\<lambda>p. (pcbs s p)\<lparr>sendings := 0\<rparr>), msgs := (\<lambda>_. zero_message\<lparr>source := init_proc_addr\<rparr>)\<rparr>"
  have "kinv ?t boot_queues \<longleftrightarrow> kinv s boot_queues" by (intro kinv_cong) auto
  then have k: "kinv ?t boot_queues" using s(1) by simp
  have ct: "source (msgs ?t 16) = cur_proc ?t" "IDLE_PCB \<noteq> cur_proc ?t" using s(2) by (simp_all add: pcb_addrs)
  have uq: "unqueue ?t boot_queues = unqueue s boot_queues" by (rule unqueue_cong) auto
  have "IDLE_PCB \<in> queued boot_queues" by (simp add: boot_queues_def queued_five)
  then have "status (pcbs ?t IDLE_PCB) = READY" using k ct(2) unfolding kinv_def by simp
  then have na: "\<not> accepts ?t IDLE_PCB (cur_proc ?t) (mtype (msgs ?t 16))"
    unfolding accepts_def by simp
  have nx: "cur_proc ?t \<notin> {INTERRUPT, INTERRUPT_NET}" "unqueue ?t boot_queues ! 4 \<noteq> []"
      "chain (pcbs ?t) (sendings (pcbs ?t IDLE_PCB)) []"
    using s(2,3) uq by (simp_all add: pcb_addrs)
  from send_blocks_sender [OF k ct na nx] have "\<exists>s'. ipc_send ?t 16 IDLE_PCB = Some s'
     \<and> status (pcbs s' init_proc_addr) = SENDING_MSG \<and> sendings (pcbs s' IDLE_PCB) = init_proc_addr"
    using s(2) by auto
  then show ?thesis using k by blast
qed

end
