(* ===== verification/Packet.thy ===== *)
theory Packet
  imports Byte_Codec
begin

text \<open>
  Model of the packets of the network server: byte order (\<open>net/byte_order.cc\<close>), the Internet
  checksum and the IPv4 header (\<open>net/ip.cc\<close>), Ethernet frames (\<open>net/ethernet.cc\<close>), ARP packets
  (\<open>ArpFactory\<close> of \<open>net/arp.cc\<close>), ICMP (\<open>net/icmp.cc\<close>), UDP (\<open>net/udp.cc\<close>) and DNS
  (\<open>net/dns.cc\<close>).

  A header is a record with the fields of the C++ structure and the bytes that it takes in
  memory; formatting a packet stores these bytes into the buffer at the offset where the
  pointer points to. Bit fields share a byte. A buffer from \<open>malloc\<close> is cleared. The functions
  that send a packet return the frame that goes to the driver.

  The theory shows that encoded headers are decoded to themselves, that the checksum that is
  stored in a header makes the checksum of the whole header zero, which is how receivers verify
  it, and that the name in a DNS query is the standard encoding of its labels.
\<close>

section \<open>Byte order\<close>

definition swap_word :: "u16 \<Rightarrow> u16" where
  "swap_word word = push_bit 8 (word AND 0xff) OR drop_bit 8 word"

definition swap_double_word :: "u32 \<Rightarrow> u32" where
  "swap_double_word dw = push_bit 24 (dw AND 0xff) OR push_bit 8 (dw AND 0xff00)
     OR drop_bit 8 (dw AND 0xff0000) OR drop_bit 24 (dw AND 0xff000000)"

section \<open>Buffers\<close>

definition read_bytes :: "u8 list \<Rightarrow> nat \<Rightarrow> nat \<Rightarrow> u8 list option" where
  "read_bytes bs p n = (if p + n \<le> length bs then Some (take n (drop p bs)) else None)"

definition store_bytes :: "u8 list \<Rightarrow> nat \<Rightarrow> u8 list \<Rightarrow> u8 list option" where
  "store_bytes bs p v = (if p + length v \<le> length bs then Some (put bs p v) else None)"

definition load16 :: "u8 list \<Rightarrow> nat \<Rightarrow> u16 option" where
  "load16 bs p = (if p + 2 \<le> length bs then Some (dec16 (drop p bs)) else None)"

section \<open>Checksum\<close>

text \<open>The loop of \<open>generate_checksum\<close> and the last byte of an odd length, for which a whole
  word is read.\<close>

fun checksum_loop :: "u8 list \<Rightarrow> nat \<Rightarrow> nat \<Rightarrow> u32 \<Rightarrow> u32 option" where
  "checksum_loop bs p len checksum =
     (if 1 < len then do {
        w \<leftarrow> load16 bs p;
        checksum_loop bs (p + 2) (len - 2) (checksum + ucast w) }
      else if len = 1 then do {
        w \<leftarrow> load16 bs p;
        Some (checksum + ucast w) }
      else Some checksum)"

declare checksum_loop.simps [simp del]

definition fold_checksum :: "u32 \<Rightarrow> u16" where
  "fold_checksum c =
     (let c1 = drop_bit 16 c + (c AND 0xffff);
          c2 = c1 + drop_bit 16 c1
      in ucast (NOT c2))"

definition generate_checksum :: "u8 list \<Rightarrow> nat \<Rightarrow> nat \<Rightarrow> u16 option" where
  "generate_checksum pkt p len = map_option fold_checksum (checksum_loop pkt p len 0)"

section \<open>Ethernet\<close>

record eth_packet =
  eth_dst :: "u8 list"
  eth_src :: "u8 list"
  eth_proto :: u16

definition encode_eth :: "eth_packet \<Rightarrow> u8 list" where
  "encode_eth h = eth_dst h @ eth_src h @ enc16 (eth_proto h)"

definition decode_eth :: "u8 list \<Rightarrow> eth_packet" where
  "decode_eth bs = \<lparr>eth_dst = take 6 bs, eth_src = take 6 (drop 6 bs), eth_proto = dec16 (drop 12 bs)\<rparr>"

abbreviation (input) eth_size :: nat where "eth_size \<equiv> 14"
abbreviation (input) next_is_arp :: u16 where "next_is_arp \<equiv> 0x0806"
abbreviation (input) next_is_ip :: u16 where "next_is_ip \<equiv> 0x0800"

definition eth_format :: "u8 list \<Rightarrow> nat \<Rightarrow> u8 list \<Rightarrow> u8 list \<Rightarrow> u16 \<Rightarrow> u8 list option" where
  "eth_format data p mac_addr target_mac_addr next_proto = do {
     src \<leftarrow> read_bytes mac_addr 0 6;
     dst \<leftarrow> read_bytes target_mac_addr 0 6;
     store_bytes data p (encode_eth \<lparr>eth_dst = dst, eth_src = src, eth_proto = swap_word next_proto\<rparr>) }"

section \<open>ARP\<close>

record arp_packet =
  hw_type :: u16
  req_protocol :: u16
  hw_addr_size :: u8
  protocol_size :: u8
  opcode :: u16
  arp_src_mac :: "u8 list"
  arp_src_ip :: "u8 list"
  arp_dst_mac :: "u8 list"
  arp_target_ip :: "u8 list"

definition encode_arp :: "arp_packet \<Rightarrow> u8 list" where
  "encode_arp h = enc16 (hw_type h) @ enc16 (req_protocol h) @ [hw_addr_size h, protocol_size h] @ enc16 (opcode h)
     @ arp_src_mac h @ arp_src_ip h @ arp_dst_mac h @ arp_target_ip h"

definition decode_arp :: "u8 list \<Rightarrow> arp_packet" where
  "decode_arp bs = \<lparr>hw_type = dec16 bs, req_protocol = dec16 (drop 2 bs), hw_addr_size = bs ! 4, protocol_size = bs ! 5,
     opcode = dec16 (drop 6 bs), arp_src_mac = take 6 (drop 8 bs), arp_src_ip = take 4 (drop 14 bs),
     arp_dst_mac = take 6 (drop 18 bs), arp_target_ip = take 4 (drop 24 bs)\<rparr>"

abbreviation (input) arp_size :: nat where "arp_size \<equiv> 28"
abbreviation (input) req_opcode :: u16 where "req_opcode \<equiv> 1"
abbreviation (input) rsp_opcode :: u16 where "rsp_opcode \<equiv> 2"

definition mac_broadcast :: "u8 list" where
  "mac_broadcast = replicate 6 0xff"

definition mac_zero :: "u8 list" where
  "mac_zero = replicate 6 0"

definition arp_format_request :: "u8 list \<Rightarrow> nat \<Rightarrow> u8 list \<Rightarrow> u8 list \<Rightarrow> u8 list \<Rightarrow> u8 list option" where
  "arp_format_request data p mac_addr ip_addr target_ip = do {
     mac \<leftarrow> read_bytes mac_addr 0 6;
     ip \<leftarrow> read_bytes ip_addr 0 4;
     target \<leftarrow> read_bytes target_ip 0 4;
     store_bytes data p (encode_arp \<lparr>hw_type = swap_word 1, req_protocol = swap_word 0x0800, hw_addr_size = 6, protocol_size = 4,
       opcode = swap_word req_opcode, arp_src_mac = mac, arp_src_ip = ip, arp_dst_mac = replicate 6 0, arp_target_ip = target\<rparr>) }"

definition arp_request :: "u8 list \<Rightarrow> u8 list \<Rightarrow> u8 list \<Rightarrow> u8 list option" where
  "arp_request mac_addr ip_addr target_ip = do {
     d \<leftarrow> eth_format (replicate (eth_size + arp_size) 0) 0 mac_addr mac_broadcast next_is_arp;
     arp_format_request d eth_size mac_addr ip_addr target_ip }"

definition arp_format_reply :: "u8 list \<Rightarrow> nat \<Rightarrow> u8 list \<Rightarrow> u8 list \<Rightarrow> u8 list \<Rightarrow> u8 list \<Rightarrow> u8 list option" where
  "arp_format_reply data p mac_addr ip_addr res_mac_addr req_ip = do {
     mac \<leftarrow> read_bytes mac_addr 0 6;
     res \<leftarrow> read_bytes res_mac_addr 0 6;
     ip \<leftarrow> read_bytes ip_addr 0 4;
     target \<leftarrow> read_bytes req_ip 0 4;
     store_bytes data p (encode_arp \<lparr>hw_type = swap_word 1, req_protocol = swap_word 0x0800, hw_addr_size = 6, protocol_size = 4,
       opcode = swap_word rsp_opcode, arp_src_mac = mac, arp_src_ip = ip, arp_dst_mac = res, arp_target_ip = target\<rparr>) }"

definition arp_reply :: "u8 list \<Rightarrow> u8 list \<Rightarrow> u8 list \<Rightarrow> u8 list \<Rightarrow> u8 list \<Rightarrow> u8 list option" where
  "arp_reply mac_addr ip_addr src_mac_addr res_mac_addr req_ip = do {
     d \<leftarrow> eth_format (replicate (eth_size + arp_size) 0) 0 mac_addr src_mac_addr next_is_arp;
     arp_format_reply d eth_size mac_addr ip_addr res_mac_addr req_ip }"

section \<open>IPv4\<close>

record ip_packet =
  header_len :: "4 word"
  version :: "4 word"
  diff_services :: u8
  total_len :: u16
  identification :: u16
  ip_flags :: u16
  ttl :: u8
  next_protocol :: u8
  header_checksum :: u16
  src_ip :: "u8 list"
  dst_ip :: "u8 list"

definition encode_ip :: "ip_packet \<Rightarrow> u8 list" where
  "encode_ip h = [ucast (header_len h) OR push_bit 4 (ucast (version h)), diff_services h] @ enc16 (total_len h)
     @ enc16 (identification h) @ enc16 (ip_flags h) @ [ttl h, next_protocol h] @ enc16 (header_checksum h)
     @ src_ip h @ dst_ip h"

definition decode_ip :: "u8 list \<Rightarrow> ip_packet" where
  "decode_ip bs = \<lparr>header_len = ucast (bs ! 0), version = ucast (drop_bit 4 (bs ! 0)), diff_services = bs ! 1,
     total_len = dec16 (drop 2 bs), identification = dec16 (drop 4 bs), ip_flags = dec16 (drop 6 bs), ttl = bs ! 8,
     next_protocol = bs ! 9, header_checksum = dec16 (drop 10 bs), src_ip = take 4 (drop 12 bs), dst_ip = take 4 (drop 16 bs)\<rparr>"

abbreviation (input) ip_size :: nat where "ip_size \<equiv> 20"

text \<open>The static counter \<open>identifier\<close> is counted up but not used.\<close>

definition ip_format :: "u8 list \<Rightarrow> nat \<Rightarrow> u8 list \<Rightarrow> u8 list \<Rightarrow> u8 \<Rightarrow> u16 \<Rightarrow> u8 list option" where
  "ip_format data p ip_addr target_ip next_proto tlen = do {
     src \<leftarrow> read_bytes ip_addr 0 4;
     dst \<leftarrow> read_bytes target_ip 0 4;
     let h = \<lparr>header_len = 5, version = 4, diff_services = 0, total_len = swap_word tlen, identification = swap_word 0x4455,
       ip_flags = swap_word 0x4000, ttl = 64, next_protocol = next_proto, header_checksum = 0, src_ip = src, dst_ip = dst\<rparr>;
     d \<leftarrow> store_bytes data p (encode_ip h);
     c \<leftarrow> generate_checksum d p (unat (header_len h) * 4);
     store_bytes d p (encode_ip (h\<lparr>header_checksum := c\<rparr>)) }"

section \<open>ICMP\<close>

record icmp_packet =
  icmp_type :: u8
  code :: u8
  icmp_checksum :: u16
  icmp_ident :: u16
  sequence_num :: u16
  timestamp :: "u8 list"
  icmp_data :: "u8 list"

definition encode_icmp :: "icmp_packet \<Rightarrow> u8 list" where
  "encode_icmp h = [icmp_type h, code h] @ enc16 (icmp_checksum h) @ enc16 (icmp_ident h) @ enc16 (sequence_num h)
     @ timestamp h @ icmp_data h"

definition decode_icmp :: "u8 list \<Rightarrow> icmp_packet" where
  "decode_icmp bs = \<lparr>icmp_type = bs ! 0, code = bs ! 1, icmp_checksum = dec16 (drop 2 bs), icmp_ident = dec16 (drop 4 bs),
     sequence_num = dec16 (drop 6 bs), timestamp = take 8 (drop 8 bs), icmp_data = take 48 (drop 16 bs)\<rparr>"

abbreviation (input) icmp_size :: nat where "icmp_size \<equiv> 64"
abbreviation (input) ICMP_REQUEST :: u8 where "ICMP_REQUEST \<equiv> 8"
abbreviation (input) ICMP_REPLY :: u8 where "ICMP_REPLY \<equiv> 0"

text \<open>The loop that fills the data stops one byte before the end of the array.\<close>

definition icmp_fill :: "u8 list" where
  "icmp_fill = [0x33, 0x2b, 0x04, 0, 0, 0, 0, 0] @ map of_nat [0x10 ..< 0x37]"

definition icmp_format :: "u8 list \<Rightarrow> nat \<Rightarrow> u8 \<Rightarrow> u8 list option" where
  "icmp_format data p type = do {
     old \<leftarrow> read_bytes data p icmp_size;
     let h = \<lparr>icmp_type = type, code = 0, icmp_checksum = 0, icmp_ident = 0, sequence_num = 0, timestamp = replicate 8 0,
       icmp_data = icmp_fill @ drop 47 (icmp_data (decode_icmp old))\<rparr>;
     d \<leftarrow> store_bytes data p (encode_icmp h);
     c \<leftarrow> generate_checksum d p icmp_size;
     store_bytes d p (encode_icmp (h\<lparr>icmp_checksum := c\<rparr>)) }"

text \<open>\<open>request\<close> and \<open>reply\<close> differ in the type.\<close>

definition icmp_send :: "u8 \<Rightarrow> u8 list \<Rightarrow> u8 list \<Rightarrow> u8 list \<Rightarrow> u8 list \<Rightarrow> u8 list option" where
  "icmp_send type mac_addr ip_addr target_ip target_mac_addr = do {
     d1 \<leftarrow> eth_format (replicate (eth_size + ip_size + icmp_size) 0) 0 mac_addr target_mac_addr next_is_ip;
     d2 \<leftarrow> ip_format d1 eth_size ip_addr target_ip 1 (of_nat (ip_size + icmp_size));
     icmp_format d2 (eth_size + ip_size) type }"

definition icmp_request :: "u8 list \<Rightarrow> u8 list \<Rightarrow> u8 list \<Rightarrow> u8 list \<Rightarrow> u8 list option" where
  "icmp_request mac_addr ip_addr target_ip target_mac_addr = icmp_send ICMP_REQUEST mac_addr ip_addr target_ip target_mac_addr"

definition icmp_reply :: "u8 list \<Rightarrow> u8 list \<Rightarrow> u8 list \<Rightarrow> u8 list \<Rightarrow> u8 list option" where
  "icmp_reply mac_addr ip_addr target_ip target_mac_addr = icmp_send ICMP_REPLY mac_addr ip_addr target_ip target_mac_addr"

section \<open>UDP\<close>

record udp_header =
  udp_src_port :: u16
  udp_dst_port :: u16
  udp_length :: u16
  udp_checksum :: u16

definition encode_udp :: "udp_header \<Rightarrow> u8 list" where
  "encode_udp h = enc16 (udp_src_port h) @ enc16 (udp_dst_port h) @ enc16 (udp_length h) @ enc16 (udp_checksum h)"

abbreviation (input) udp_size :: nat where "udp_size \<equiv> 8"

text \<open>The static counter of \<open>allocate_port\<close>.\<close>

definition allocate_port :: "u16 \<Rightarrow> u16 \<times> u16" where
  "allocate_port port = (port + 1, port + 1)"

definition init_udp_header :: "u16 \<Rightarrow> u8 list \<Rightarrow> nat \<Rightarrow> u16 \<Rightarrow> u16 \<Rightarrow> (u16 \<times> u8 list) option" where
  "init_udp_header ports data p dst_port len = do {
     let (port, ports1) = allocate_port ports;
     let h = \<lparr>udp_src_port = swap_word port, udp_dst_port = swap_word dst_port, udp_length = swap_word len, udp_checksum = 0\<rparr>;
     d \<leftarrow> store_bytes data p (encode_udp h);
     c \<leftarrow> generate_checksum d p (unat len);
     d1 \<leftarrow> store_bytes d p (encode_udp (h\<lparr>udp_checksum := c\<rparr>));
     Some (ports1, d1) }"

definition send_udp :: "u16 \<Rightarrow> u8 list \<Rightarrow> u8 list \<Rightarrow> u16 \<Rightarrow> u16 \<Rightarrow> u8 list \<Rightarrow> u8 list \<Rightarrow> (u16 \<times> u8 list) option" where
  "send_udp ports mac_addr ip_addr dst_port len target_mac_addr target_ip = do {
     d1 \<leftarrow> eth_format (replicate (eth_size + ip_size + udp_size) 0) 0 mac_addr target_mac_addr next_is_ip;
     d2 \<leftarrow> ip_format d1 eth_size ip_addr target_ip 0x11 (of_nat (ip_size + udp_size));
     init_udp_header ports d2 (eth_size + ip_size) dst_port len }"

record udp_socket =
  us_src_port :: u16
  us_src_ip :: "u8 list"
  us_dst_port :: u16
  us_dst_ip :: "u8 list"

definition udp_connect :: "u8 list \<Rightarrow> u8 list \<Rightarrow> u16 \<Rightarrow> udp_socket option" where
  "udp_connect if_ip target_ip target_port = do {
     src \<leftarrow> read_bytes if_ip 0 4;
     dst \<leftarrow> read_bytes target_ip 0 4;
     Some \<lparr>us_src_port = 0x7970, us_src_ip = src, us_dst_port = target_port, us_dst_ip = dst\<rparr> }"

text \<open>\<open>UdpFactory::format_packet\<close> prepares a buffer for the checksum but leaves the checksum
  zero.\<close>

definition udp_format :: "u8 list \<Rightarrow> nat \<Rightarrow> udp_socket \<Rightarrow> u8 list \<Rightarrow> u32 \<Rightarrow> u8 list option" where
  "udp_format data p socket payload_data sz = do {
     d \<leftarrow> store_bytes data p (encode_udp \<lparr>udp_src_port = swap_word (us_src_port socket), udp_dst_port = swap_word (us_dst_port socket),
       udp_length = swap_word (ucast (8 + sz)), udp_checksum = 0\<rparr>);
     memcpy d (p + udp_size) payload_data 0 (unat sz) }"

definition udp_send :: "u8 list \<Rightarrow> u8 list \<Rightarrow> u8 list \<Rightarrow> udp_socket \<Rightarrow> u8 list \<Rightarrow> u32 \<Rightarrow> u8 list option" where
  "udp_send mac_addr ip_addr gateway_mac_addr socket payload_data sz = do {
     d1 \<leftarrow> eth_format (replicate (eth_size + ip_size + udp_size + unat sz) 0) 0 mac_addr gateway_mac_addr next_is_ip;
     d2 \<leftarrow> ip_format d1 eth_size ip_addr (us_dst_ip socket) 0x11 (ucast (28 + sz));
     udp_format d2 (eth_size + ip_size) socket payload_data sz }"

section \<open>DNS\<close>

text \<open>The loop of \<open>format_url\<close>; \<open>pos\<close> and \<open>cnt\<close> are bytes, 46 is the dot.\<close>

function format_url_loop :: "u8 list \<Rightarrow> nat \<Rightarrow> u8 list \<Rightarrow> nat \<Rightarrow> u8 \<Rightarrow> u8 \<Rightarrow> (u8 list \<times> nat \<times> u8 \<times> u8) option" where
  "format_url_loop buf b url i pos cnt =
     (if length url \<le> i then None
      else if url ! i = 0 then Some (buf, i, pos, cnt)
      else if url ! i \<noteq> 46 then do {
        buf1 \<leftarrow> store buf (b + i + 1) (url ! i);
        format_url_loop buf1 b url (Suc i) pos (cnt + 1) }
      else do {
        buf1 \<leftarrow> store buf (b + unat pos) cnt;
        format_url_loop buf1 b url (Suc i) (of_nat (i + 1)) 0 })"
  by pat_completeness auto
termination by (relation "measure (\<lambda>(buf, b, url, i, pos, cnt). length url - i)") auto

declare format_url_loop.simps [simp del]

definition format_url :: "u8 list \<Rightarrow> nat \<Rightarrow> u8 list \<Rightarrow> u8 list option" where
  "format_url buf b url = do {
     (buf1, i, pos, cnt) \<leftarrow> format_url_loop buf b url 0 0 0;
     c \<leftarrow> (if i = 0 then None else load url (i - 1));
     buf2 \<leftarrow> store buf1 (b + i) c;
     buf3 \<leftarrow> store buf2 (b + unat pos) cnt;
     store buf3 (b + i + 1) 0 }"

record dns_header =
  trans_id :: u16
  dns_flags :: u16
  questions :: u16
  answer_rrs :: u16
  authority_rrs :: u16
  additional_rrs :: u16

definition encode_dns :: "dns_header \<Rightarrow> u8 list" where
  "encode_dns h = enc16 (trans_id h) @ enc16 (dns_flags h) @ enc16 (questions h) @ enc16 (answer_rrs h)
     @ enc16 (authority_rrs h) @ enc16 (additional_rrs h)"

abbreviation (input) dns_queries :: nat where "dns_queries \<equiv> 12"
abbreviation (input) dns_size :: nat where "dns_size \<equiv> 13"

definition init_dns_header :: "u8 list \<Rightarrow> nat \<Rightarrow> u8 list \<Rightarrow> u8 list option" where
  "init_dns_header data p url = do {
     d1 \<leftarrow> store_bytes data p (encode_dns \<lparr>trans_id = 0, dns_flags = swap_word 0x0100, questions = swap_word 1,
       answer_rrs = swap_word 0, authority_rrs = swap_word 0, additional_rrs = swap_word 0\<rparr>);
     d2 \<leftarrow> format_url d1 (p + dns_queries) url;
     n \<leftarrow> strlen url 0;
     d3 \<leftarrow> store_bytes d2 (p + dns_queries + n + 2) (enc16 (swap_word 1));
     store_bytes d3 (p + dns_queries + n + 4) (enc16 (swap_word 1)) }"

text \<open>The UDP header, with its checksum, is made before the query is.\<close>

definition send_dns_packet :: "u16 \<Rightarrow> u8 list \<Rightarrow> u8 list \<Rightarrow> u8 list \<Rightarrow> u8 list \<Rightarrow> u8 list \<Rightarrow> (u16 \<times> u8 list) option" where
  "send_dns_packet ports mac_addr ip_addr target_mac_addr target_ip url = do {
     n \<leftarrow> strlen url 0;
     d1 \<leftarrow> eth_format (replicate (eth_size + ip_size + udp_size + dns_size + n + 5) 0) 0 mac_addr target_mac_addr next_is_ip;
     d2 \<leftarrow> ip_format d1 eth_size ip_addr target_ip 0x11 (of_nat (ip_size + udp_size + dns_size + n + 5));
     (ports1, d3) \<leftarrow> init_udp_header ports d2 (eth_size + ip_size) 53 (of_nat (udp_size + dns_size + n + 5));
     d4 \<leftarrow> init_dns_header d3 (eth_size + ip_size + udp_size) url;
     Some (ports1, d4) }"

section \<open>The checksum as arithmetic\<close>

text \<open>The sum of the little-endian words of a sequence of bytes.\<close>

fun le_sum :: "u8 list \<Rightarrow> nat" where
  "le_sum (a # b # bs) = unat a + 256 * unat b + le_sum bs"
| "le_sum [a] = unat a"
| "le_sum [] = 0"

lemma unat_u8: "unat (w :: u8) < 256"
proof -
  have "unat w < 2 ^ LENGTH(8)" by (rule unsigned_less)
  then show ?thesis by simp
qed

lemma unat_u16: "unat (w :: u16) < 65536"
proof -
  have "unat w < 2 ^ LENGTH(16)" by (rule unsigned_less)
  then show ?thesis by simp
qed

lemma unat_ucast_up: "unat (ucast (w :: u8) :: u16) = unat w" "unat (ucast (v :: u16) :: u32) = unat v"
  using unat_u8 [of w] unat_u16 [of v] by (simp_all add: unsigned_ucast_eq take_bit_nat_eq_self)

lemma unat_dec16: "unat (dec16 (a # b # bs)) = unat a + 256 * unat b"
proof -
  have "dec16 (a # b # bs) = ucast a + push_bit 8 (ucast b)"
    by (simp add: dec16_def, subst disjunctive_add) (auto simp: bit_simps dest: bit_imp_le_length)
  moreover have "push_bit 8 (ucast b :: u16) = 256 * ucast b" by (simp add: push_bit_eq_mult)
  moreover have "unat (256 * ucast b :: u16) = 256 * unat b"
    using unat_u8 [of b] unat_mult_small [of "256 :: u16" "ucast b"] by (simp add: unat_ucast_up)
  moreover have "unat (ucast a + 256 * ucast b :: u16) = unat a + 256 * unat b"
    using unat_u8 [of a] unat_u8 [of b] \<open>unat (256 * ucast b :: u16) = _\<close>
      unat_add_small [of "ucast a :: u16" "256 * ucast b"] by (simp add: unat_ucast_up)
  ultimately show ?thesis by simp
qed

lemma le_sum_append: "even (length as) \<Longrightarrow> le_sum (as @ bs) = le_sum as + le_sum bs"
  by (induction as rule: le_sum.induct) simp_all

lemma le_sum_enc16: "le_sum (enc16 w) = unat w"
proof -
  have "unat w = unat (dec16 (enc16 w))" by simp
  then show ?thesis by (simp add: enc16_def unat_dec16)
qed

lemma le_sum_bound: "even (length bs) \<Longrightarrow> le_sum bs \<le> 65535 * (length bs div 2)"
proof (induction bs rule: le_sum.induct)
  case (1 a b bs)
  then show ?case using unat_u8 [of a] unat_u8 [of b] by auto
qed simp_all

lemma checksum_loop_even:
  "even len \<Longrightarrow> p + len \<le> length bs \<Longrightarrow>
   checksum_loop bs p len acc = Some (acc + of_nat (le_sum (take len (drop p bs))))"
proof (induction bs p len acc rule: checksum_loop.induct)
  case (1 bs p len acc)
  show ?case
  proof (cases "1 < len")
    case True
    then obtain n where n: "len = Suc (Suc n)" by (auto dest: less_imp_Suc_add)
    have p: "p < length bs" "Suc p < length bs" using 1(3) n by simp_all
    have d: "drop p bs = bs ! p # bs ! Suc p # drop (p + 2) bs" using p by (simp add: Cons_nth_drop_Suc)
    have "checksum_loop bs (p + 2) (len - 2) (acc + ucast (dec16 (drop p bs)))
      = Some (acc + ucast (dec16 (drop p bs)) + of_nat (le_sum (take (len - 2) (drop (p + 2) bs))))"
      using 1(2,3) True n by (intro 1(1)) (auto simp: load16_def)
    moreover have "(ucast (dec16 (drop p bs)) :: u32) = of_nat (unat (bs ! p) + 256 * unat (bs ! Suc p))"
      using unat_u8 [of "bs ! p"] unat_u8 [of "bs ! Suc p"]
      by (simp add: word_eq_iff_unat unat_ucast_up d unat_dec16 unat_of_nat_small del: of_nat_add of_nat_mult)
    ultimately show ?thesis using True 1(3) n
      by (subst checksum_loop.simps) (simp add: load16_def d)
  next
    case False
    then have "len = 0" using 1(2) by (cases len) auto
    then show ?thesis by (simp add: checksum_loop.simps)
  qed
qed

text \<open>The last word of an odd length is the word that the next byte completes.\<close>

lemma checksum_loop_odd: "odd len \<Longrightarrow> checksum_loop bs p len acc = checksum_loop bs p (Suc len) acc"
proof (induction bs p len acc rule: checksum_loop.induct)
  case (1 bs p len acc)
  show ?case
  proof (cases "1 < len")
    case True
    then have "odd (len - 2)" "Suc (len - 2) = Suc len - 2" using 1(2) by auto
    then show ?thesis using True 1(1)
      by (subst (1 2) checksum_loop.simps) (simp add: bind_def split: Option.bind_splits)
  next
    case False
    then have "len = 1" using 1(2) by (cases len) auto
    then show ?thesis by (simp add: checksum_loop.simps)
  qed
qed

definition fold16 :: "nat \<Rightarrow> nat" where
  "fold16 n = (let x = n div 65536 + n mod 65536 in (x + x div 65536) mod 65536)"

lemma unat_fold_checksum: "unat (fold_checksum c) = 65535 - fold16 (unat c)"
proof -
  let ?c1 = "drop_bit 16 c + (c AND 0xffff)" and ?x = "unat c div 65536 + unat c mod 65536"
  have "c AND 0xffff = take_bit 16 c" by (simp add: take_bit_eq_mask mask_eq_exp_minus_1)
  then have p: "unat (c AND 0xffff) = unat c mod 65536" "unat (drop_bit 16 c) = unat c div 65536"
    by (simp_all add: take_bit_eq_mod drop_bit_eq_div unat_mod unat_div)
  have b: "unat c div 65536 < 65536" using unat_u32 [of c] by (simp add: less_mult_imp_div_less)
  then have x: "?x < 2 * 65536" using mod_less_divisor [of 65536 "unat c"] by linarith
  then have c1: "unat ?c1 = ?x" using p unat_add_small [of "drop_bit 16 c" "c AND 0xffff"] by simp
  then have d: "unat (drop_bit 16 ?c1) = ?x div 65536" by (simp add: drop_bit_eq_div unat_div)
  have "?x div 65536 < 2" using x by (simp add: less_mult_imp_div_less)
  then have c2: "unat (?c1 + drop_bit 16 ?c1) = ?x + ?x div 65536"
    using c1 d x unat_add_small [of ?c1 "drop_bit 16 ?c1"] by simp
  let ?v = "ucast (?c1 + drop_bit 16 ?c1) :: u16"
  have v: "unat ?v = fold16 (unat c)"
    using c2 by (simp add: unsigned_ucast_eq take_bit_eq_mod fold16_def Let_def)
  have "fold_checksum c = NOT ?v" by (rule bit_word_eqI) (simp add: fold_checksum_def Let_def bit_simps)
  also have "\<dots> = -1 - ?v" by (simp add: not_eq_complement)
  finally have "fold_checksum c = -1 - ?v" .
  moreover have "unat (-1 - ?v) = unat (-1 :: u16) - unat ?v" by (rule unat_sub) simp
  ultimately show ?thesis using v by (simp add: unsigned_minus_1_eq_mask mask_eq_exp_minus_1)
qed

lemma end_around_carry:
  "x < 131071 \<Longrightarrow> (x + x div 65536) mod 65536 = (if x < 65536 then x else x - 65535)" for x :: nat
proof (cases "x < 65536")
  case False
  assume "x < 131071"
  with False have "x div 65536 = 1" by (intro div_nat_eqI) simp_all
  moreover have "(x + 1) mod 65536 = x + 1 - 65536" using False \<open>x < 131071\<close> by (subst le_mod_geq) simp_all
  ultimately show ?thesis using False by simp
qed simp

lemma fold16_carry:
  assumes "n < 4294967296"
  obtains x where "fold16 n = (if x < 65536 then x else x - 65535)" and "x mod 65535 = n mod 65535" and "x < 131071"
    and "0 < n \<Longrightarrow> 0 < x"
proof
  let ?x = "n div 65536 + n mod 65536"
  have "n div 65536 < 65536" using assms by (simp add: less_mult_imp_div_less)
  then show x: "?x < 131071" using mod_less_divisor [of 65536 n] by linarith
  show "fold16 n = (if ?x < 65536 then ?x else ?x - 65535)"
    using end_around_carry [OF x] by (simp only: fold16_def Let_def)
  have "n = 65535 * (n div 65536) + ?x" using mult_div_mod_eq [of 65536 n] by linarith
  then have "n mod 65535 = (65535 * (n div 65536) + ?x) mod 65535" by (rule arg_cong)
  then show "?x mod 65535 = n mod 65535" by (rule trans [OF mod_mult_self4 [symmetric], OF sym])
  show "0 < ?x" if "0 < n" using that mult_div_mod_eq [of 65536 n] by linarith
qed

lemma fold16_mod: "n < 4294967296 \<Longrightarrow> fold16 n mod 65535 = n mod 65535"
proof -
  assume "n < 4294967296"
  then obtain x where "fold16 n = (if x < 65536 then x else x - 65535)" "x mod 65535 = n mod 65535"
    by (rule fold16_carry)
  then show ?thesis by (simp add: le_mod_geq split: if_splits)
qed

lemma fold16_bound: "fold16 n \<le> 65535"
  by (simp add: fold16_def Let_def less_Suc_eq_le [symmetric])

lemma fold16_pos: "0 < n \<Longrightarrow> n < 4294967296 \<Longrightarrow> 0 < fold16 n"
proof -
  assume n: "0 < n" "n < 4294967296"
  from n(2) obtain x where "fold16 n = (if x < 65536 then x else x - 65535)" "0 < n \<Longrightarrow> 0 < x"
    by (rule fold16_carry) blast
  then show ?thesis using n(1) by simp
qed

text \<open>Adding the checksum makes the sum a multiple of 65535, which folds to all ones.\<close>

lemma fold16_complement: "n + 65535 < 4294967296 \<Longrightarrow> fold16 (n + (65535 - fold16 n)) = 65535"
proof -
  assume n: "n + 65535 < 4294967296"
  let ?m = "n + (65535 - fold16 n)"
  have m: "?m < 4294967296" using n by simp
  have "fold16 n mod 65535 = n mod 65535" using n by (intro fold16_mod) simp
  then have "(n + 65535) mod 65535 = fold16 n mod 65535" by simp
  then have "65535 dvd n + 65535 - fold16 n" using fold16_bound [of n] by (subst (asm) mod_eq_dvd_iff_nat) simp_all
  then have "?m mod 65535 = 0" using fold16_bound [of n] by (simp add: mod_eq_0_iff_dvd)
  then have "fold16 ?m mod 65535 = 0" using fold16_mod [OF m] by simp
  moreover have "0 < ?m" using fold16_bound [of n] by (cases "n = 0") (simp_all add: fold16_def)
  then have "0 < fold16 ?m" using m by (rule fold16_pos)
  ultimately show ?thesis using fold16_bound [of ?m] by (cases "fold16 ?m = 65535") simp_all
qed

section \<open>Verifying a checksum\<close>

lemma generate_checksum_even:
  "even n \<Longrightarrow> p + n \<le> length bs \<Longrightarrow>
   generate_checksum bs p n = Some (fold_checksum (of_nat (le_sum (take n (drop p bs)))))"
  by (simp add: generate_checksum_def checksum_loop_even)

lemma generate_checksum_odd: "odd n \<Longrightarrow> generate_checksum bs p n = generate_checksum bs p (Suc n)"
  by (simp add: generate_checksum_def checksum_loop_odd)

text \<open>A checksum that is stored where the checksummed bytes had a zero word makes the checksum
  zero.\<close>

lemma checksum_insert:
  assumes "even (length as)" and "even n" and "n \<le> 65536" and "p + n \<le> length d" and "p + n \<le> length d'"
    and "take n (drop p d) = as @ [0, 0] @ bs" and "take n (drop p d') = as @ enc16 c @ bs"
    and "generate_checksum d p n = Some c"
  shows "generate_checksum d' p n = Some 0"
proof -
  let ?z = "le_sum as + le_sum bs"
  have z: "le_sum (as @ [0, 0] @ bs) = ?z" "le_sum (as @ enc16 c @ bs) = ?z + unat c"
    using assms(1) by (simp_all add: le_sum_append le_sum_enc16)
  have "length (as @ [0, 0] @ bs) = n" using arg_cong [OF assms(6), of length] assms(4) by simp
  then have "?z \<le> 65535 * (n div 2)" using z(1) le_sum_bound [of "as @ [0, 0] @ bs"] assms(2) by metis
  also have "\<dots> \<le> 65535 * 32768" using assms(3) by (intro mult_le_mono) simp_all
  finally have b: "?z + 65535 < 4294967296" by simp
  have c: "c = fold_checksum (of_nat ?z)"
    using assms(8) generate_checksum_even [OF assms(2,4)] assms(6) z(1) by simp
  then have uc: "unat c = 65535 - fold16 ?z" using b by (simp add: unat_fold_checksum unat_of_nat_small del: of_nat_add)
  have "unat (fold_checksum (of_nat (?z + unat c))) = 65535 - fold16 (?z + (65535 - fold16 ?z))"
    using b by (simp add: unat_fold_checksum unat_of_nat_small uc del: of_nat_add)
  also have "\<dots> = 0" by (simp add: fold16_complement [OF b])
  finally have "fold_checksum (of_nat (?z + unat c)) = 0" by (simp add: word_eq_iff_unat)
  then show ?thesis using generate_checksum_even [OF assms(2,5)] assms(7) z(2) by simp
qed

section \<open>Headers\<close>

lemma take_drop_put: "p + length v \<le> length bs \<Longrightarrow> take (length v) (drop p (put bs p v)) = v"
  by (simp add: put_def)

lemma put_put: "p + length v \<le> length bs \<Longrightarrow> length w = length v \<Longrightarrow> put (put bs p v) p w = put bs p w"
  by (simp add: put_def)

lemma put_outside:
  assumes "p + length v \<le> length bs"
  shows "take p (put bs p v) = take p bs" and "drop (p + length v) (put bs p v) = drop (p + length v) bs"
  using assms by (simp_all add: put_def)

lemma read_bytes_all [simp]: "length a = n \<Longrightarrow> read_bytes a 0 n = Some a"
  by (simp add: read_bytes_def)

lemma masks_16: "(0xff :: u16) = mask 8"
  by (simp add: mask_eq_exp_minus_1)

lemma masks_32:
  "(0xff :: u32) = mask 8" "(0xff00 :: u32) = push_bit 8 (mask 8)" "(0xff0000 :: u32) = push_bit 16 (mask 8)"
  "(0xff000000 :: u32) = push_bit 24 (mask 8)"
  by (simp_all add: mask_eq_exp_minus_1 push_bit_eq_mult)

lemma swap_word_twice [simp]: "swap_word (swap_word w) = w"
  by (rule bit_word_eqI) (auto simp: swap_word_def masks_16 bit_simps dest: bit_imp_le_length)

lemma swap_double_word_twice [simp]: "swap_double_word (swap_double_word w) = w"
proof (rule bit_word_eqI)
  fix n
  assume "n < LENGTH(32)"
  then show "bit (swap_double_word (swap_double_word w)) n = bit w n"
    by (cases "n < 8"; cases "n < 16"; cases "n < 24") (auto simp: swap_double_word_def masks_32 bit_simps)
qed

text \<open>A swapped word lies in memory with its high byte first.\<close>

lemma enc16_swap_word: "enc16 (swap_word w) = [ucast (drop_bit 8 w), ucast w]"
  by (auto simp: enc16_def swap_word_def masks_16 intro!: bit_word_eqI simp: bit_simps dest: bit_imp_le_length)

lemma decode_eth_encode [simp]:
  "length (eth_dst h) = 6 \<Longrightarrow> length (eth_src h) = 6 \<Longrightarrow> decode_eth (encode_eth h @ bs) = h"
  by (simp add: decode_eth_def encode_eth_def)

lemma length_encode_eth: "length (eth_dst h) = 6 \<Longrightarrow> length (eth_src h) = 6 \<Longrightarrow> length (encode_eth h) = 14"
  by (simp add: encode_eth_def)

lemma drop_enc [simp]: "drop (Suc (Suc k)) (enc16 w @ bs) = drop k bs"
  by (simp add: enc16_def)

definition arp_wf :: "arp_packet \<Rightarrow> bool" where
  "arp_wf h \<longleftrightarrow> length (arp_src_mac h) = 6 \<and> length (arp_src_ip h) = 4 \<and> length (arp_dst_mac h) = 6 \<and> length (arp_target_ip h) = 4"

lemma decode_arp_encode: "arp_wf h \<Longrightarrow> decode_arp (encode_arp h @ bs) = h" "arp_wf h \<Longrightarrow> length (encode_arp h) = 28"
  by (simp_all add: arp_wf_def decode_arp_def encode_arp_def numeral_eq_Suc nth_append)

definition ip_wf :: "ip_packet \<Rightarrow> bool" where
  "ip_wf h \<longleftrightarrow> length (src_ip h) = 4 \<and> length (dst_ip h) = 4"

lemma nibbles:
  "ucast (ucast l OR push_bit 4 (ucast h) :: u8) = l" "ucast (drop_bit 4 (ucast l OR push_bit 4 (ucast h) :: u8)) = h"
  for l h :: "4 word"
  by (rule bit_word_eqI; auto simp: bit_simps dest: bit_imp_le_length)+

lemma length_encode_ip: "ip_wf h \<Longrightarrow> length (encode_ip h) = 20"
  by (simp add: ip_wf_def encode_ip_def)

lemma decode_ip_encode: "ip_wf h \<Longrightarrow> decode_ip (encode_ip h @ bs) = h"
proof -
  assume wf: "ip_wf h"
  define b where "b = ucast (header_len h) OR push_bit 4 (ucast (version h) :: u8)"
  have "ucast b = header_len h" "ucast (drop_bit 4 b) = version h" by (simp_all only: b_def nibbles)
  moreover have "encode_ip h = [b, diff_services h] @ enc16 (total_len h) @ enc16 (identification h) @ enc16 (ip_flags h)
      @ [ttl h, next_protocol h] @ enc16 (header_checksum h) @ src_ip h @ dst_ip h"
    by (simp add: encode_ip_def b_def)
  ultimately show ?thesis using wf by (simp add: ip_wf_def decode_ip_def nth_append drop_Cons' nth_Cons')
qed

text \<open>The header that \<open>ip_format\<close> makes, with the checksum \<open>c\<close>.\<close>

definition ip_header :: "u8 list \<Rightarrow> u8 list \<Rightarrow> u8 \<Rightarrow> u16 \<Rightarrow> u16 \<Rightarrow> ip_packet" where
  "ip_header src dst next_proto tlen c = \<lparr>header_len = 5, version = 4, diff_services = 0, total_len = swap_word tlen,
     identification = swap_word 0x4455, ip_flags = swap_word 0x4000, ttl = 64, next_protocol = next_proto,
     header_checksum = c, src_ip = src, dst_ip = dst\<rparr>"

lemma encode_ip_header:
  "\<exists>as. length as = 10 \<and> (\<forall>c. encode_ip (ip_header src dst next_proto tlen c) = as @ enc16 c @ src @ dst)"
  by (intro exI conjI allI) (simp_all add: encode_ip_def ip_header_def)

lemma ip_format_put:
  assumes "length src = 4" and "length dst = 4" and "p + 20 \<le> length data"
  obtains c where "ip_format data p src dst next_proto tlen = Some (put data p (encode_ip (ip_header src dst next_proto tlen c)))"
    and "generate_checksum (put data p (encode_ip (ip_header src dst next_proto tlen c))) p 20 = Some 0"
proof -
  let ?h = "ip_header src dst next_proto tlen"
  let ?d = "\<lambda>c. put data p (encode_ip (?h c))"
  obtain as where as: "length as = 10" "\<And>c. encode_ip (?h c) = as @ enc16 c @ src @ dst"
    using encode_ip_header by blast
  have l: "length (encode_ip (?h c)) = 20" for c using as assms(1,2) by simp
  then have ld: "length (?d c) = length data" for c using assms(3) by simp
  obtain c where c: "generate_checksum (?d 0) p 20 = Some c"
    using generate_checksum_even [of 20 p "?d 0"] assms(3) ld by simp
  have st: "store_bytes data p (encode_ip (?h 0)) = Some (?d 0)" "store_bytes (?d 0) p (encode_ip (?h c)) = Some (?d c)"
    using assms(3) l put_put [of p "encode_ip (?h 0)" data "encode_ip (?h c)"] by (simp_all add: store_bytes_def)
  have u: "(?h 0)\<lparr>header_checksum := c\<rparr> = ?h c" "header_len (?h 0) = 5" by (simp_all add: ip_header_def)
  have "ip_format data p src dst next_proto tlen = Some (?d c)"
    using assms(1,2) c st u by (simp add: ip_format_def Let_def ip_header_def [symmetric])
  moreover have "generate_checksum (?d c) p 20 = Some 0"
    using as(1) assms(3) ld c take_drop_put [of p "encode_ip (?h 0)" data] take_drop_put [of p "encode_ip (?h c)" data] l as(2)
    by (intro checksum_insert [of as 20 p "?d 0" "?d c" "src @ dst" c]) (simp_all add: enc16_def)
  ultimately show ?thesis using that by blast
qed

section \<open>Frames\<close>

text \<open>A frame is built by filling consecutive parts of a cleared buffer.\<close>

lemma put_mid: "length pre = p \<Longrightarrow> length mid = length v \<Longrightarrow> put (pre @ mid @ post) p v = pre @ v @ post"
  by (simp add: put_def)

lemma put_zeros:
  "length pre = p \<Longrightarrow> length v = k \<Longrightarrow> k \<le> n \<Longrightarrow> put (pre @ replicate n 0) p v = pre @ v @ replicate (n - k) 0"
  using put_mid [of pre p "replicate k 0" v "replicate (n - k) 0"]
  by (simp add: replicate_add [symmetric])

lemma generate_checksum_mid:
  "even (length mid) \<Longrightarrow> length pre = p \<Longrightarrow> length mid = n \<Longrightarrow>
   generate_checksum (pre @ mid @ post) p n = generate_checksum mid 0 n"
  by (simp add: generate_checksum_even)

definition eth_bytes :: "u8 list \<Rightarrow> u8 list \<Rightarrow> u16 \<Rightarrow> u8 list" where
  "eth_bytes src dst proto = encode_eth \<lparr>eth_dst = dst, eth_src = src, eth_proto = swap_word proto\<rparr>"

lemma length_eth_bytes [simp]: "length src = 6 \<Longrightarrow> length dst = 6 \<Longrightarrow> length (eth_bytes src dst proto) = 14"
  by (simp add: eth_bytes_def encode_eth_def)

lemma decode_eth_bytes:
  "length src = 6 \<Longrightarrow> length dst = 6 \<Longrightarrow>
   decode_eth (eth_bytes src dst proto @ bs) = \<lparr>eth_dst = dst, eth_src = src, eth_proto = swap_word proto\<rparr>"
  by (simp add: eth_bytes_def)

lemma eth_format_zeros:
  "length src = 6 \<Longrightarrow> length dst = 6 \<Longrightarrow> 14 \<le> n \<Longrightarrow>
   eth_format (replicate n 0) 0 src dst proto = Some (eth_bytes src dst proto @ replicate (n - 14) 0)"
  using put_zeros [of "[]" 0 "eth_bytes src dst proto" 14 n]
  by (simp add: eth_format_def store_bytes_def eth_bytes_def [symmetric])

lemma ip_wf_header: "length src = 4 \<Longrightarrow> length dst = 4 \<Longrightarrow> ip_wf (ip_header src dst next_proto tlen c)"
  by (simp add: ip_wf_def ip_header_def)

lemma ip_format_zeros:
  assumes "length src = 4" and "length dst = 4" and "length pre = p" and "20 \<le> n"
  obtains ipb where "ip_format (pre @ replicate n 0) p src dst next_proto tlen = Some (pre @ ipb @ replicate (n - 20) 0)"
    and "length ipb = 20" and "generate_checksum ipb 0 20 = Some 0"
    and "\<exists>c. \<forall>bs. decode_ip (ipb @ bs) = ip_header src dst next_proto tlen c"
proof -
  obtain c where c: "ip_format (pre @ replicate n 0) p src dst next_proto tlen
      = Some (put (pre @ replicate n 0) p (encode_ip (ip_header src dst next_proto tlen c)))"
    "generate_checksum (put (pre @ replicate n 0) p (encode_ip (ip_header src dst next_proto tlen c))) p 20 = Some 0"
    using ip_format_put [of src dst p "pre @ replicate n 0" next_proto tlen] assms by auto
  let ?b = "encode_ip (ip_header src dst next_proto tlen c)"
  have wf: "ip_wf (ip_header src dst next_proto tlen c)" using assms by (simp add: ip_wf_header)
  then have l: "length ?b = 20" by (rule length_encode_ip)
  have "put (pre @ replicate n 0) p ?b = pre @ ?b @ replicate (n - 20) 0" using assms(3,4) l by (intro put_zeros)
  then show ?thesis
    using that [of ?b] c l generate_checksum_mid [of ?b pre p 20] assms(3) decode_ip_encode [OF wf] by auto
qed

definition icmp_header :: "u8 \<Rightarrow> u16 \<Rightarrow> icmp_packet" where
  "icmp_header type c = \<lparr>icmp_type = type, code = 0, icmp_checksum = c, icmp_ident = 0, sequence_num = 0,
     timestamp = replicate 8 0, icmp_data = icmp_fill @ [0]\<rparr>"

lemma length_icmp_fill [simp]: "length icmp_fill = 47"
  by (simp add: icmp_fill_def)

lemma length_encode_icmp: "length (encode_icmp (icmp_header type c)) = 64"
  by (simp add: encode_icmp_def icmp_header_def)

lemma decode_icmp_encode: "decode_icmp (encode_icmp (icmp_header type c)) = icmp_header type c"
  by (simp add: decode_icmp_def encode_icmp_def icmp_header_def nth_append drop_Cons' nth_Cons')

lemma icmp_format_zeros:
  assumes "length pre = p"
  obtains c where "icmp_format (pre @ replicate 64 0) p type = Some (pre @ encode_icmp (icmp_header type c))"
    and "generate_checksum (encode_icmp (icmp_header type c)) 0 64 = Some 0"
proof -
  let ?e = "\<lambda>c. encode_icmp (icmp_header type c)"
  obtain bs where bs: "\<And>c. ?e c = [type, 0] @ enc16 c @ bs"
    by (simp add: encode_icmp_def icmp_header_def)
  then have lbs: "length bs = 60" using length_encode_icmp [of type 0] by simp
  have d: "put (pre @ replicate 64 0) p (?e 0) = pre @ ?e 0" "put (pre @ ?e 0) p (?e c) = pre @ ?e c" for c
    using assms put_zeros [of pre p "?e 0" 64 64] put_mid [of pre p "?e 0" "?e c" "[]"] length_encode_icmp by simp_all
  obtain c where c: "generate_checksum (?e 0) 0 64 = Some c"
    using generate_checksum_even [of 64 0 "?e 0"] length_encode_icmp by simp
  have gp: "generate_checksum (pre @ ?e 0) p 64 = Some c"
    using generate_checksum_mid [of "?e 0" pre p 64 "[]"] assms length_encode_icmp c by simp
  have h: "(icmp_header type 0)\<lparr>icmp_checksum := c\<rparr> = icmp_header type c" by (simp add: icmp_header_def)
  have "decode_icmp (replicate 64 0) = \<lparr>icmp_type = 0, code = 0, icmp_checksum = 0, icmp_ident = 0, sequence_num = 0,
      timestamp = replicate 8 0, icmp_data = replicate 48 0\<rparr>"
    by (simp add: decode_icmp_def dec16_def)
  then have "icmp_format (pre @ replicate 64 0) p type = Some (pre @ ?e c)"
    using assms d gp h length_encode_icmp
    by (simp add: icmp_format_def Let_def read_bytes_def store_bytes_def icmp_header_def [symmetric])
  moreover have "generate_checksum (?e c) 0 64 = Some 0"
    using c bs lbs
    by (intro checksum_insert [of "[type, 0]" 64 0 "?e 0" "?e c" bs c]) (simp_all add: enc16_def)
  ultimately show ?thesis using that by blast
qed

section \<open>DNS names\<close>

text \<open>The reference: the labels of a name, separated by dots, each preceded by its length, and a
  final zero.\<close>

fun labels :: "u8 list \<Rightarrow> u8 list \<Rightarrow> u8 list list" where
  "labels acc [] = [acc]"
| "labels acc (c # cs) = (if c = 46 then acc # labels [] cs else labels (acc @ [c]) cs)"

definition dns_name :: "u8 list \<Rightarrow> u8 list" where
  "dns_name url = concat (map (\<lambda>l. of_nat (length l) # l) (labels [] url)) @ [0]"

text \<open>The buffer in the loop: the encoded labels \<open>dn\<close>, one byte for the length of the current
  label, and the characters \<open>cur\<close> of the current label so far.\<close>

definition dns_buf :: "u8 list \<Rightarrow> nat \<Rightarrow> u8 list \<Rightarrow> u8 list \<Rightarrow> u8 list" where
  "dns_buf buf b dn cur = put (put buf b dn) (b + length dn + 1) cur"

lemma length_dns_buf [simp]: "b + length dn + 1 + length cur \<le> length buf \<Longrightarrow> length (dns_buf buf b dn cur) = length buf"
  by (simp add: dns_buf_def)

lemma dns_buf_close:
  assumes "b + length dn + 1 + length cur \<le> length buf"
  shows "(dns_buf buf b dn cur)[b + length dn := x] = put buf b (dn @ x # cur)"
  using assms by (intro nth_equalityI) (auto simp: dns_buf_def nth_put nth_append nth_list_update nth_Cons')

lemma dns_buf_snoc:
  assumes "b + length dn + 1 + length cur < length buf"
  shows "store (dns_buf buf b dn cur) (b + length dn + 1 + length cur) c = Some (dns_buf buf b dn (cur @ [c]))"
  unfolding dns_buf_def using assms by (intro store_put_snoc) simp

definition enc_labels :: "u8 list list \<Rightarrow> u8 list" where
  "enc_labels ls = concat (map (\<lambda>l. of_nat (length l) # l) ls)"

lemma enc_labels_simps [simp]: "enc_labels [] = []" "enc_labels (l # ls) = of_nat (length l) # l @ enc_labels ls"
  by (simp_all add: enc_labels_def)

lemma format_url_loop_labels:
  assumes "cstr url 0 u" and "u = done_u @ rest" and "length done_u = length dn + length cur"
    and "length u < 255" and "b + length u + 2 \<le> length buf"
  shows "\<exists>dn' cur'. format_url_loop (dns_buf buf b dn cur) b url (length done_u) (of_nat (length dn)) (of_nat (length cur))
      = Some (dns_buf buf b dn' cur', length u, of_nat (length dn'), of_nat (length cur'))
    \<and> dn' @ of_nat (length cur') # cur' = dn @ enc_labels (labels cur rest) \<and> length dn' + length cur' = length u
    \<and> (cur' \<noteq> [] \<longrightarrow> cur @ rest \<noteq> [] \<and> last cur' = last (cur @ rest))"
  using assms(2,3)
proof (induction rest arbitrary: done_u dn cur)
  case Nil
  have "url ! length u = 0" "length u < length url" using assms(1) by (auto simp: cstr_def)
  then show ?case using Nil by (intro exI [of _ dn] exI [of _ cur]) (simp add: format_url_loop.simps)
next
  case (Cons c rest)
  have i: "url ! length done_u = c" "c \<noteq> 0" "length done_u < length url" "length done_u < length u"
    using assms(1) Cons.prems(1) by (auto simp: cstr_def nth_append)
  have u: "u = (done_u @ [c]) @ rest" using Cons.prems(1) by simp
  have fits: "b + length dn + 1 + length cur < length buf" using i(4) Cons.prems(2) assms(5) by simp
  show ?case
  proof (cases "c = 46")
    case True
    let ?dn = "dn @ of_nat (length cur) # cur"
    have "length dn < 255" using i(4) assms(4) Cons.prems(2) by simp
    then have "unat (of_nat (length dn) :: u8) = length dn" by (simp add: unat_of_nat_small)
    then have "store (dns_buf buf b dn cur) (b + unat (of_nat (length dn) :: u8)) (of_nat (length cur))
      = Some (dns_buf buf b (dn @ of_nat (length cur) # cur) [])"
      using fits dns_buf_close [of b dn cur buf] by (simp add: mem_simps, simp add: dns_buf_def)
    then have "format_url_loop (dns_buf buf b dn cur) b url (length done_u) (of_nat (length dn)) (of_nat (length cur))
      = format_url_loop (dns_buf buf b ?dn []) b url (length (done_u @ [c])) (of_nat (length ?dn)) (of_nat (length ([] :: u8 list)))"
      using i True Cons.prems(2) by (subst format_url_loop.simps) simp
    moreover have "length (done_u @ [c]) = length ?dn + length ([] :: u8 list)" using Cons.prems(2) by simp
    note Cons.IH [OF u this]
    ultimately show ?thesis using True by (elim exE, intro exI) auto
  next
    case False
    have "store (dns_buf buf b dn cur) (b + length done_u + 1) c = Some (dns_buf buf b dn (cur @ [c]))"
      using dns_buf_snoc [OF fits] Cons.prems(2) by (simp add: add.assoc)
    then have "format_url_loop (dns_buf buf b dn cur) b url (length done_u) (of_nat (length dn)) (of_nat (length cur))
      = format_url_loop (dns_buf buf b dn (cur @ [c])) b url (length (done_u @ [c])) (of_nat (length dn)) (of_nat (length (cur @ [c])))"
      using i False by (subst format_url_loop.simps) (simp add: add.commute)
    moreover have "length (done_u @ [c]) = length dn + length (cur @ [c])" using Cons.prems(2) by simp
    note Cons.IH [OF u this]
    ultimately show ?thesis using False by (elim exE, intro exI) auto
  qed
qed

lemma format_url_put:
  assumes "cstr url 0 u" and "u \<noteq> []" and "length u < 255" and "b + length u + 2 \<le> length buf"
  shows "format_url buf b url = Some (put buf b (dns_name u))"
proof -
  obtain dn cur where l: "format_url_loop buf b url 0 0 0 = Some (dns_buf buf b dn cur, length u, of_nat (length dn), of_nat (length cur))"
    and dc: "dn @ of_nat (length cur) # cur = enc_labels (labels [] u)" "length dn + length cur = length u"
      "cur \<noteq> [] \<longrightarrow> last cur = last u"
    using format_url_loop_labels [OF assms(1) _ _ assms(3,4), of "[]" u "[]" "[]"] by (auto simp: dns_buf_def)
  have n: "unat (of_nat (length dn) :: u8) = length dn" using dc(2) assms(3) by (simp add: unat_of_nat_small)
  have lu: "load url (length u - 1) = Some (last u)"
    using assms(1,2) by (auto simp: cstr_def load_def last_conv_nth)
  let ?d = "dns_buf buf b dn cur"
  have len: "length ?d = length buf" using assms(4) dc(2) by simp
  have "(?d[b + length u := last u])[b + length dn := of_nat (length cur)] = ?d[b + length dn := of_nat (length cur)]"
  proof (cases "cur = []")
    case False
    then have "length u = length dn + 1 + (length cur - 1)" using dc(2) by (cases cur) simp_all
    then have "?d ! (b + length u) = last u"
      using dc(3) False assms(4) by (simp add: dns_buf_def nth_put last_conv_nth)
    then show ?thesis by (metis list_update_id)
  qed (use dc(2) in simp)
  also have "\<dots> = put buf b (enc_labels (labels [] u))" using dns_buf_close assms(4) dc by simp
  finally have e: "(?d[b + length u := last u])[b + length dn := of_nat (length cur)] = put buf b (enc_labels (labels [] u))" .
  have le: "length (enc_labels (labels [] u)) = length u + 1" using arg_cong [OF dc(1), of length] dc(2) by simp
  have "store (put buf b (enc_labels (labels [] u))) (b + length u + 1) 0 = Some (put buf b (enc_labels (labels [] u) @ [0]))"
    using store_put_snoc [of b "enc_labels (labels [] u)" buf 0] le assms(4) by simp
  then have "(put buf b (enc_labels (labels [] u)))[b + length u + 1 := 0] = put buf b (enc_labels (labels [] u) @ [0])"
    by (simp add: store_Some_iff)
  then show ?thesis using l lu n e assms(2,4) len dc(2)
    by (simp add: format_url_def mem_simps dns_name_def enc_labels_def [symmetric])
qed

section \<open>Properties\<close>

text \<open>C21: the frame that a ping sends is a well-formed request to the target: the Ethernet header
  names the two interfaces and the protocol IP, the IPv4 header names the two hosts, and both
  the IPv4 header and the ICMP packet verify, that is, their checksums with the stored checksum
  included are zero.\<close>

theorem ping_frame:
  assumes "length mac = 6" and "length ip = 4" and "length target_ip = 4" and "length target_mac = 6"
  shows "\<exists>d c. icmp_request mac ip target_ip target_mac = Some d \<and> length d = 98
    \<and> decode_eth d = \<lparr>eth_dst = target_mac, eth_src = mac, eth_proto = swap_word next_is_ip\<rparr>
    \<and> (\<exists>k. decode_ip (drop 14 d) = ip_header ip target_ip 1 84 k) \<and> generate_checksum d 14 20 = Some 0
    \<and> decode_icmp (drop 34 d) = icmp_header ICMP_REQUEST c \<and> generate_checksum d 34 64 = Some 0"
proof -
  let ?e = "eth_bytes mac target_mac next_is_ip"
  have le: "length ?e = 14" using assms by simp
  obtain ipb where ip: "ip_format (?e @ replicate 84 0) 14 ip target_ip 1 84 = Some (?e @ ipb @ replicate 64 0)"
    "length ipb = 20" "generate_checksum ipb 0 20 = Some 0" "\<exists>c. \<forall>bs. decode_ip (ipb @ bs) = ip_header ip target_ip 1 84 c"
    using ip_format_zeros [OF assms(2,3) le, of 84 1 84] by auto
  have l: "length (?e @ ipb) = 34" using le ip(2) by simp
  obtain c where ic: "icmp_format ((?e @ ipb) @ replicate 64 0) 34 ICMP_REQUEST
      = Some ((?e @ ipb) @ encode_icmp (icmp_header ICMP_REQUEST c))"
    "generate_checksum (encode_icmp (icmp_header ICMP_REQUEST c)) 0 64 = Some 0"
    using icmp_format_zeros [OF l] by blast
  let ?c = "encode_icmp (icmp_header ICMP_REQUEST c)"
  have "icmp_request mac ip target_ip target_mac = Some (?e @ ipb @ ?c)"
    using eth_format_zeros [OF assms(1,4), of 98 next_is_ip] ip(1) ic(1) by (simp add: icmp_request_def icmp_send_def)
  moreover have "generate_checksum (?e @ ipb @ ?c) 14 20 = Some 0" "generate_checksum (?e @ ipb @ ?c) 34 64 = Some 0"
    using generate_checksum_mid [OF _ le ip(2)] ip(2,3) generate_checksum_mid [of ?c "?e @ ipb" 34 64 "[]"] l ic(2)
    by (simp_all add: length_encode_icmp)
  moreover have "decode_icmp (drop 34 (?e @ ipb @ ?c)) = icmp_header ICMP_REQUEST c"
    using le ip(2) by (simp add: decode_icmp_encode)
  moreover have "\<exists>k. decode_ip (drop 14 (?e @ ipb @ ?c)) = ip_header ip target_ip 1 84 k" using le ip(4) by auto
  ultimately show ?thesis using l assms(1,4)
    by (intro exI [of _ "?e @ ipb @ ?c"] exI [of _ c]) (simp add: length_encode_icmp decode_eth_bytes)
qed

theorem ping_frame_witness:
  "\<exists>d. icmp_request [1, 2, 3, 4, 5, 6] [172, 17, 0, 2] [172, 17, 0, 1] [6, 5, 4, 3, 2, 1] = Some d \<and> generate_checksum d 14 20 = Some 0"
  using ping_frame [of "[1, 2, 3, 4, 5, 6]" "[172, 17, 0, 2]" "[172, 17, 0, 1]" "[6, 5, 4, 3, 2, 1]"] by auto

text \<open>C37: the name in a DNS query is the standard encoding of its labels: every label of the name,
  cut at the dots, preceded by its length, and a final zero.\<close>

theorem format_url_encodes_labels:
  assumes "cstr url 0 u" and "u \<noteq> []" and "length u < 255" and "b + length u + 2 \<le> length buf"
  shows "format_url buf b url = Some (put buf b (dns_name u))"
  using format_url_put [OF assms] .

theorem format_url_encodes_labels_witness:
  "format_url [9, 9, 9, 9, 9, 9, 9, 9] 1 [97, 46, 98, 99, 0] = Some [9, 1, 97, 2, 98, 99, 0, 9]"
  using format_url_encodes_labels [of "[97, 46, 98, 99, 0]" "[97, 46, 98, 99]" 1 "[9, 9, 9, 9, 9, 9, 9, 9]"]
  by (simp add: put_def dns_name_def)

end
