(* ===== verification/Stdio.thy ===== *)
theory Stdio
  imports Lib_String
begin

text \<open>
  Model of formatted output (\<open>lib/stdio.cc\<close>), of the conversion of an address in dotted
  notation (\<open>ipstring2ipuint\<close> of \<open>lib/net_utilies.cc\<close>) and of the printing of addresses
  (\<open>print_ip_addr\<close> and \<open>print_mac_addr\<close> of \<open>net/arp.cc\<close>).

  The arguments of \<open>printf\<close> are the words that follow the format on the stack; a word that
  \<open>%s\<close> takes is the address of a string, here the object itself. \<open>vsprintf\<close> writes into an
  object and does not write a terminator; the buffer of \<open>printf\<close> is cleared before, and the
  text goes to the screen.

  The theory shows what a format without unknown directives writes, and that the address that
  is printed in dotted notation is read back.
\<close>

section \<open>Formatted output\<close>

datatype printf_arg = Word u32 | Text "u8 list"

text \<open>\<open>%\<close>, \<open>s\<close>, \<open>c\<close>, \<open>d\<close> and \<open>x\<close> are 37, 115, 99, 100 and 120. After an unknown directive
  the loop goes on with the directive as an ordinary character.\<close>

definition put_decimal :: "u8 list \<Rightarrow> nat \<Rightarrow> u32 \<Rightarrow> (u8 list \<times> nat) option" where
  "put_decimal dst d arg =
     (if arg <s 0 then do {
        dst1 \<leftarrow> store dst d 45;
        itoa (0 - arg) dst1 (Suc d) 10 }
      else itoa arg dst d 10)"

function vsprintf_loop :: "u8 list \<Rightarrow> nat \<Rightarrow> u8 list \<Rightarrow> nat \<Rightarrow> printf_arg list \<Rightarrow> (u8 list \<times> nat) option" where
  "vsprintf_loop dst d src i args =
     (if length src \<le> i then None
      else if src ! i = 0 then Some (dst, d)
      else if src ! i \<noteq> 37 then do {
        dst1 \<leftarrow> store dst d (src ! i);
        vsprintf_loop dst1 (Suc d) src (Suc i) args }
      else do {
        c \<leftarrow> load src (Suc i);
        (if c = 115 then
           (case args of
              Text str # args1 \<Rightarrow> do {
                dst1 \<leftarrow> strcpy dst d str 0;
                l \<leftarrow> strlen str 0;
                vsprintf_loop dst1 (d + l) src (i + 2) args1 }
            | _ \<Rightarrow> None)
         else if c = 99 then
           (case args of
              Word w # args1 \<Rightarrow> do {
                dst1 \<leftarrow> store dst d (ucast w);
                vsprintf_loop dst1 (Suc d) src (i + 2) args1 }
            | _ \<Rightarrow> None)
         else if c = 100 then
           (case args of
              Word w # args1 \<Rightarrow> do {
                (dst1, d1) \<leftarrow> put_decimal dst d w;
                vsprintf_loop dst1 d1 src (i + 2) args1 }
            | _ \<Rightarrow> None)
         else if c = 120 then
           (case args of
              Word w # args1 \<Rightarrow> do {
                (dst1, d1) \<leftarrow> itoa w dst d 16;
                vsprintf_loop dst1 d1 src (i + 2) args1 }
            | _ \<Rightarrow> None)
         else vsprintf_loop dst d src (Suc i) args) })"
  by pat_completeness auto
termination by (relation "measure (\<lambda>(dst, d, src, i, args). length src - i)") auto

declare vsprintf_loop.simps [simp del]

text \<open>The returned value, \<open>strlen\<close> of what follows the text, is not used by the program.\<close>

definition vsprintf :: "u8 list \<Rightarrow> nat \<Rightarrow> u8 list \<Rightarrow> printf_arg list \<Rightarrow> (nat \<times> u8 list) option" where
  "vsprintf dst d src args = do {
     (dst1, d1) \<leftarrow> vsprintf_loop dst d src 0 args;
     n \<leftarrow> strlen dst1 d1;
     Some (n, dst1) }"

definition sprintf :: "u8 list \<Rightarrow> nat \<Rightarrow> u8 list \<Rightarrow> printf_arg list \<Rightarrow> u8 list option" where
  "sprintf buf d str args = map_option snd (vsprintf buf d str args)"

text \<open>The text that \<open>putstring\<close> gets.\<close>

definition printf :: "u8 list \<Rightarrow> printf_arg list \<Rightarrow> u8 list option" where
  "printf str args = do {
     (_, buf) \<leftarrow> vsprintf (replicate 1024 0) 0 str args;
     n \<leftarrow> strlen buf 0;
     Some (take n buf) }"

section \<open>Addresses\<close>

fun print_bytes :: "u8 list \<Rightarrow> u8 list \<Rightarrow> u8 list \<Rightarrow> u8 list option" where
  "print_bytes fmt sep [] = Some []"
| "print_bytes fmt sep (b # bs) = do {
     t \<leftarrow> printf fmt [Word (ucast b)];
     s \<leftarrow> (if bs \<noteq> [] then printf sep [] else Some []);
     r \<leftarrow> print_bytes fmt sep bs;
     Some (t @ s @ r) }"

definition print_ip_addr :: "u8 list \<Rightarrow> u8 list option" where
  "print_ip_addr ip_addr = (if length ip_addr < 4 then None else print_bytes [37, 100, 0] [46, 0] (take 4 ip_addr))"

definition print_mac_addr :: "u8 list \<Rightarrow> u8 list option" where
  "print_mac_addr mac_addr = (if length mac_addr < 6 then None else print_bytes [37, 120, 0] [58, 0] (take 6 mac_addr))"

text \<open>The loop of \<open>ipstring2ipuint\<close>; \<open>start\<close> is the position where the current part starts.\<close>

function ipstring_loop :: "u8 list \<Rightarrow> nat \<Rightarrow> nat \<Rightarrow> nat \<Rightarrow> int \<Rightarrow> u32 \<Rightarrow> (u32 \<times> u8 list) option" where
  "ipstring_loop str len i start tms res =
     (if len \<le> i then Some (res, str)
      else do {
        c \<leftarrow> load str i;
        (if c = 46 then do {
           str1 \<leftarrow> store str i 0;
           v \<leftarrow> string2uint str1 start;
           let res1 = res OR push_bit (nat (8 * tms)) v;
           (if tms - 1 < 0 then Some (res1, str1) else ipstring_loop str1 len (Suc i) (i + 1) (tms - 1) res1) }
         else if i = len - 1 then do {
           v \<leftarrow> string2uint str start;
           let res1 = res OR push_bit (nat (8 * tms)) v;
           (if tms - 1 < 0 then Some (res1, str) else ipstring_loop str len (Suc i) start (tms - 1) res1) }
         else ipstring_loop str len (Suc i) start tms res) })"
  by pat_completeness auto
termination by (relation "measure (\<lambda>(str, len, i, start, tms, res). len - i)") auto

declare ipstring_loop.simps [simp del]

definition ipstring2ipuint :: "u8 list \<Rightarrow> nat \<Rightarrow> (u32 \<times> u8 list) option" where
  "ipstring2ipuint str p = do {
     len \<leftarrow> strlen str p;
     (res, str1) \<leftarrow> ipstring_loop (drop p str) len 0 0 3 0;
     Some (res, take p str @ str1) }"

section \<open>What is written\<close>

lemma strlen_zeros: "p < n \<Longrightarrow> strlen (put (replicate n 0) 0 s) p = Some 0" if "length s \<le> p" for s
  using that strlen_cstr [of "put (replicate n 0) 0 s" p "[]"] by (simp add: cstr_def nth_put)

lemma put_zeros_cstr: "length s < n \<Longrightarrow> 0 \<notin> set s \<Longrightarrow> cstr (put (replicate n 0) 0 s) 0 s"
  using cstr_put [of 0 s "replicate n 0"] by simp

lemma take_put_0: "length s \<le> length buf \<Longrightarrow> take (length s) (put buf 0 s) = s"
  by (simp add: put_def)

lemma printf_text:
  assumes "vsprintf_loop (replicate 1024 0) 0 str 0 args = Some (put (replicate 1024 0) 0 t, length t)"
    and "length t < 1024" and "0 \<notin> set t"
  shows "printf str args = Some t"
  using assms strlen_zeros [of t "length t" 1024] strlen_cstr [OF put_zeros_cstr [of t 1024]] take_put_0 [of t "replicate 1024 0"]
  by (simp add: printf_def vsprintf_def)

lemma not_negative: "\<not> (ucast (b :: u8) :: u32) <s 0"
proof -
  have "unat (ucast b :: u32) = unat b"
    using unsigned_less [of b, where 'a = nat] by (simp add: unsigned_ucast_eq take_bit_nat_eq_self)
  moreover have "unat b < 256" using unsigned_less [of b, where 'a = nat] by simp
  ultimately have "sint (ucast b :: u32) = int (unat b)" by (simp add: sint_unat_small)
  then show ?thesis by (simp add: word_sless_alt)
qed

lemma unat_ucast_u32: "unat (ucast (b :: u8) :: u32) = unat b"
  using unsigned_less [of b, where 'a = nat] by (simp add: unsigned_ucast_eq take_bit_nat_eq_self)

lemma digits_bound: "length (itoa_digits (unat (b :: u8)) 10) \<le> 3"
  using unsigned_less [of b, where 'a = nat] by (intro length_itoa_digits) simp_all

lemma printf_decimal: "printf [37, 100, 0] [Word (ucast b)] = Some (itoa_digits (unat b) 10)" for b :: u8
proof (rule printf_text)
  let ?t = "itoa_digits (unat b) 10"
  have "itoa (ucast b) (replicate 1024 0) 0 10 = Some (put (replicate 1024 0) 0 ?t, length ?t)"
    using itoa_put [of 10 0 "ucast b" "replicate 1024 0"] digits_bound [of b] by (simp add: unat_ucast_u32)
  then show "vsprintf_loop (replicate 1024 0) 0 [37, 100, 0] 0 [Word (ucast b)] = Some (put (replicate 1024 0) 0 ?t, length ?t)"
    by (simp add: vsprintf_loop.simps load_def put_decimal_def not_negative)
qed (use digits_bound [of b] itoa_digits_nonzero in auto)

lemma printf_char: "c \<noteq> 0 \<Longrightarrow> c \<noteq> 37 \<Longrightarrow> printf [c, 0] [] = Some [c]"
  by (rule printf_text) (simp_all add: vsprintf_loop.simps mem_simps put_def upd_conv_take_nth_drop)

section \<open>Addresses in dotted notation\<close>

definition ip_text :: "u8 list \<Rightarrow> u8 list" where
  "ip_text ip = itoa_digits (unat (ip ! 0)) 10 @ [46] @ itoa_digits (unat (ip ! 1)) 10 @ [46]
     @ itoa_digits (unat (ip ! 2)) 10 @ [46] @ itoa_digits (unat (ip ! 3)) 10"

definition ip_uint :: "u8 list \<Rightarrow> u32" where
  "ip_uint ip = push_bit 24 (ucast (ip ! 0)) OR push_bit 16 (ucast (ip ! 1)) OR push_bit 8 (ucast (ip ! 2)) OR ucast (ip ! 3)"

lemma print_bytes_four: "print_bytes [37, 100, 0] [46, 0] [a, b, c, d] = Some (ip_text [a, b, c, d])"
  by (simp add: ip_text_def printf_decimal printf_char)

lemma print_ip_addr_text: "length ip = 4 \<Longrightarrow> print_ip_addr ip = Some (ip_text ip)"
proof -
  assume l: "length ip = 4"
  then obtain a b c d where "ip = [a, b, c, d]" by (auto simp: numeral_eq_Suc length_Suc_conv)
  then show ?thesis by (simp add: print_ip_addr_def print_bytes_four del: print_bytes.simps)
qed

lemma itoa_digits_not_dot: "46 \<notin> set (itoa_digits n 10)"
proof (induction n rule: less_induct)
  case (less n)
  have "sint (46 :: u8) \<noteq> sint (itoa_digit (of_nat (n mod 10)))" by (simp add: sint_itoa_digit)
  then have "itoa_digit (of_nat (n mod 10)) \<noteq> 46" by auto
  moreover have "46 \<notin> set (itoa_digits (n div 10) 10)" if "n div 10 \<noteq> 0"
    using that by (intro less) simp
  ultimately show ?case by (auto simp: itoa_digits.simps [of n])
qed

lemma itoa_digits_nonempty: "itoa_digits n 10 \<noteq> []"
  by (simp add: itoa_digits.simps [of n])

lemma ipstring_loop_skip:
  "i + k < len \<Longrightarrow> len \<le> length str \<Longrightarrow> \<forall>j < k. str ! (i + j) \<noteq> 46 \<Longrightarrow>
   ipstring_loop str len i start tms res = ipstring_loop str len (i + k) start tms res"
proof (induction k)
  case (Suc k)
  then have "str ! (i + k) \<noteq> 46" "i + k \<noteq> len - 1" "i + k < len" "i + k < length str" by auto
  then have "ipstring_loop str len (i + k) start tms res = ipstring_loop str len (Suc (i + k)) start tms res"
    by (subst ipstring_loop.simps) (simp add: load_def)
  then show ?case using Suc by simp
qed simp

text \<open>At \<open>p\<close> of the object stands the text \<open>t\<close>.\<close>

definition text_at :: "u8 list \<Rightarrow> nat \<Rightarrow> u8 list \<Rightarrow> bool" where
  "text_at str p t \<longleftrightarrow> p + length t \<le> length str \<and> take (length t) (drop p str) = t"

lemma text_at_nth: "text_at str p t \<Longrightarrow> j < length t \<Longrightarrow> str ! (p + j) = t ! j"
  by (metis (no_types, lifting) add_leD1 nth_drop nth_take text_at_def)

lemma text_at_append: "text_at str p (s @ t) \<longleftrightarrow> text_at str p s \<and> text_at str (p + length s) t"
  by (auto simp: text_at_def take_add add.commute add.left_commute)

lemma text_at_dot: "text_at str p (s @ 46 # t) \<longleftrightarrow> text_at str p (s @ [46]) \<and> text_at str (p + (length s + 1)) t"
  using text_at_append [of str p "s @ [46]" t] by simp

lemma text_at_update: "text_at str p t \<Longrightarrow> e < p \<Longrightarrow> text_at (str[e := c]) p t"
  by (simp add: text_at_def)

lemma text_at_cstr: "text_at str p t \<Longrightarrow> p + length t < length str \<Longrightarrow> str ! (p + length t) = 0 \<Longrightarrow> 0 \<notin> set t \<Longrightarrow> cstr str p t"
  using text_at_nth [of str p t] by (simp add: cstr_def)

lemma ipstring_loop_part:
  assumes "text_at str p (ds @ [46])" and "46 \<notin> set ds" and "0 \<notin> set ds" and "p + length ds < len" and "len \<le> length str" and "0 < tms"
  shows "ipstring_loop str len p p tms res = ipstring_loop (str[p + length ds := 0]) len (p + length ds + 1) (p + length ds + 1) (tms - 1)
     (res OR push_bit (nat (8 * tms)) (word_of_int (dval ds)))"
proof -
  let ?e = "p + length ds"
  have t: "text_at str p ds" "str ! ?e = 46" using assms(1) text_at_nth [OF assms(1), of "length ds"] by (simp_all add: text_at_append)
  have "\<forall>j < length ds. str ! (p + j) \<noteq> 46" using text_at_nth [OF t(1)] assms(2) by (metis nth_mem)
  then have "ipstring_loop str len p p tms res = ipstring_loop str len ?e p tms res"
    by (intro ipstring_loop_skip assms)
  moreover have "cstr (str[?e := 0]) p ds"
    using t(1) assms(3-5) by (intro text_at_cstr) (auto simp: text_at_def drop_update_swap)
  then have "string2uint (str[?e := 0]) p = Some (word_of_int (dval ds))" by (rule string2uint_cstr)
  ultimately show ?thesis using t(2) assms(4-6)
    by (simp add: ipstring_loop.simps [of str len ?e] load_def store_def Let_def)
qed

lemma ipstring_loop_last:
  assumes "cstr str p ds" and "46 \<notin> set ds" and "ds \<noteq> []"
  shows "ipstring_loop str (p + length ds) p p 0 res = Some (res OR word_of_int (dval ds), str)"
proof -
  obtain n where l: "length ds = Suc n" using assms(3) by (cases ds) simp_all
  have n: "str ! (p + j) \<noteq> 46" if "j < length ds" for j using that assms(1,2) by (metis cstr_def nth_mem)
  have "ipstring_loop str (p + length ds) p p 0 res = ipstring_loop str (p + length ds) (p + n) p 0 res"
    using assms(1) l n by (intro ipstring_loop_skip) (auto simp: cstr_def)
  moreover have "str ! (p + n) \<noteq> 46" "p + n < length str" using n [of n] l assms(1) by (auto simp: cstr_def)
  ultimately show ?thesis using l string2uint_cstr [OF assms(1)]
    by (simp add: ipstring_loop.simps [of str "Suc (p + n)" "p + n"] load_def Let_def)
qed

text \<open>The printed text of an address is read back as the number of the address.\<close>

lemma ipstring_of_text:
  assumes "cstr str 0 (ip_text ip)"
  shows "\<exists>str'. ipstring2ipuint str 0 = Some (ip_uint ip, str')"
proof -
  define a where "a = itoa_digits (unat (ip ! 0)) 10"
  define b where "b = itoa_digits (unat (ip ! 1)) 10"
  define c where "c = itoa_digits (unat (ip ! 2)) 10"
  define d where "d = itoa_digits (unat (ip ! 3)) 10"
  let ?len = "length (ip_text ip)" and ?pb = "0 + (length a + 1)" and ?pc = "0 + (length a + 1) + (length b + 1)"
  let ?pd = "0 + (length a + 1) + (length b + 1) + (length c + 1)"
  have t: "ip_text ip = a @ [46] @ b @ [46] @ c @ [46] @ d" by (simp add: ip_text_def a_def b_def c_def d_def)
  have nz: "0 \<notin> set a" "0 \<notin> set b" "0 \<notin> set c" "0 \<notin> set d" "46 \<notin> set a" "46 \<notin> set b" "46 \<notin> set c" "46 \<notin> set d" "d \<noteq> []"
    by (simp_all add: a_def b_def c_def d_def itoa_digits_nonzero itoa_digits_not_dot itoa_digits_nonempty)
  have v: "dval a = int (unat (ip ! 0))" "dval b = int (unat (ip ! 1))" "dval c = int (unat (ip ! 2))" "dval d = int (unat (ip ! 3))"
    by (simp_all add: a_def b_def c_def d_def dval_itoa_digits)
  have len: "?len = ?pd + length d" "?len < length str" "str ! ?len = 0" using assms t by (simp_all add: cstr_def)
  have "take ?len str = ip_text ip" using assms by (intro nth_equalityI) (simp_all add: cstr_def)
  then have "text_at str 0 (a @ 46 # b @ 46 # c @ 46 # d)" using len t by (simp add: text_at_def)
  then have p: "text_at str 0 (a @ [46])" "text_at str ?pb (b @ [46])" "text_at str ?pc (c @ [46])" "text_at str ?pd d"
    using text_at_dot [of str 0 a "b @ 46 # c @ 46 # d"] text_at_dot [of str ?pb b "c @ 46 # d"] text_at_dot [of str ?pc c d]
    by blast+
  let ?s1 = "str[0 + length a := 0]" and ?s2 = "str[0 + length a := 0, ?pb + length b := 0]"
  let ?s3 = "str[0 + length a := 0, ?pb + length b := 0, ?pc + length c := 0]"
  have q2: "text_at ?s1 ?pb (b @ [46])" using p(2) by (intro text_at_update) simp_all
  have q3: "text_at ?s2 ?pc (c @ [46])" using p(3) by (intro text_at_update) simp_all
  have "ipstring_loop str ?len 0 0 3 0 = ipstring_loop ?s1 ?len ?pb ?pb 2 (push_bit 24 (word_of_int (dval a)))"
    using ipstring_loop_part [OF p(1) nz(5,1), of ?len 3 0] len by simp
  also have "\<dots> = ipstring_loop ?s2 ?len ?pc ?pc 1 (push_bit 24 (word_of_int (dval a)) OR push_bit 16 (word_of_int (dval b)))"
    using ipstring_loop_part [OF q2 nz(6,2), of ?len 2] len by (simp add: add.assoc)
  also have "\<dots> = ipstring_loop ?s3 ?len ?pd ?pd 0
      (push_bit 24 (word_of_int (dval a)) OR push_bit 16 (word_of_int (dval b)) OR push_bit 8 (word_of_int (dval c)))"
    using ipstring_loop_part [OF q3 nz(7,3), of ?len 1] len by (simp add: add.assoc or.assoc)
  also have "\<dots> = Some (ip_uint ip, ?s3)"
  proof -
    have "text_at ?s3 ?pd d" using p(4) by (intro text_at_update) simp_all
    then have "cstr ?s3 ?pd d" using len nz(4) by (intro text_at_cstr) simp_all
    moreover have w: "word_of_int (int (unat x)) = (ucast x :: u32)" for x :: u8
      by (simp add: word_eq_iff_unat unat_ucast_u32)
    ultimately show ?thesis using ipstring_loop_last [OF _ nz(8,9), of ?s3 ?pd] len(1) v by (simp add: ip_uint_def or.assoc)
  qed
  finally show ?thesis using strlen_cstr [OF assms] by (simp add: ipstring2ipuint_def)
qed

end
