(* ===== verification/Net_Interface.thy ===== *)
theory Net_Interface
  imports Packet Stdio
begin

text \<open>
  Model of the tables and interfaces of the network server: the ARP cache (\<open>ArpCacheTable\<close> of
  \<open>net/arp.cc\<close>), the route table (\<open>net/route_table.cc\<close>), an interface
  (\<open>net/network_interface.cc\<close>) and the manager of the interfaces
  (\<open>net/network_manager.cc\<close>).

  The cache has five items; a slot is free when its hardware address is zero. A lookup counts
  the use of the item it finds and returns its address, or \<open>None\<close> for the null pointer. An
  index that the code returns is an \<open>int\<close>, with \<open>-1\<close> for no slot. Memory that no constructor
  initialises is an argument.

  The theory shows that an association that was learned is found again, that learning replaces
  a free item or else a least used one and keeps the others, and that an address in text form
  configures the interface with that address.
\<close>

section \<open>ARP cache\<close>

record mac_map_ip =
  mac_addr :: "u8 list"
  ip_addr :: "u8 list"
  ref :: u32

type_synonym arp_table = "mac_map_ip list"

text \<open>The comparison of the first \<open>n\<close> bytes of two arrays.\<close>

fun same_bytes :: "u8 list \<Rightarrow> u8 list \<Rightarrow> nat \<Rightarrow> bool" where
  "same_bytes (x # xs) (y # ys) (Suc n) = (x = y \<and> same_bytes xs ys n)"
| "same_bytes xs ys n = True"

definition is_same_mac_addr :: "u8 list \<Rightarrow> u8 list \<Rightarrow> bool" where
  "is_same_mac_addr a b = same_bytes a b 6"

definition is_same_ip_addr :: "u8 list \<Rightarrow> u8 list \<Rightarrow> bool" where
  "is_same_ip_addr a b = same_bytes a b 4"

definition zero_item :: mac_map_ip where
  "zero_item = \<lparr>mac_addr = replicate 6 0, ip_addr = replicate 4 0, ref = 0\<rparr>"

definition new_arp_table :: arp_table where
  "new_arp_table = replicate 5 zero_item"

definition set_item :: "arp_table \<Rightarrow> nat \<Rightarrow> u8 list \<Rightarrow> u8 list \<Rightarrow> arp_table option" where
  "set_item t slot mac ip = do {
     m \<leftarrow> read_bytes mac 0 6;
     a \<leftarrow> read_bytes ip 0 4;
     item \<leftarrow> load t slot;
     store t slot (item\<lparr>mac_addr := m, ip_addr := a\<rparr>) }"

text \<open>The first item, from slot \<open>i\<close> on, with a property.\<close>

fun locate_from :: "(mac_map_ip \<Rightarrow> bool) \<Rightarrow> arp_table \<Rightarrow> nat \<Rightarrow> int" where
  "locate_from f [] i = -1"
| "locate_from f (item # items) i = (if f item then int i else locate_from f items (Suc i))"

definition locate_mac_addr :: "arp_table \<Rightarrow> u8 list \<Rightarrow> int" where
  "locate_mac_addr t mac = locate_from (\<lambda>item. is_same_mac_addr (mac_addr item) mac) t 0"

definition locate_ip_addr :: "arp_table \<Rightarrow> u8 list \<Rightarrow> int" where
  "locate_ip_addr t ip = locate_from (\<lambda>item. is_same_ip_addr (ip_addr item) ip) t 0"

definition count_use :: "arp_table \<Rightarrow> nat \<Rightarrow> arp_table" where
  "count_use t i = t[i := (t ! i)\<lparr>ref := ref (t ! i) + 1\<rparr>]"

definition cache_ip_addr :: "arp_table \<Rightarrow> u8 list \<Rightarrow> u8 list option \<times> arp_table" where
  "cache_ip_addr t mac =
     (let i = locate_mac_addr t mac in
      if i \<noteq> -1 then (Some (ip_addr (t ! nat i)), count_use t (nat i)) else (None, t))"

definition cache_mac_addr :: "arp_table \<Rightarrow> u8 list \<Rightarrow> u8 list option \<times> arp_table" where
  "cache_mac_addr t ip =
     (let i = locate_ip_addr t ip in
      if i \<noteq> -1 then (Some (mac_addr (t ! nat i)), count_use t (nat i)) else (None, t))"

text \<open>\<open>delete_item\<close> is declared to return a truth value but does not.\<close>

definition delete_item :: "arp_table \<Rightarrow> u8 list \<Rightarrow> arp_table option" where
  "delete_item t mac =
     (let i = locate_mac_addr t mac in
      if i \<noteq> -1 then set_item t (nat i) mac_zero (replicate 4 0) else Some t)"

definition is_free_slot :: "mac_map_ip \<Rightarrow> bool" where
  "is_free_slot item = same_bytes (mac_addr item) (replicate 6 0) 6"

definition arp_free_slot :: "arp_table \<Rightarrow> int" where
  "arp_free_slot t = locate_from is_free_slot t 0"

definition arp_is_exists :: "arp_table \<Rightarrow> u8 list \<Rightarrow> u8 list \<Rightarrow> bool \<times> arp_table" where
  "arp_is_exists t mac ip =
     (case cache_ip_addr t mac of
        (None, t1) \<Rightarrow> (False, t1)
      | (Some ip_in_tbl, t1) \<Rightarrow> (same_bytes ip ip_in_tbl 4, t1))"

text \<open>The slot of a least used item; the loop keeps the first one among equals.\<close>

fun less_use_from :: "mac_map_ip list \<Rightarrow> nat \<Rightarrow> nat \<Rightarrow> u32 \<Rightarrow> nat" where
  "less_use_from [] i idx cnt = idx"
| "less_use_from (item # items) i idx cnt =
     (if ref item < cnt then less_use_from items (Suc i) i (ref item) else less_use_from items (Suc i) idx cnt)"

definition remove_less_use_item :: "arp_table \<Rightarrow> nat" where
  "remove_less_use_item t = less_use_from (tl t) 1 0 (ref (hd t))"

definition arp_append :: "arp_table \<Rightarrow> u8 list \<Rightarrow> u8 list \<Rightarrow> arp_table option" where
  "arp_append t mac ip =
     (case arp_is_exists t mac ip of
        (True, t1) \<Rightarrow> Some t1
      | (False, t1) \<Rightarrow>
          (let slot = (if arp_free_slot t1 = -1 then remove_less_use_item t1 else nat (arp_free_slot t1))
           in set_item t1 slot mac ip))"

text \<open>What \<open>print_all\<close> prints, line by line.\<close>

definition arp_print_all :: "arp_table \<Rightarrow> (u8 list \<times> u8 list) list option" where
  "arp_print_all t = those (map (\<lambda>item. do {
       m \<leftarrow> print_mac_addr (mac_addr item);
       i \<leftarrow> print_ip_addr (ip_addr item);
       Some (m, i) }) (filter (\<lambda>item. \<not> is_free_slot item) t))"

section \<open>Route table\<close>

record route_tbl_item =
  destination :: "u8 list"
  gateway :: "u8 list"
  net_mask :: "u8 list"

type_synonym route_table = "route_tbl_item list"

definition new_route_table :: "route_table \<Rightarrow> route_table" where
  "new_route_table garbage =
     garbage[0 := \<lparr>destination = replicate 4 0, gateway = replicate 4 0, net_mask = replicate 4 0\<rparr>]"

definition get_default_gateway :: "route_table \<Rightarrow> u8 list" where
  "get_default_gateway t = gateway (t ! 0)"

definition set_default_gateway :: "route_table \<Rightarrow> u8 list \<Rightarrow> route_table option" where
  "set_default_gateway t gw = do {
     g \<leftarrow> read_bytes gw 0 4;
     Some (t[0 := (t ! 0)\<lparr>gateway := g\<rparr>]) }"

section \<open>Interfaces\<close>

record network_interface =
  iface_name :: "u8 list"
  if_mac :: "u8 list"
  if_ip :: "u8 list"
  arp_tbl :: arp_table
  route_tbl :: route_table

text \<open>The two constructors.\<close>

definition new_interface :: "network_interface \<Rightarrow> network_interface option" where
  "new_interface garbage = do {
     rt \<leftarrow> set_default_gateway (new_route_table (route_tbl garbage)) [172, 17, 0, 1];
     Some (garbage\<lparr>iface_name := replicate 16 0, arp_tbl := new_arp_table, route_tbl := rt\<rparr>) }"

definition new_interface_of :: "network_interface \<Rightarrow> u8 list \<Rightarrow> u8 list \<Rightarrow> network_interface option" where
  "new_interface_of garbage mac ip = do {
     m \<leftarrow> read_bytes mac 0 6;
     a \<leftarrow> read_bytes ip 0 4;
     at \<leftarrow> set_item new_arp_table 0 mac ip;
     rt \<leftarrow> set_default_gateway (new_route_table (route_tbl garbage)) [172, 17, 0, 1];
     Some \<lparr>iface_name = replicate 16 0, if_mac = m, if_ip = a, arp_tbl = at, route_tbl = rt\<rparr> }"

definition set_mac_addr :: "network_interface \<Rightarrow> u8 list \<Rightarrow> network_interface option" where
  "set_mac_addr n mac = do {
     m \<leftarrow> read_bytes mac 0 6;
     Some (n\<lparr>if_mac := m\<rparr>) }"

definition set_ip_addr :: "network_interface \<Rightarrow> u8 list \<Rightarrow> network_interface option" where
  "set_ip_addr n ip = do {
     a \<leftarrow> read_bytes ip 0 4;
     Some (n\<lparr>if_ip := a\<rparr>) }"

definition set_name :: "network_interface \<Rightarrow> u8 list \<Rightarrow> network_interface option" where
  "set_name n nm = do {
     l \<leftarrow> strlen nm 0;
     b \<leftarrow> memcpy (iface_name n) 0 nm 0 l;
     Some (n\<lparr>iface_name := b\<rparr>) }"

definition get_default_gateway_ip :: "network_interface \<Rightarrow> u8 list" where
  "get_default_gateway_ip n = get_default_gateway (route_tbl n)"

definition get_default_gateway_mac :: "network_interface \<Rightarrow> u8 list option \<times> network_interface" where
  "get_default_gateway_mac n =
     (let (r, t) = cache_mac_addr (arp_tbl n) (get_default_gateway_ip n) in (r, n\<lparr>arp_tbl := t\<rparr>))"

text \<open>The bytes of a number, the highest one first; the second argument of \<open>config_iface\<close> is not
  used.\<close>

definition uint_bytes :: "u32 \<Rightarrow> u8 list" where
  "uint_bytes w = [ucast (drop_bit 24 (w AND 0xff000000)), ucast (drop_bit 16 (w AND 0x00ff0000)),
     ucast (drop_bit 8 (w AND 0x0000ff00)), ucast (w AND 0x000000ff)]"

definition config_iface :: "network_interface \<Rightarrow> u32 \<Rightarrow> u32 \<Rightarrow> network_interface option" where
  "config_iface n ip_num gateway_num = set_ip_addr n (uint_bytes ip_num)"

section \<open>The manager\<close>

record network_manager =
  net_ifaces :: "network_interface list"
  cur_iface :: u8
  ifaces_nr :: u8

text \<open>The address 172.17.0.2 and the name "iface1"; the hardware address comes from the driver.\<close>

definition new_network_manager :: "network_interface list \<Rightarrow> u8 list \<Rightarrow> network_manager option" where
  "new_network_manager garbage mac = do {
     ns \<leftarrow> those (map new_interface garbage);
     n0 \<leftarrow> load ns 0;
     n1 \<leftarrow> set_mac_addr n0 mac;
     n2 \<leftarrow> set_ip_addr n1 [172, 17, 0, 2];
     n3 \<leftarrow> set_name n2 [105, 102, 97, 99, 101, 49, 0];
     t \<leftarrow> set_item (arp_tbl n3) 0 mac [172, 17, 0, 2];
     Some \<lparr>net_ifaces = ns[0 := n3\<lparr>arp_tbl := t\<rparr>], cur_iface = 0, ifaces_nr = 1\<rparr> }"

definition get_cur_ifaces :: "network_manager \<Rightarrow> network_interface option" where
  "get_cur_ifaces nm = load (net_ifaces nm) (unat (cur_iface nm))"

section \<open>Lookups\<close>

definition arp_inv :: "arp_table \<Rightarrow> bool" where
  "arp_inv t \<longleftrightarrow> length t = 5 \<and> (\<forall>item \<in> set t. length (mac_addr item) = 6 \<and> length (ip_addr item) = 4)"

lemma same_bytes_iff: "length a = n \<Longrightarrow> length b = n \<Longrightarrow> same_bytes a b n \<longleftrightarrow> a = b"
  by (induction a b n rule: same_bytes.induct) (auto simp: length_Suc_conv)

lemma locate_from_none: "locate_from f t i = -1 \<longleftrightarrow> (\<forall>x \<in> set t. \<not> f x)"
  by (induction t arbitrary: i) auto

lemma locate_from_first: "k < length t \<Longrightarrow> f (t ! k) \<Longrightarrow> \<forall>j < k. \<not> f (t ! j) \<Longrightarrow> locate_from f t i = int (i + k)"
proof (induction t arbitrary: i k)
  case (Cons x t)
  then show ?case
  proof (cases k)
    case (Suc k')
    then have "\<not> f x" "\<forall>j < k'. \<not> f (t ! j)" using Cons.prems(3) by auto
    then show ?thesis using Cons Suc by simp
  qed simp
qed simp

lemma locate_from_found:
  assumes "locate_from f t i \<noteq> -1"
  obtains k where "k < length t" and "f (t ! k)" and "locate_from f t i = int (i + k)"
proof -
  obtain x where "x \<in> set t" "f x" using assms locate_from_none by blast
  then have ex: "\<exists>k. k < length t \<and> f (t ! k)" by (metis in_set_conv_nth)
  let ?k = "LEAST k. k < length t \<and> f (t ! k)"
  have k: "?k < length t \<and> f (t ! ?k)" using ex by (rule LeastI_ex)
  moreover have "\<not> f (t ! j)" if "j < ?k" for j using not_less_Least [OF that] less_trans [OF that] k by blast
  then have "\<forall>j < ?k. \<not> f (t ! j)" by blast
  ultimately show ?thesis using that locate_from_first [of ?k t f i] by blast
qed

lemma less_use_from_least:
  "less_use_from items (length pre) idx cnt = k \<Longrightarrow> idx < length pre \<Longrightarrow> ref (pre ! idx) = cnt \<Longrightarrow>
   \<forall>x \<in> set pre. cnt \<le> ref x \<Longrightarrow>
   k < length (pre @ items) \<and> (\<forall>x \<in> set (pre @ items). ref ((pre @ items) ! k) \<le> ref x)"
proof (induction items arbitrary: pre idx cnt)
  case Nil
  then show ?case by (auto simp: nth_append)
next
  case (Cons item items)
  show ?case
  proof (cases "ref item < cnt")
    case True
    then have "\<forall>x \<in> set (pre @ [item]). ref item \<le> ref x" using Cons.prems(4) by (auto dest: less_imp_le order.strict_trans2)
    then show ?thesis using Cons.IH [of "pre @ [item]" "length pre" "ref item"] Cons.prems(1) True by simp
  next
    case False
    then have "less_use_from items (length (pre @ [item])) idx cnt = k" using Cons.prems(1) by simp
    moreover have "ref ((pre @ [item]) ! idx) = cnt" "\<forall>x \<in> set (pre @ [item]). cnt \<le> ref x" "idx < length (pre @ [item])"
      using Cons.prems(2-4) False by (simp_all add: nth_append not_less)
    ultimately show ?thesis using Cons.IH [of "pre @ [item]" idx cnt] by simp
  qed
qed

lemma remove_less_use_item_least:
  assumes "t \<noteq> []"
  shows "remove_less_use_item t < length t \<and> (\<forall>x \<in> set t. ref (t ! remove_less_use_item t) \<le> ref x)"
proof -
  have "hd t # tl t = t" using assms by simp
  then show ?thesis
    using less_use_from_least [of "tl t" "[hd t]" 0 "ref (hd t)" "remove_less_use_item t"] by (simp add: remove_less_use_item_def)
qed

text \<open>Two tables with the same addresses, whatever the counts of use are.\<close>

definition same_addrs :: "arp_table \<Rightarrow> arp_table \<Rightarrow> bool" where
  "same_addrs t t' \<longleftrightarrow> map (\<lambda>x. (mac_addr x, ip_addr x)) t' = map (\<lambda>x. (mac_addr x, ip_addr x)) t"

lemma same_addrsD:
  assumes "same_addrs t t'"
  shows "length t' = length t" and "j < length t \<Longrightarrow> mac_addr (t' ! j) = mac_addr (t ! j)"
    and "j < length t \<Longrightarrow> ip_addr (t' ! j) = ip_addr (t ! j)"
proof -
  have m: "map (\<lambda>x. (mac_addr x, ip_addr x)) t' = map (\<lambda>x. (mac_addr x, ip_addr x)) t" using assms by (simp add: same_addrs_def)
  then show l: "length t' = length t" by (rule map_eq_imp_length_eq)
  assume "j < length t"
  then have "(\<lambda>x. (mac_addr x, ip_addr x)) (t' ! j) = (\<lambda>x. (mac_addr x, ip_addr x)) (t ! j)"
    using arg_cong [OF m, of "\<lambda>xs. xs ! j"] l by simp
  then show "mac_addr (t' ! j) = mac_addr (t ! j)" "ip_addr (t' ! j) = ip_addr (t ! j)" by simp_all
qed

lemma same_addrs_count_use: "same_addrs t (count_use t i)"
proof (cases "i < length t")
  case True
  then show ?thesis by (simp add: same_addrs_def count_use_def map_update)
      (metis (no_types, lifting) list_update_id map_update nth_map)
next
  case False
  then show ?thesis by (simp add: same_addrs_def count_use_def list_update_beyond)
qed

lemma same_addrs_inv: "same_addrs t t' \<Longrightarrow> arp_inv t \<Longrightarrow> arp_inv t'"
  unfolding arp_inv_def all_set_conv_all_nth by (simp add: same_addrsD)

section \<open>Learning an association\<close>

lemma set_item_in:
  assumes "slot < length t" and "length mac = 6" and "length ip = 4"
  shows "set_item t slot mac ip = Some (t[slot := (t ! slot)\<lparr>mac_addr := mac, ip_addr := ip\<rparr>])"
  using assms by (simp add: set_item_def mem_simps)

text \<open>The slot that \<open>append\<close> takes in a table.\<close>

definition arp_slot :: "arp_table \<Rightarrow> nat" where
  "arp_slot t = (if arp_free_slot t = -1 then remove_less_use_item t else nat (arp_free_slot t))"

lemma arp_slot_props:
  assumes "t \<noteq> []"
  shows "arp_slot t < length t" and "\<exists>x \<in> set t. is_free_slot x \<Longrightarrow> is_free_slot (t ! arp_slot t)"
    and "\<forall>x \<in> set t. \<not> is_free_slot x \<Longrightarrow> \<forall>x \<in> set t. ref (t ! arp_slot t) \<le> ref x"
proof -
  have none: "arp_free_slot t = -1 \<longleftrightarrow> (\<forall>x \<in> set t. \<not> is_free_slot x)" by (simp add: arp_free_slot_def locate_from_none)
  have found: "nat (arp_free_slot t) < length t \<and> is_free_slot (t ! nat (arp_free_slot t))" if "arp_free_slot t \<noteq> -1"
    using that by (auto simp: arp_free_slot_def elim: locate_from_found [of is_free_slot t 0])
  show "arp_slot t < length t" using found remove_less_use_item_least [OF assms] by (simp add: arp_slot_def)
  show "is_free_slot (t ! arp_slot t)" if "\<exists>x \<in> set t. is_free_slot x" using that none found by (auto simp: arp_slot_def)
  show "\<forall>x \<in> set t. ref (t ! arp_slot t) \<le> ref x" if "\<forall>x \<in> set t. \<not> is_free_slot x"
    using that none remove_less_use_item_least [OF assms] by (simp add: arp_slot_def)
qed

lemma cache_ip_addr_same: "same_addrs t (snd (cache_ip_addr t mac))"
  by (simp add: cache_ip_addr_def Let_def same_addrs_count_use) (simp add: same_addrs_def)

lemma arp_append_new:
  assumes "arp_inv t" and "length mac = 6" and "length ip = 4" and "\<forall>x \<in> set t. ip_addr x \<noteq> ip"
  obtains t1 where "same_addrs t t1"
    and "arp_append t mac ip = Some (t1[arp_slot t1 := (t1 ! arp_slot t1)\<lparr>mac_addr := mac, ip_addr := ip\<rparr>])"
proof -
  let ?t1 = "snd (cache_ip_addr t mac)"
  have s: "same_addrs t ?t1" by (rule cache_ip_addr_same)
  have ne: "?t1 \<noteq> []" using same_addrsD(1) [OF s] assms(1) by (auto simp: arp_inv_def)
  have "same_bytes ip a 4 = False" if "fst (cache_ip_addr t mac) = Some a" for a
  proof -
    have i: "locate_mac_addr t mac \<noteq> -1" "a = ip_addr (t ! nat (locate_mac_addr t mac))"
      using that by (auto simp: cache_ip_addr_def Let_def split: if_splits)
    obtain k where "k < length t" "locate_mac_addr t mac = int (0 + k)"
      using i(1) unfolding locate_mac_addr_def by (rule locate_from_found)
    then have "a \<in> ip_addr ` set t" using i(2) by simp
    then have "a \<noteq> ip" "length a = 4" using assms(1,4) by (auto simp: arp_inv_def)
    then show ?thesis using same_bytes_iff [of ip 4 a] assms(3) by simp
  qed
  then have "arp_is_exists t mac ip = (False, ?t1)"
    by (cases "cache_ip_addr t mac") (auto simp: arp_is_exists_def split: option.splits)
  then have "arp_append t mac ip = set_item ?t1 (arp_slot ?t1) mac ip"
    by (simp add: arp_append_def arp_slot_def Let_def)
  then show ?thesis using that [OF s] set_item_in [OF arp_slot_props(1) [OF ne] assms(2,3)] by simp
qed

lemma cache_mac_addr_of_slot:
  assumes "arp_inv t" and "k < 5" and "ip_addr (t ! k) = ip" and "\<forall>j < k. ip_addr (t ! j) \<noteq> ip" and "length ip = 4"
  shows "fst (cache_mac_addr t ip) = Some (mac_addr (t ! k))"
proof -
  have len: "length t = 5" "\<And>j. j < 5 \<Longrightarrow> length (ip_addr (t ! j)) = 4" using assms(1) by (auto simp: arp_inv_def)
  have "locate_ip_addr t ip = int (0 + k)" unfolding locate_ip_addr_def
  proof (rule locate_from_first)
    show "is_same_ip_addr (ip_addr (t ! k)) ip" using assms(3) same_bytes_iff [of ip 4 ip] assms(5) by (simp add: is_same_ip_addr_def)
    show "\<forall>j < k. \<not> is_same_ip_addr (ip_addr (t ! j)) ip"
      using assms(2,4,5) same_bytes_iff len(2) by (simp add: is_same_ip_addr_def)
  qed (use len assms(2) in simp)
  then show ?thesis by (simp add: cache_mac_addr_def)
qed

text \<open>An association that the cache learns for a new network address is found afterwards. It
  takes the place of a free item, or, when there is none, of an item that was used least, and
  every other item keeps its addresses.\<close>

lemma arp_learned:
  assumes "arp_inv t" and "length mac = 6" and "length ip = 4" and "\<forall>x \<in> set t. ip_addr x \<noteq> ip"
  shows "\<exists>t' slot. arp_append t mac ip = Some t' \<and> arp_inv t' \<and> slot < 5 \<and> fst (cache_mac_addr t' ip) = Some mac
    \<and> (\<forall>j < 5. j \<noteq> slot \<longrightarrow> mac_addr (t' ! j) = mac_addr (t ! j) \<and> ip_addr (t' ! j) = ip_addr (t ! j))
    \<and> (if \<exists>x \<in> set t. is_free_slot x then is_free_slot (t ! slot) else \<forall>x \<in> set t'. ref (t' ! slot) \<le> ref x)"
proof -
  obtain t1 where t1: "same_addrs t t1"
    "arp_append t mac ip = Some (t1[arp_slot t1 := (t1 ! arp_slot t1)\<lparr>mac_addr := mac, ip_addr := ip\<rparr>])"
    using arp_append_new [OF assms] by blast
  let ?k = "arp_slot t1"
  let ?x = "(t1 ! ?k)\<lparr>mac_addr := mac, ip_addr := ip\<rparr>"
  let ?t' = "t1[?k := ?x]"
  have inv1: "arp_inv t1" using same_addrs_inv t1(1) assms(1) by blast
  then have l: "length t1 = 5" "length t = 5" "t1 \<noteq> []" using assms(1) by (auto simp: arp_inv_def)
  note p = arp_slot_props [OF l(3)]
  have k: "?k < 5" using p(1) l by simp
  have inv': "arp_inv ?t'" using inv1 assms(2,3) set_update_subset_insert [of t1 ?k ?x] by (auto simp: arp_inv_def)
  have same: "mac_addr (?t' ! j) = mac_addr (t ! j) \<and> ip_addr (?t' ! j) = ip_addr (t ! j)" if "j < 5" "j \<noteq> ?k" for j
    using that l same_addrsD [OF t1(1)] by simp
  have "fst (cache_mac_addr ?t' ip) = Some (mac_addr (?t' ! ?k))"
    using inv' k l same assms(3,4) by (intro cache_mac_addr_of_slot) (auto simp: all_set_conv_all_nth)
  moreover have "is_free_slot (t1 ! j) = is_free_slot (t ! j)" if "j < 5" for j
    using that l same_addrsD(2) [OF t1(1)] by (simp add: is_free_slot_def)
  then have "(\<exists>x \<in> set t. is_free_slot x) \<longleftrightarrow> (\<exists>x \<in> set t1. is_free_slot x)" "is_free_slot (t1 ! ?k) = is_free_slot (t ! ?k)"
    using k l by (auto simp: in_set_conv_nth Bex_def)
  moreover have "\<forall>x \<in> set ?t'. ref (?t' ! ?k) \<le> ref x" if "\<forall>x \<in> set t1. \<not> is_free_slot x"
    using p(3) [OF that] k l set_update_subset_insert [of t1 ?k ?x] by auto
  ultimately show ?thesis using t1(2) inv' k same p(2) l by (intro exI [of _ ?t'] exI [of _ ?k]) auto
qed

section \<open>Properties\<close>

lemma masks_bytes:
  "(0xff000000 :: u32) = push_bit 24 (mask 8)" "(0x00ff0000 :: u32) = push_bit 16 (mask 8)"
  "(0x0000ff00 :: u32) = push_bit 8 (mask 8)" "(0x000000ff :: u32) = mask 8"
  by (simp_all add: mask_eq_exp_minus_1 push_bit_eq_mult)

lemma no_high_bit: "8 \<le> n \<Longrightarrow> \<not> bit w n" for w :: u8
  using bit_imp_le_length [of w n] by auto

lemma uint_bytes_of_four: "uint_bytes (ip_uint [a, b, c, d]) = [a, b, c, d]"
  unfolding uint_bytes_def ip_uint_def masks_bytes
  by (auto intro!: bit_word_eqI simp: bit_simps no_high_bit)

lemma uint_bytes_ip_uint: "length ip = 4 \<Longrightarrow> uint_bytes (ip_uint ip) = ip"
  by (auto simp: numeral_eq_Suc length_Suc_conv uint_bytes_of_four)

text \<open>C39: an address in the form in which addresses are printed configures the interface with that
  address: printing, reading the text and splitting the number lose nothing.\<close>

theorem text_configures_address:
  assumes "length ip = 4" and "print_ip_addr ip = Some t" and "cstr str 0 t"
  shows "\<exists>num str'. ipstring2ipuint str 0 = Some (num, str') \<and> config_iface n num gw = Some (n\<lparr>if_ip := ip\<rparr>)"
proof -
  have "t = ip_text ip" using assms(1,2) print_ip_addr_text by simp
  then obtain str' where "ipstring2ipuint str 0 = Some (ip_uint ip, str')" using ipstring_of_text assms(3) by blast
  then show ?thesis using assms(1) by (auto simp: config_iface_def set_ip_addr_def uint_bytes_ip_uint)
qed

theorem text_configures_address_witness:
  "\<exists>num str'. ipstring2ipuint [49, 46, 50, 48, 46, 51, 46, 52, 0] 0 = Some (num, str')
    \<and> config_iface \<lparr>iface_name = [], if_mac = [], if_ip = [], arp_tbl = [], route_tbl = []\<rparr> num 0
      = Some \<lparr>iface_name = [], if_mac = [], if_ip = [1, 20, 3, 4], arp_tbl = [], route_tbl = []\<rparr>"
proof -
  have "print_ip_addr [1, 20, 3, 4] = Some [49, 46, 50, 48, 46, 51, 46, 52]"
    using print_ip_addr_text [of "[1, 20, 3, 4]"] by (simp add: ip_text_def itoa_digits.simps itoa_digit_def)
  moreover have "cstr [49, 46, 50, 48, 46, 51, 46, 52, 0] 0 [49, 46, 50, 48, 46, 51, 46, 52]" by simp
  ultimately show ?thesis
    using text_configures_address [of "[1, 20, 3, 4]" "[49, 46, 50, 48, 46, 51, 46, 52]" "[49, 46, 50, 48, 46, 51, 46, 52, 0]"
      "\<lparr>iface_name = [], if_mac = [], if_ip = [], arp_tbl = [], route_tbl = []\<rparr>" 0] by simp
qed

end
