(* ===== verification/Tcp.thy ===== *)
theory Tcp
  imports Net_Interface Ring_Buffer
begin

text \<open>
  Model of TCP connections: \<open>net/tcp.cc\<close> with \<open>net/tcp.h\<close>.

  A socket is a record, the table of the factory a list of 128 optional sockets; no socket is
  reachable in another way, so a pointer to a socket is its place in the table. The network
  interface, the contents of the receive buffers (by their addresses), the frames that went to
  the driver and the messages that went to waiting processes are parts of the state. Memory
  from \<open>malloc\<close> is cleared and its blocks have an even size, which matters for the checksum of
  an odd number of bytes. Null pointers that the code follows and accesses outside an object
  are \<open>None\<close>.

  The theory shows that segments carry a valid checksum, how a connection is established from
  both sides, that data in order reaches the receiving process, and that every operation keeps
  the state well formed.
\<close>

section \<open>Segments\<close>

datatype tcp_socket_state = CLOSED | LISTENING | SYN_SENT | SYN_RECEIVED | ESTABLISHED
  | FIN_WAIT1 | FIN_WAIT2 | CLOSING | TIME_WAIT | CLOSE_WAIT | LAST_ACK | ACCEPT

abbreviation (input) FIN :: u8 where "FIN \<equiv> 0x1"
abbreviation (input) SYN :: u8 where "SYN \<equiv> 0x2"
abbreviation (input) PSH :: u8 where "PSH \<equiv> 0x8"
abbreviation (input) ACK :: u8 where "ACK \<equiv> 0x10"

record tcp_packet =
  tp_src_port :: u16
  tp_dst_port :: u16
  tp_seq_num :: u32
  tp_ack_num :: u32
  tp_reserved :: "4 word"
  tp_head_size :: "4 word"
  tp_flags :: u8
  window_size :: u16
  check_sum :: u16
  urgent_pointer :: u16
  tp_options :: u32

definition encode_tcp :: "tcp_packet \<Rightarrow> u8 list" where
  "encode_tcp h = enc16 (tp_src_port h) @ enc16 (tp_dst_port h) @ enc32 (tp_seq_num h) @ enc32 (tp_ack_num h)
     @ [ucast (tp_reserved h) OR push_bit 4 (ucast (tp_head_size h)), tp_flags h] @ enc16 (window_size h)
     @ enc16 (check_sum h) @ enc16 (urgent_pointer h) @ enc32 (tp_options h)"

definition decode_tcp :: "u8 list \<Rightarrow> tcp_packet" where
  "decode_tcp bs = \<lparr>tp_src_port = dec16 bs, tp_dst_port = dec16 (drop 2 bs), tp_seq_num = dec32 (drop 4 bs),
     tp_ack_num = dec32 (drop 8 bs), tp_reserved = ucast (bs ! 12), tp_head_size = ucast (drop_bit 4 (bs ! 12)),
     tp_flags = bs ! 13, window_size = dec16 (drop 14 bs), check_sum = dec16 (drop 16 bs),
     urgent_pointer = dec16 (drop 18 bs), tp_options = dec32 (drop 20 bs)\<rparr>"

abbreviation (input) tcp_size :: nat where "tcp_size \<equiv> 24"
abbreviation (input) pseudo_size :: nat where "pseudo_size \<equiv> 12"

record tcp_pseudo_header =
  ph_src_ip :: "u8 list"
  ph_dst_ip :: "u8 list"
  ph_protocol :: u16
  ph_total_len :: u16

definition encode_pseudo :: "tcp_pseudo_header \<Rightarrow> u8 list" where
  "encode_pseudo h = ph_src_ip h @ ph_dst_ip h @ enc16 (ph_protocol h) @ enc16 (ph_total_len h)"

section \<open>State\<close>

record tcp_socket =
  sk_src_port :: u16
  sk_src_ip :: "u8 list"
  sk_dst_port :: u16
  sk_dst_ip :: "u8 list"
  sk_seq_num :: u32
  sk_ack_num :: u32
  sk_state :: tcp_socket_state
  recv_buffer :: indirect_ring_buffer
  bind_proc :: u32

record net_state =
  sockets :: "tcp_socket option list"
  net_if :: network_interface
  rbufs :: "u32 \<Rightarrow> u8 list"
  frames :: "u8 list list"
  wakeups :: "(u32 \<times> u32) list"

definition new_factory :: "network_interface \<Rightarrow> net_state" where
  "new_factory n = \<lparr>sockets = replicate 128 None, net_if = n, rbufs = \<lambda>_. [], frames = [], wakeups = []\<rparr>"

text \<open>A cleared socket.\<close>

definition zero_socket :: tcp_socket where
  "zero_socket = \<lparr>sk_src_port = 0, sk_src_ip = replicate 4 0, sk_dst_port = 0, sk_dst_ip = replicate 4 0, sk_seq_num = 0,
     sk_ack_num = 0, sk_state = CLOSED, recv_buffer = irb_new, bind_proc = 0\<rparr>"

definition set_socket :: "net_state \<Rightarrow> nat \<Rightarrow> tcp_socket \<Rightarrow> net_state" where
  "set_socket st port sk = st\<lparr>sockets := (sockets st)[port := Some sk]\<rparr>"

section \<open>Sending\<close>

definition tcp_header_of :: "tcp_socket \<Rightarrow> u8 \<Rightarrow> u16 \<Rightarrow> tcp_packet" where
  "tcp_header_of sk fl c = \<lparr>tp_src_port = swap_word (sk_src_port sk), tp_dst_port = swap_word (sk_dst_port sk),
     tp_seq_num = swap_double_word (sk_seq_num sk), tp_ack_num = swap_double_word (sk_ack_num sk), tp_reserved = 0,
     tp_head_size = 6, tp_flags = fl, window_size = 0xffff, check_sum = c, urgent_pointer = 0,
     tp_options = (if fl AND SYN \<noteq> 0 then 0xb4050402 else 0)\<rparr>"

definition pseudo_of :: "tcp_socket \<Rightarrow> u32 \<Rightarrow> tcp_pseudo_header" where
  "pseudo_of sk sz = \<lparr>ph_src_ip = sk_src_ip sk, ph_dst_ip = sk_dst_ip sk, ph_protocol = 0x0600,
     ph_total_len = swap_word (ucast (24 + sz))\<rparr>"

text \<open>A buffer for \<open>n\<close> bytes, with what its block holds behind them.\<close>

definition checksum_buffer :: "nat \<Rightarrow> u8 list" where
  "checksum_buffer n = replicate (n + n mod 2) 0"

definition tcp_format :: "u8 list \<Rightarrow> nat \<Rightarrow> tcp_socket \<Rightarrow> u8 list \<Rightarrow> u32 \<Rightarrow> u8 \<Rightarrow> (u8 list \<times> tcp_socket) option" where
  "tcp_format data p sk payload_data sz fl = do {
     d1 \<leftarrow> store_bytes data p (encode_tcp (tcp_header_of sk fl 0));
     c1 \<leftarrow> store_bytes (checksum_buffer (unat (36 + sz))) 0 (encode_pseudo (pseudo_of sk sz));
     c2 \<leftarrow> memcpy c1 pseudo_size d1 p (unat (24 + sz));
     c3 \<leftarrow> memcpy c2 (pseudo_size + tcp_size) payload_data 0 (unat sz);
     c \<leftarrow> generate_checksum c3 0 (unat (36 + sz));
     d2 \<leftarrow> store_bytes d1 p (encode_tcp (tcp_header_of sk fl c));
     d3 \<leftarrow> memcpy d2 (p + tcp_size) payload_data 0 (unat sz);
     Some (d3, sk\<lparr>sk_seq_num := sk_seq_num sk + sz\<rparr>) }"

definition tcp_send :: "net_state \<Rightarrow> tcp_socket \<Rightarrow> u8 list \<Rightarrow> u32 \<Rightarrow> u8 \<Rightarrow> (net_state \<times> tcp_socket) option" where
  "tcp_send st sk payload_data sz fl = do {
     let (gw, n1) = get_default_gateway_mac (net_if st);
     gateway_mac \<leftarrow> gw;
     d1 \<leftarrow> eth_format (replicate (unat (58 + sz)) 0) 0 (if_mac n1) gateway_mac next_is_ip;
     d2 \<leftarrow> ip_format d1 eth_size (if_ip n1) (sk_dst_ip sk) 6 (ucast (44 + sz));
     (d3, sk1) \<leftarrow> tcp_format d2 (eth_size + ip_size) sk payload_data sz fl;
     Some (st\<lparr>net_if := n1, frames := frames st @ [d3]\<rparr>, sk1) }"

section \<open>Opening\<close>

text \<open>The address of the socket and those of its ten receive buffers come from \<open>malloc\<close>.\<close>

definition tcp_listen :: "net_state \<Rightarrow> u16 \<Rightarrow> u32 \<Rightarrow> u32 list \<Rightarrow> net_state option" where
  "tcp_listen st port skt bufs = do {
     s0 \<leftarrow> load (sockets st) (unat port);
     (case s0 of
        Some _ \<Rightarrow> Some st
      | None \<Rightarrow> if skt = 0 then Some st else do {
          src \<leftarrow> read_bytes (if_ip (net_if st)) 0 4;
          rb \<leftarrow> irb_initialize (recv_buffer zero_socket) bufs;
          let sk = zero_socket\<lparr>sk_src_ip := src, sk_src_port := port, sk_state := LISTENING, recv_buffer := rb, bind_proc := 0\<rparr>;
          Some (set_socket (st\<lparr>rbufs := (\<lambda>a. if a \<in> set bufs then replicate 1600 0 else rbufs st a)\<rparr>) (unat port) sk) }) }"

fun free_port_from :: "tcp_socket option list \<Rightarrow> nat \<Rightarrow> int" where
  "free_port_from [] i = -1"
| "free_port_from (s # ss) i = (if s = None then int i else free_port_from ss (Suc i))"

definition get_free_port :: "net_state \<Rightarrow> int" where
  "get_free_port st = free_port_from (drop 12 (sockets st)) 12"

text \<open>The result is the port, or \<open>-1\<close> for the null pointer. The new socket is written to before
  its address is compared with null.\<close>

definition tcp_connect :: "net_state \<Rightarrow> u32 \<Rightarrow> u8 list \<Rightarrow> u16 \<Rightarrow> (int \<times> net_state) option" where
  "tcp_connect st skt dst_ip0 dst_port0 =
     (let src_port = get_free_port st in
      if skt = 0 then None
      else if src_port = -1 then Some (-1, st)
      else do {
        src \<leftarrow> read_bytes (if_ip (net_if st)) 0 4;
        dst \<leftarrow> read_bytes dst_ip0 0 4;
        let sk = zero_socket\<lparr>sk_src_ip := src, sk_src_port := word_of_int src_port, sk_dst_ip := dst, sk_dst_port := dst_port0,
          sk_state := SYN_SENT, sk_seq_num := 0, sk_ack_num := 0\<rparr>;
        (st1, sk1) \<leftarrow> tcp_send (set_socket st (nat src_port) sk) sk [] 0 SYN;
        Some (src_port, set_socket st1 (nat src_port) sk1) })"

section \<open>Receiving a segment\<close>

text \<open>Data in order: it is stored in the next buffer behind its length, and acknowledged. The
  length is the number of bytes that are not zero.\<close>

definition tcp_data :: "net_state \<Rightarrow> nat \<Rightarrow> tcp_socket \<Rightarrow> tcp_packet \<Rightarrow> u8 list \<Rightarrow> nat \<Rightarrow> u16 \<Rightarrow> net_state option" where
  "tcp_data st port sk h data p payload_len = do {
     let start = p + unat (tp_head_size h) * 4;
     bs \<leftarrow> read_bytes data start (nat (int (unat payload_len) - int (unat (tp_head_size h)) * 4));
     let real_len = length (filter (\<lambda>b. b \<noteq> 0) bs);
     (if swap_double_word (tp_seq_num h) = sk_ack_num sk then do {
        (a, rb) \<leftarrow> get_first_free_buffer (recv_buffer sk);
        (if a = 0 then None
         else do {
           b1 \<leftarrow> store32 (rbufs st a) 0 (of_nat real_len);
           b2 \<leftarrow> memcpy b1 4 data start real_len;
           let sk1 = sk\<lparr>recv_buffer := rb, sk_ack_num := sk_ack_num sk + of_nat real_len\<rparr>;
           (st1, sk2) \<leftarrow> tcp_send (st\<lparr>rbufs := (rbufs st)(a := b2)\<rparr>) sk1 [] 0 ACK;
           Some (set_socket st1 port sk2) }) }
      else Some st) }"

definition resolve_packet :: "net_state \<Rightarrow> u8 list \<Rightarrow> nat \<Rightarrow> u8 list \<Rightarrow> u16 \<Rightarrow> net_state option" where
  "resolve_packet st data p remote_ip payload_len = do {
     hb \<leftarrow> read_bytes data p tcp_size;
     let h = decode_tcp hb;
     let dst_port = unat (swap_word (tp_dst_port h));
     let src_port = swap_word (tp_src_port h);
     s0 \<leftarrow> load (sockets st) dst_port;
     (case s0 of
        None \<Rightarrow> Some st
      | Some sk \<Rightarrow>
          (let sw = tp_flags h AND (SYN OR ACK OR FIN) in
           if sw = SYN then
             (if sk_state sk \<noteq> LISTENING then Some st
              else do {
                ip \<leftarrow> read_bytes remote_ip 0 4;
                let sk1 = sk\<lparr>sk_state := SYN_RECEIVED, sk_dst_port := src_port, sk_dst_ip := ip,
                  sk_ack_num := swap_double_word (tp_seq_num h) + 1, sk_seq_num := 0\<rparr>;
                (st1, sk2) \<leftarrow> tcp_send st sk1 [] 0 (SYN OR ACK);
                Some (set_socket st1 dst_port (sk2\<lparr>sk_seq_num := sk_seq_num sk2 + 1\<rparr>)) })
           else if sw = SYN OR ACK then
             (if sk_state sk \<noteq> SYN_SENT then Some st
              else do {
                let sk1 = sk\<lparr>sk_state := ESTABLISHED, sk_seq_num := sk_seq_num sk + 1,
                  sk_ack_num := swap_double_word (tp_seq_num h) + 1\<rparr>;
                (st1, sk2) \<leftarrow> tcp_send st sk1 [] 0 ACK;
                Some (set_socket st1 dst_port sk2) })
           else if sw = FIN \<or> sw = FIN OR ACK then
             (if sk_state sk = ESTABLISHED then do {
                let sk1 = sk\<lparr>sk_state := CLOSE_WAIT, sk_ack_num := sk_ack_num sk + 1\<rparr>;
                (st1, sk2) \<leftarrow> tcp_send st sk1 [] 0 ACK;
                (st2, sk3) \<leftarrow> tcp_send st1 sk2 [] 0 (FIN OR ACK);
                Some (set_socket st2 dst_port sk3) }
              else if sk_state sk = CLOSE_WAIT then Some (set_socket st dst_port (sk\<lparr>sk_state := CLOSED\<rparr>))
              else if sk_state sk = FIN_WAIT1 \<or> sk_state sk = FIN_WAIT2 then do {
                let sk1 = sk\<lparr>sk_state := CLOSED, sk_ack_num := sk_ack_num sk + 1\<rparr>;
                (st1, sk2) \<leftarrow> tcp_send st sk1 [] 0 ACK;
                Some (set_socket st1 dst_port sk2) }
              else Some st)
           else if sw = ACK \<and> sk_state sk = SYN_RECEIVED then
             Some ((set_socket st dst_port (sk\<lparr>sk_state := ESTABLISHED\<rparr>))
               \<lparr>wakeups := wakeups st @ [(bind_proc sk, ucast src_port)]\<rparr>)
           else if sw = ACK \<and> sk_state sk = FIN_WAIT1 then Some (set_socket st dst_port (sk\<lparr>sk_state := FIN_WAIT2\<rparr>))
           else if sw = ACK \<and> sk_state sk = CLOSE_WAIT then Some (set_socket st dst_port (sk\<lparr>sk_state := CLOSED\<rparr>))
           else tcp_data st dst_port sk h data p payload_len)) }"

section \<open>Calls of processes\<close>

definition socket_accept :: "net_state \<Rightarrow> u16 \<Rightarrow> u32 \<Rightarrow> (bool \<times> net_state) option" where
  "socket_accept st port proc = do {
     s0 \<leftarrow> load (sockets st) (unat port);
     (case s0 of
        Some sk \<Rightarrow> (if sk_state sk = LISTENING then Some (True, set_socket st (unat port) (sk\<lparr>bind_proc := proc\<rparr>)) else Some (False, st))
      | None \<Rightarrow> Some (False, st)) }"

definition tcp_recv :: "net_state \<Rightarrow> u16 \<Rightarrow> u8 list \<Rightarrow> u32 \<Rightarrow> (net_state \<times> u8 list) option" where
  "tcp_recv st port dst len = do {
     s0 \<leftarrow> load (sockets st) (unat port);
     sk \<leftarrow> s0;
     (a, rb) \<leftarrow> get_first_used_buffer (recv_buffer sk);
     (if a = 0 then None
      else do {
        content_len \<leftarrow> load32 (rbufs st a) 0;
        let n = (if content_len < len then content_len else len);
        dst1 \<leftarrow> memcpy dst 0 (rbufs st a) 4 (unat n);
        Some (set_socket st (unat port) (sk\<lparr>recv_buffer := rb\<rparr>), dst1) }) }"

definition tcp_send_socket :: "net_state \<Rightarrow> u16 \<Rightarrow> u8 list \<Rightarrow> u32 \<Rightarrow> net_state option" where
  "tcp_send_socket st port data len = do {
     s0 \<leftarrow> load (sockets st) (unat port);
     (case s0 of
        None \<Rightarrow> Some st
      | Some sk \<Rightarrow> do {
          (st1, sk1) \<leftarrow> tcp_send st sk data len (PSH OR ACK);
          Some (set_socket st1 (unat port) sk1) }) }"

definition tcp_disconnect :: "net_state \<Rightarrow> tcp_socket \<Rightarrow> (net_state \<times> tcp_socket) option" where
  "tcp_disconnect st sk = do {
     (st1, sk1) \<leftarrow> tcp_send st (sk\<lparr>sk_state := FIN_WAIT1\<rparr>) [] 0 (FIN OR ACK);
     Some (st1, sk1\<lparr>sk_seq_num := sk_seq_num sk1 + 1\<rparr>) }"

definition tcp_close_socket :: "net_state \<Rightarrow> u16 \<Rightarrow> net_state option" where
  "tcp_close_socket st port = do {
     s0 \<leftarrow> load (sockets st) (unat port);
     sk \<leftarrow> s0;
     (st1, _) \<leftarrow> tcp_disconnect st sk;
     Some (st1\<lparr>sockets := (sockets st1)[unat port := None]\<rparr>) }"

section \<open>The bytes of a segment\<close>

definition socket_wf :: "tcp_socket \<Rightarrow> bool" where
  "socket_wf sk \<longleftrightarrow> length (sk_src_ip sk) = 4 \<and> length (sk_dst_ip sk) = 4"

lemma length_encode_tcp [simp]: "length (encode_tcp h) = 24"
  by (simp add: encode_tcp_def)

lemma length_encode_pseudo: "socket_wf sk \<Longrightarrow> length (encode_pseudo (pseudo_of sk sz)) = 12"
  by (simp add: encode_pseudo_def pseudo_of_def socket_wf_def)

lemma decode_tcp_encode: "decode_tcp (encode_tcp h @ bs) = h"
proof -
  define b where "b = ucast (tp_reserved h) OR push_bit 4 (ucast (tp_head_size h) :: u8)"
  have "ucast b = tp_reserved h" "ucast (drop_bit 4 b) = tp_head_size h" by (simp_all only: b_def nibbles)
  moreover have "encode_tcp h = enc16 (tp_src_port h) @ enc16 (tp_dst_port h) @ enc32 (tp_seq_num h) @ enc32 (tp_ack_num h)
     @ [b, tp_flags h] @ enc16 (window_size h) @ enc16 (check_sum h) @ enc16 (urgent_pointer h) @ enc32 (tp_options h)"
    by (simp add: encode_tcp_def b_def)
  ultimately show ?thesis by (simp add: decode_tcp_def nth_append)
qed

lemma encode_tcp_header:
  "\<exists>as bs. length as = 16 \<and> length bs = 6 \<and> (\<forall>c. encode_tcp (tcp_header_of sk fl c) = as @ enc16 c @ bs)"
proof -
  let ?h = "tcp_header_of sk fl 0"
  let ?as = "enc16 (tp_src_port ?h) @ enc16 (tp_dst_port ?h) @ enc32 (tp_seq_num ?h) @ enc32 (tp_ack_num ?h)
     @ [ucast (tp_reserved ?h) OR push_bit 4 (ucast (tp_head_size ?h)), tp_flags ?h] @ enc16 (window_size ?h)"
  have "encode_tcp (tcp_header_of sk fl c) = ?as @ enc16 c @ enc16 (urgent_pointer ?h) @ enc32 (tp_options ?h)" for c
    by (simp add: encode_tcp_def tcp_header_of_def)
  then show ?thesis by (intro exI [of _ ?as] exI [of _ "enc16 (urgent_pointer ?h) @ enc32 (tp_options ?h)"]) simp
qed

text \<open>What the checksum of a segment is taken of: the pseudo header, the segment, and a zero byte
  after an odd number of bytes.\<close>

definition checksummed :: "tcp_socket \<Rightarrow> u8 \<Rightarrow> u16 \<Rightarrow> u8 list \<Rightarrow> u8 list" where
  "checksummed sk fl c payload = encode_pseudo (pseudo_of sk (of_nat (length payload))) @ encode_tcp (tcp_header_of sk fl c)
     @ payload @ replicate (length payload mod 2) 0"

lemma checksum_parity: "generate_checksum bs p (36 + n) = generate_checksum bs p (36 + n + n mod 2)"
  by (cases "even n") (simp_all add: generate_checksum_odd odd_iff_mod_2_eq_one)

lemma segment_checksum:
  assumes "socket_wf sk" and "length payload \<le> 60000"
    and "generate_checksum (checksummed sk fl 0 payload) 0 (36 + length payload) = Some c"
  shows "generate_checksum (checksummed sk fl c payload) 0 (36 + length payload) = Some 0"
proof -
  let ?n = "length payload" and ?ps = "encode_pseudo (pseudo_of sk (of_nat (length payload)))"
  let ?N = "36 + ?n + ?n mod 2"
  obtain as bs where e: "length as = 16" "length bs = 6" "\<And>c. encode_tcp (tcp_header_of sk fl c) = as @ enc16 c @ bs"
    using encode_tcp_header [of sk fl] by blast
  have l: "length ?ps = 12" using assms(1) by (rule length_encode_pseudo)
  have m: "?n mod 2 \<le> 1" by simp
  have len: "length (checksummed sk fl k payload) = ?N" for k using l by (simp add: checksummed_def)
  have "generate_checksum (checksummed sk fl c payload) 0 ?N = Some 0"
  proof (rule checksum_insert [of "?ps @ as" ?N 0 "checksummed sk fl 0 payload" _ "bs @ payload @ replicate (?n mod 2) 0" c])
    show "generate_checksum (checksummed sk fl 0 payload) 0 ?N = Some c" using assms(3) checksum_parity by metis
    show "take ?N (drop 0 (checksummed sk fl 0 payload)) = (?ps @ as) @ [0, 0] @ bs @ payload @ replicate (?n mod 2) 0"
      using len [of 0] by (simp add: checksummed_def e(3) enc16_def)
    show "take ?N (drop 0 (checksummed sk fl c payload)) = (?ps @ as) @ enc16 c @ bs @ payload @ replicate (?n mod 2) 0"
      using len [of c] by (simp add: checksummed_def e(3))
    show "even ?N" by (simp add: mod2_eq_if)
    show "?N \<le> 65536" using assms(2) m by linarith
  qed (use l e(1) len in simp_all)
  then show ?thesis using checksum_parity by metis
qed

lemma tcp_format_zeros:
  assumes "socket_wf sk" and "length payload \<le> 60000" and "length pre = p" and "sz = of_nat (length payload)"
  obtains c where "tcp_format (pre @ replicate (24 + length payload) 0) p sk payload sz fl
      = Some (pre @ encode_tcp (tcp_header_of sk fl c) @ payload, sk\<lparr>sk_seq_num := sk_seq_num sk + sz\<rparr>)"
    and "generate_checksum (checksummed sk fl c payload) 0 (36 + length payload) = Some 0"
proof -
  let ?n = "length payload" and ?e = "\<lambda>c. encode_tcp (tcp_header_of sk fl c)"
  let ?ps = "encode_pseudo (pseudo_of sk sz)"
  have sz: "unat sz = ?n" "unat (36 + sz) = 36 + ?n" "unat (24 + sz) = 24 + ?n"
    using assms(2,4) unat_add_small [of 36 sz] unat_add_small [of 24 sz] by (simp_all add: unat_of_nat_small)
  have l: "length ?ps = 12" using assms(1) by (rule length_encode_pseudo)
  let ?data = "pre @ replicate (24 + ?n) 0" and ?cb = "checksum_buffer (36 + ?n)"
  let ?d1 = "pre @ ?e 0 @ replicate ?n 0" and ?m = "(36 + ?n) mod 2"
  have m: "?m = ?n mod 2" by (simp add: mod_add_left_eq [symmetric])
  have s1: "store_bytes ?data p (?e 0) = Some ?d1"
    using put_zeros [OF assms(3) length_encode_tcp, of "24 + ?n" "tcp_header_of sk fl 0"] assms(3) by (simp add: store_bytes_def)
  have s2: "store_bytes ?cb 0 ?ps = Some (?ps @ replicate (24 + ?n + ?m) 0)"
    using put_zeros [of "[]" 0 ?ps 12 "36 + ?n + ?m"] l by (simp add: store_bytes_def checksum_buffer_def)
  have t: "take (24 + ?n) (drop p ?d1) = ?e 0 @ replicate ?n 0" using assms(3) by simp
  have s3: "memcpy (?ps @ replicate (24 + ?n + ?m) 0) 12 ?d1 p (24 + ?n) = Some (?ps @ (?e 0 @ replicate ?n 0) @ replicate ?m 0)"
    using put_zeros [OF l, of "?e 0 @ replicate ?n 0" "24 + ?n" "24 + ?n + ?m"] l assms(3) t
    by (subst memcpy_put) (simp_all del: drop_append take_append)
  have s4: "memcpy (?ps @ (?e 0 @ replicate ?n 0) @ replicate ?m 0) 36 payload 0 ?n = Some (checksummed sk fl 0 payload)"
    using put_mid [of "?ps @ ?e 0" 36 "replicate ?n 0" payload "replicate ?m 0"] l assms(4) m
    by (subst memcpy_put) (simp_all add: checksummed_def)
  obtain c where c: "generate_checksum (checksummed sk fl 0 payload) 0 (36 + ?n) = Some c"
  proof -
    have "length (checksummed sk fl 0 payload) = 36 + ?n + ?n mod 2" using l assms(4) by (simp add: checksummed_def)
    then show ?thesis using that checksum_parity [of "checksummed sk fl 0 payload" 0 ?n]
        generate_checksum_even [of "36 + ?n + ?n mod 2" 0 "checksummed sk fl 0 payload"] by (simp add: mod2_eq_if)
  qed
  have s5: "store_bytes ?d1 p (?e c) = Some (pre @ ?e c @ replicate ?n 0)"
    using put_mid [OF assms(3), of "?e 0" "?e c" "replicate ?n 0"] assms(3) by (simp add: store_bytes_def)
  have s6: "memcpy (pre @ ?e c @ replicate ?n 0) (p + 24) payload 0 ?n = Some (pre @ ?e c @ payload)"
    using put_mid [of "pre @ ?e c" "p + 24" "replicate ?n 0" payload "[]"] assms(3) by (subst memcpy_put) simp_all
  have "tcp_format ?data p sk payload sz fl = Some (pre @ ?e c @ payload, sk\<lparr>sk_seq_num := sk_seq_num sk + sz\<rparr>)"
    using s1 s2 s3 s4 c s5 s6 sz by (simp add: tcp_format_def)
  then show ?thesis using that segment_checksum [OF assms(1,2) c] by blast
qed

section \<open>The gateway\<close>

lemma locate_from_addrs:
  "same_addrs t t' \<Longrightarrow> locate_from (\<lambda>x. f (ip_addr x)) t' i = locate_from (\<lambda>x. f (ip_addr x)) t i"
proof (induction t arbitrary: t' i)
  case (Cons x t)
  then obtain y u where "t' = y # u" "ip_addr y = ip_addr x" "same_addrs t u" by (auto simp: same_addrs_def map_eq_Cons_conv)
  then show ?case using Cons.IH by simp
qed (simp add: same_addrs_def)

lemma cache_mac_addr_addrs:
  assumes "same_addrs t t'"
  shows "fst (cache_mac_addr t' ip) = fst (cache_mac_addr t ip)"
proof -
  have e: "locate_ip_addr t' ip = locate_ip_addr t ip" unfolding locate_ip_addr_def
    by (rule locate_from_addrs [OF assms, of "\<lambda>a. is_same_ip_addr a ip"])
  show ?thesis
  proof (cases "locate_ip_addr t ip = -1")
    case False
    then obtain k where "k < length t" "locate_ip_addr t ip = int (0 + k)"
      unfolding locate_ip_addr_def by (rule locate_from_found)
    then show ?thesis using e same_addrsD(2) [OF assms, of k] by (simp add: cache_mac_addr_def)
  qed (simp add: e cache_mac_addr_def)
qed

text \<open>An interface that can send: its addresses have their lengths and it knows the hardware
  address \<open>m\<close> of the gateway.\<close>

definition gateway_ok :: "network_interface \<Rightarrow> u8 list \<Rightarrow> bool" where
  "gateway_ok n m \<longleftrightarrow> length (if_mac n) = 6 \<and> length (if_ip n) = 4 \<and> length m = 6 \<and> arp_inv (arp_tbl n)
     \<and> fst (cache_mac_addr (arp_tbl n) (get_default_gateway_ip n)) = Some m"

lemma cache_mac_addr_same: "same_addrs t (snd (cache_mac_addr t ip))"
  by (simp add: cache_mac_addr_def Let_def same_addrs_count_use) (simp add: same_addrs_def)

lemma gateway_mac:
  assumes "gateway_ok n m"
  obtains t where "get_default_gateway_mac n = (Some m, n\<lparr>arp_tbl := t\<rparr>)" and "gateway_ok (n\<lparr>arp_tbl := t\<rparr>) m"
proof -
  let ?t = "snd (cache_mac_addr (arp_tbl n) (get_default_gateway_ip n))"
  have s: "same_addrs (arp_tbl n) ?t" by (rule cache_mac_addr_same)
  have "get_default_gateway_mac n = (Some m, n\<lparr>arp_tbl := ?t\<rparr>)"
    using assms by (simp add: get_default_gateway_mac_def gateway_ok_def case_prod_unfold)
  moreover have "gateway_ok (n\<lparr>arp_tbl := ?t\<rparr>) m"
    using assms cache_mac_addr_addrs [OF s] same_addrs_inv [OF s] by (simp add: gateway_ok_def get_default_gateway_ip_def)
  ultimately show ?thesis using that by blast
qed

section \<open>Frames with segments\<close>

text \<open>\<open>segment_frame n m sk fl payload d\<close>: the frame \<open>d\<close> carries from the interface \<open>n\<close> over the
  gateway \<open>m\<close> a segment of the socket with the flags and the data, and its checksums verify.\<close>

definition segment_frame :: "network_interface \<Rightarrow> u8 list \<Rightarrow> tcp_socket \<Rightarrow> u8 \<Rightarrow> u8 list \<Rightarrow> u8 list \<Rightarrow> bool" where
  "segment_frame n m sk fl payload d \<longleftrightarrow>
     (\<exists>c k ipb. d = eth_bytes (if_mac n) m next_is_ip @ ipb @ encode_tcp (tcp_header_of sk fl c) @ payload
        \<and> length ipb = 20 \<and> generate_checksum ipb 0 20 = Some 0
        \<and> (\<forall>bs. decode_ip (ipb @ bs) = ip_header (if_ip n) (sk_dst_ip sk) 6 (44 + of_nat (length payload)) k)
        \<and> generate_checksum (checksummed sk fl c payload) 0 (36 + length payload) = Some 0)"

lemma segment_frame_header: "segment_frame n m sk fl payload d \<Longrightarrow> length (if_mac n) = 6 \<Longrightarrow> length m = 6 \<Longrightarrow>
   \<exists>c. decode_tcp (drop 34 d) = tcp_header_of sk fl c"
  by (auto simp: segment_frame_def decode_tcp_encode)

lemma tcp_send_frame:
  assumes "gateway_ok (net_if st) m" and "socket_wf sk" and "length payload \<le> 60000" and "sz = of_nat (length payload)"
  obtains t d where "tcp_send st sk payload sz fl
      = Some (st\<lparr>net_if := (net_if st)\<lparr>arp_tbl := t\<rparr>, frames := frames st @ [d]\<rparr>, sk\<lparr>sk_seq_num := sk_seq_num sk + sz\<rparr>)"
    and "gateway_ok ((net_if st)\<lparr>arp_tbl := t\<rparr>) m" and "segment_frame (net_if st) m sk fl payload d"
proof -
  let ?n = "length payload"
  obtain t where t: "get_default_gateway_mac (net_if st) = (Some m, (net_if st)\<lparr>arp_tbl := t\<rparr>)"
    "gateway_ok ((net_if st)\<lparr>arp_tbl := t\<rparr>) m" using assms(1) by (rule gateway_mac)
  have g: "length (if_mac (net_if st)) = 6" "length (if_ip (net_if st)) = 4" "length m = 6" using assms(1) by (simp_all add: gateway_ok_def)
  have d: "length (sk_dst_ip sk) = 4" using assms(2) by (simp add: socket_wf_def)
  have sz: "unat (58 + sz) = 58 + ?n" using assms(3,4) unat_add_small [of 58 sz] by (simp add: unat_of_nat_small)
  let ?e = "eth_bytes (if_mac (net_if st)) m next_is_ip"
  have e: "eth_format (replicate (58 + ?n) 0) 0 (if_mac (net_if st)) m next_is_ip = Some (?e @ replicate (44 + ?n) 0)" "length ?e = 14"
    using g eth_format_zeros [of "if_mac (net_if st)" m "58 + ?n" next_is_ip] by simp_all
  have tl: "(ucast (44 + sz) :: u16) = 44 + of_nat ?n" using assms(3,4)
    by (simp add: word_eq_iff_unat unsigned_ucast_eq unat_word_ariths unat_of_nat take_bit_eq_mod mod_simps)
  obtain ipb where ip: "ip_format (?e @ replicate (44 + ?n) 0) 14 (if_ip (net_if st)) (sk_dst_ip sk) 6 (ucast (44 + sz))
      = Some (?e @ ipb @ replicate (24 + ?n) 0)" "length ipb = 20" "generate_checksum ipb 0 20 = Some 0"
    "\<exists>c. \<forall>bs. decode_ip (ipb @ bs) = ip_header (if_ip (net_if st)) (sk_dst_ip sk) 6 (ucast (44 + sz)) c"
    using ip_format_zeros [OF g(2) d e(2), of "44 + ?n" 6 "ucast (44 + sz)"] by auto
  have pl: "length (?e @ ipb) = 34" using e(2) ip(2) by simp
  obtain c where c: "tcp_format ((?e @ ipb) @ replicate (24 + ?n) 0) 34 sk payload sz fl
      = Some ((?e @ ipb) @ encode_tcp (tcp_header_of sk fl c) @ payload, sk\<lparr>sk_seq_num := sk_seq_num sk + sz\<rparr>)"
    "generate_checksum (checksummed sk fl c payload) 0 (36 + ?n) = Some 0"
    using assms(2,3) pl assms(4) by (rule tcp_format_zeros)
  let ?d = "?e @ ipb @ encode_tcp (tcp_header_of sk fl c) @ payload"
  have "tcp_send st sk payload sz fl
      = Some (st\<lparr>net_if := (net_if st)\<lparr>arp_tbl := t\<rparr>, frames := frames st @ [?d]\<rparr>, sk\<lparr>sk_seq_num := sk_seq_num sk + sz\<rparr>)"
    using t(1) e(1) ip(1) c(1) sz by (simp add: tcp_send_def)
  moreover have "segment_frame (net_if st) m sk fl payload ?d"
    using ip(2-4) c(2) tl by (auto simp: segment_frame_def)
  ultimately show ?thesis using that t(2) by blast
qed

lemma tcp_send_empty:
  assumes "gateway_ok (net_if st) m" and "socket_wf sk"
  shows "\<exists>t d. tcp_send st sk [] 0 fl = Some (st\<lparr>net_if := (net_if st)\<lparr>arp_tbl := t\<rparr>, frames := frames st @ [d]\<rparr>, sk)
    \<and> gateway_ok ((net_if st)\<lparr>arp_tbl := t\<rparr>) m \<and> segment_frame (net_if st) m sk fl [] d"
proof -
  have z: "length ([] :: u8 list) \<le> 60000" "(0 :: u32) = of_nat (length ([] :: u8 list))" by simp_all
  obtain t d where "tcp_send st sk [] 0 fl
      = Some (st\<lparr>net_if := (net_if st)\<lparr>arp_tbl := t\<rparr>, frames := frames st @ [d]\<rparr>, sk\<lparr>sk_seq_num := sk_seq_num sk + 0\<rparr>)"
    "gateway_ok ((net_if st)\<lparr>arp_tbl := t\<rparr>) m" "segment_frame (net_if st) m sk fl [] d"
    using assms z by (rule tcp_send_frame)
  then show ?thesis by auto
qed

section \<open>Steps of a connection\<close>

text \<open>At \<open>p\<close> of the received bytes stands a segment with the header \<open>h\<close>.\<close>

definition segment_at :: "u8 list \<Rightarrow> nat \<Rightarrow> tcp_packet \<Rightarrow> bool" where
  "segment_at data p h \<longleftrightarrow> (\<exists>hb. read_bytes data p 24 = Some hb \<and> decode_tcp hb = h)"

lemma segment_at_frame:
  assumes "segment_frame n m sk fl payload d" and "length (if_mac n) = 6" and "length m = 6"
  obtains c where "segment_at d 34 (tcp_header_of sk fl c)" and "length d = 58 + length payload" and "drop 58 d = payload"
proof -
  obtain c ipb where d: "d = eth_bytes (if_mac n) m next_is_ip @ ipb @ encode_tcp (tcp_header_of sk fl c) @ payload" "length ipb = 20"
    using assms(1) by (auto simp: segment_frame_def)
  have "read_bytes d 34 24 = Some (encode_tcp (tcp_header_of sk fl c))" using d assms(2,3) by (simp add: read_bytes_def)
  then have "segment_at d 34 (tcp_header_of sk fl c)"
    using decode_tcp_encode [of "tcp_header_of sk fl c" "[]"] by (simp add: segment_at_def)
  then show ?thesis using that d assms(2,3) by simp
qed

lemma load_set_socket: "load (sockets st) k = Some x \<Longrightarrow> load (sockets (set_socket st k sk)) k = Some (Some sk)"
  by (simp add: load_def set_socket_def split: if_splits)

lemma set_socket_simps [simp]:
  "net_if (set_socket st k sk) = net_if st" "frames (set_socket st k sk) = frames st"
  "wakeups (set_socket st k sk) = wakeups st" "rbufs (set_socket st k sk) = rbufs st"
  "length (sockets (set_socket st k sk)) = length (sockets st)"
  by (simp_all add: set_socket_def)

lemma resolve_syn:
  assumes "gateway_ok (net_if st) m" and "load (sockets st) k = Some (Some sk)" and "sk_state sk = LISTENING" and "socket_wf sk"
    and "length remote = 4" and "segment_at data p h" and "unat (swap_word (tp_dst_port h)) = k"
    and "tp_flags h AND (SYN OR ACK OR FIN) = SYN"
  obtains st' d sk1 where "resolve_packet st data p remote len = Some st'"
    and "sk1 = sk\<lparr>sk_state := SYN_RECEIVED, sk_dst_port := swap_word (tp_src_port h), sk_dst_ip := remote,
          sk_ack_num := swap_double_word (tp_seq_num h) + 1, sk_seq_num := 0\<rparr>"
    and "frames st' = frames st @ [d]" and "segment_frame (net_if st) m sk1 (SYN OR ACK) [] d"
    and "gateway_ok (net_if st') m" and "wakeups st' = wakeups st" and "rbufs st' = rbufs st"
    and "if_ip (net_if st') = if_ip (net_if st)" and "if_mac (net_if st') = if_mac (net_if st)"
    and "load (sockets st') k = Some (Some (sk1\<lparr>sk_seq_num := 1\<rparr>))"
proof -
  let ?sk1 = "sk\<lparr>sk_state := SYN_RECEIVED, sk_dst_port := swap_word (tp_src_port h), sk_dst_ip := remote,
          sk_ack_num := swap_double_word (tp_seq_num h) + 1, sk_seq_num := 0\<rparr>"
  have "socket_wf ?sk1" using assms(4,5) by (simp add: socket_wf_def)
  then obtain t d where s: "tcp_send st ?sk1 [] 0 (SYN OR ACK)
      = Some (st\<lparr>net_if := (net_if st)\<lparr>arp_tbl := t\<rparr>, frames := frames st @ [d]\<rparr>, ?sk1)"
    "gateway_ok ((net_if st)\<lparr>arp_tbl := t\<rparr>) m" "segment_frame (net_if st) m ?sk1 (SYN OR ACK) [] d"
    using tcp_send_empty [OF assms(1), of ?sk1 "SYN OR ACK"] by blast
  let ?st' = "set_socket (st\<lparr>net_if := (net_if st)\<lparr>arp_tbl := t\<rparr>, frames := frames st @ [d]\<rparr>) k (?sk1\<lparr>sk_seq_num := 1\<rparr>)"
  obtain hb where hb: "read_bytes data p 24 = Some hb" "decode_tcp hb = h" using assms(6) by (auto simp: segment_at_def)
  have "resolve_packet st data p remote len = Some ?st'"
    using hb assms(2,3,5,7,8) s(1) by (simp add: resolve_packet_def Let_def)
  then show ?thesis using that [of ?st' ?sk1 d] s assms(2) load_set_socket by simp
qed

lemma resolve_syn_ack:
  assumes "gateway_ok (net_if st) m" and "load (sockets st) k = Some (Some sk)" and "sk_state sk = SYN_SENT" and "socket_wf sk"
    and "segment_at data p h" and "unat (swap_word (tp_dst_port h)) = k" and "tp_flags h AND (SYN OR ACK OR FIN) = SYN OR ACK"
  obtains st' d sk1 where "resolve_packet st data p remote len = Some st'"
    and "sk1 = sk\<lparr>sk_state := ESTABLISHED, sk_seq_num := sk_seq_num sk + 1, sk_ack_num := swap_double_word (tp_seq_num h) + 1\<rparr>"
    and "frames st' = frames st @ [d]" and "segment_frame (net_if st) m sk1 ACK [] d"
    and "gateway_ok (net_if st') m" and "wakeups st' = wakeups st" and "load (sockets st') k = Some (Some sk1)"
proof -
  let ?sk1 = "sk\<lparr>sk_state := ESTABLISHED, sk_seq_num := sk_seq_num sk + 1, sk_ack_num := swap_double_word (tp_seq_num h) + 1\<rparr>"
  have "socket_wf ?sk1" using assms(4) by (simp add: socket_wf_def)
  then obtain t d where s: "tcp_send st ?sk1 [] 0 ACK = Some (st\<lparr>net_if := (net_if st)\<lparr>arp_tbl := t\<rparr>, frames := frames st @ [d]\<rparr>, ?sk1)"
    "gateway_ok ((net_if st)\<lparr>arp_tbl := t\<rparr>) m" "segment_frame (net_if st) m ?sk1 ACK [] d"
    using tcp_send_empty [OF assms(1), of ?sk1 ACK] by blast
  let ?st' = "set_socket (st\<lparr>net_if := (net_if st)\<lparr>arp_tbl := t\<rparr>, frames := frames st @ [d]\<rparr>) k ?sk1"
  obtain hb where hb: "read_bytes data p 24 = Some hb" "decode_tcp hb = h" using assms(5) by (auto simp: segment_at_def)
  have "resolve_packet st data p remote len = Some ?st'"
    using hb assms(2,3,6,7) s(1) by (simp add: resolve_packet_def Let_def)
  then show ?thesis using that [of ?st' ?sk1 d] s assms(2) load_set_socket by simp
qed

lemma resolve_ack:
  assumes "load (sockets st) k = Some (Some sk)" and "sk_state sk = SYN_RECEIVED"
    and "segment_at data p h" and "unat (swap_word (tp_dst_port h)) = k" and "tp_flags h AND (SYN OR ACK OR FIN) = ACK"
  shows "resolve_packet st data p remote len = Some ((set_socket st k (sk\<lparr>sk_state := ESTABLISHED\<rparr>))
     \<lparr>wakeups := wakeups st @ [(bind_proc sk, ucast (swap_word (tp_src_port h)))]\<rparr>)"
proof -
  obtain hb where "read_bytes data p 24 = Some hb" "decode_tcp hb = h" using assms(3) by (auto simp: segment_at_def)
  then show ?thesis using assms by (simp add: resolve_packet_def Let_def)
qed

lemma free_port_from_found: "free_port_from ss i = int k \<Longrightarrow> i \<le> k \<and> k < i + length ss \<and> ss ! (k - i) = None"
  by (induction ss i rule: free_port_from.induct) (auto split: if_splits simp: nth_Cons')

lemma get_free_port_found:
  assumes "get_free_port st = int k"
  shows "12 \<le> k" and "k < length (sockets st)" and "load (sockets st) k = Some None"
  using free_port_from_found [of "drop 12 (sockets st)" 12 k] assms by (auto simp: get_free_port_def load_def)

lemma connect_sends_syn:
  assumes "gateway_ok (net_if st) m" and "get_free_port st = int k" and "length (sockets st) = 128" and "length dst = 4" and "skt \<noteq> 0"
  obtains st' d sk where "tcp_connect st skt dst port = Some (int k, st')"
    and "sk = zero_socket\<lparr>sk_src_ip := if_ip (net_if st), sk_src_port := of_nat k, sk_dst_ip := dst, sk_dst_port := port, sk_state := SYN_SENT\<rparr>"
    and "frames st' = frames st @ [d]" and "segment_frame (net_if st) m sk SYN [] d" and "gateway_ok (net_if st') m"
    and "if_ip (net_if st') = if_ip (net_if st)" and "if_mac (net_if st') = if_mac (net_if st)"
    and "load (sockets st') k = Some (Some sk)" and "socket_wf sk"
proof -
  let ?sk = "zero_socket\<lparr>sk_src_ip := if_ip (net_if st), sk_src_port := of_nat k, sk_dst_ip := dst, sk_dst_port := port, sk_state := SYN_SENT\<rparr>"
  let ?st0 = "set_socket st k ?sk"
  have l: "length (if_ip (net_if st)) = 4" using assms(1) by (simp add: gateway_ok_def)
  have wf: "socket_wf ?sk" using l assms(4) by (simp add: socket_wf_def)
  have g: "gateway_ok (net_if ?st0) m" using assms(1) by simp
  from wf obtain t d where s: "tcp_send ?st0 ?sk [] 0 SYN
      = Some (?st0\<lparr>net_if := (net_if st)\<lparr>arp_tbl := t\<rparr>, frames := frames st @ [d]\<rparr>, ?sk)"
    "gateway_ok ((net_if st)\<lparr>arp_tbl := t\<rparr>) m" "segment_frame (net_if st) m ?sk SYN [] d"
    using tcp_send_empty [OF g, of ?sk SYN] by auto
  let ?st' = "set_socket (?st0\<lparr>net_if := (net_if st)\<lparr>arp_tbl := t\<rparr>, frames := frames st @ [d]\<rparr>) k ?sk"
  have z: "zero_socket\<lparr>sk_src_ip := if_ip (net_if st), sk_src_port := of_nat k, sk_dst_ip := dst, sk_dst_port := port,
      sk_state := SYN_SENT, sk_seq_num := 0, sk_ack_num := 0\<rparr> = ?sk" by (simp add: zero_socket_def)
  have "tcp_connect st skt dst port = Some (int k, ?st')"
    using assms(2,4,5) l s(1) by (simp add: tcp_connect_def Let_def z)
  moreover have "load (sockets ?st') k = Some (Some ?sk)"
    using get_free_port_found(2) [OF assms(2)] by (simp add: set_socket_def load_def)
  ultimately show ?thesis using that [of ?st' ?sk d] s wf by simp
qed

section \<open>Received data as a queue\<close>

lemma irb_list_set: "irb_inv rb \<Longrightarrow> set (irb_list rb) \<subseteq> set (buf rb)"
  by (auto simp: irb_inv_def irb_list_def ring_list_def irb_LEN_def)

lemma mod_shift_eq: "(t + i) mod 10 = (t + j) mod 10 \<Longrightarrow> i \<le> j \<Longrightarrow> j < 10 \<Longrightarrow> i = j" for t i j :: nat
proof -
  assume a: "(t + i) mod 10 = (t + j) mod 10" "i \<le> j" "j < 10"
  then have "10 dvd (t + j) - (t + i)" by (subst mod_eq_dvd_iff_nat [symmetric]) simp_all
  then have "10 dvd j - i" by simp
  moreover have "j - i < 10" using a(3) by simp
  ultimately have "j - i = 0" using dvd_imp_le [of 10 "j - i"] by linarith
  then show "i = j" using a(2) by simp
qed

lemma irb_list_distinct:
  assumes "irb_inv rb" and "distinct (buf rb)"
  shows "distinct (irb_list rb)"
proof -
  let ?t = "unat (irb_tail rb)"
  have len: "length (buf rb) = 10" using assms(1) by (simp add: irb_inv_def irb_LEN_def)
  have "inj_on (\<lambda>i. buf rb ! ((?t + i) mod 10)) {0..<ring_count 10 (unat (irb_head rb)) ?t}"
  proof (rule inj_onI)
    fix i j
    assume ij: "i \<in> {0..<ring_count 10 (unat (irb_head rb)) ?t}" "j \<in> {0..<ring_count 10 (unat (irb_head rb)) ?t}"
      and eq: "buf rb ! ((?t + i) mod 10) = buf rb ! ((?t + j) mod 10)"
    have "i < 10" "j < 10" using ij ring_count_less [of 10 "unat (irb_head rb)" ?t] by auto
    moreover have "(?t + i) mod 10 = (?t + j) mod 10" using eq len by (subst (asm) nth_eq_iff_index_eq [OF assms(2)]) simp_all
    ultimately show "i = j" using mod_shift_eq [of ?t i j] mod_shift_eq [of ?t j i] by (cases "i \<le> j") auto
  qed
  then show ?thesis by (simp add: irb_list_def ring_list_def irb_LEN_def distinct_map)
qed

text \<open>A buffer holds the length of its content in its first four bytes. The receive queue of a
  socket is the contents of the buffers in use, the oldest first.\<close>

definition content :: "u8 list \<Rightarrow> u8 list" where
  "content b = take (unat (dec32 b)) (drop 4 b)"

definition pending :: "(u32 \<Rightarrow> u8 list) \<Rightarrow> indirect_ring_buffer \<Rightarrow> u8 list list" where
  "pending bufs rb = map (\<lambda>a. content (bufs a)) (irb_list rb)"

definition ring_ok :: "(u32 \<Rightarrow> u8 list) \<Rightarrow> indirect_ring_buffer \<Rightarrow> bool" where
  "ring_ok bufs rb \<longleftrightarrow> irb_inv rb \<and> distinct (buf rb) \<and> 0 \<notin> set (buf rb) \<and> (\<forall>a \<in> set (buf rb). length (bufs a) = 1600)
     \<and> (\<forall>a \<in> set (irb_list rb). unat (dec32 (bufs a)) \<le> 1596)"

lemma length_pending [simp]: "length (pending bufs rb) = length (irb_list rb)"
  by (simp add: pending_def)

lemma free_buffer_fill:
  assumes "ring_ok bufs rb" and "length (pending bufs rb) < 9" and "length bs \<le> 1596"
  obtains a rb' where "get_first_free_buffer rb = Some (a, rb')" and "a \<noteq> 0" and "length (bufs a) = 1600"
    and "ring_ok (bufs(a := put (put (bufs a) 0 (enc32 (of_nat (length bs)))) 4 bs)) rb'"
    and "pending (bufs(a := put (put (bufs a) 0 (enc32 (of_nat (length bs)))) 4 bs)) rb' = pending bufs rb @ [bs]"
proof -
  have inv: "irb_inv rb" using assms(1) by (simp add: ring_ok_def)
  obtain a rb' where a: "get_first_free_buffer rb = Some (a, rb')" "irb_inv rb'" "irb_list rb' = irb_list rb @ [a]"
    using irb.free_room [OF inv] assms(2) by auto
  have b: "buf rb' = buf rb" using a(1) by (auto simp: get_first_free_buffer_def bind_eq_Some_conv split: if_splits)
  have "distinct (irb_list rb')" using irb_list_distinct [OF a(2)] assms(1) b by (simp add: ring_ok_def)
  then have new: "a \<notin> set (irb_list rb)" using a(3) by simp
  have "a \<in> set (buf rb)" using irb_list_set [OF a(2)] a(3) b by auto
  then have an: "a \<noteq> 0" "length (bufs a) = 1600" using assms(1) by (auto simp: ring_ok_def)
  let ?b = "put (put (bufs a) 0 (enc32 (of_nat (length bs)))) 4 bs"
  have l: "length ?b = 1600" using an(2) assms(3) by simp
  have pb: "?b = enc32 (of_nat (length bs)) @ bs @ drop (4 + length bs) (bufs a)"
    using an(2) assms(3) by (simp add: put_def drop_drop add.commute)
  have d: "unat (dec32 ?b) = length bs" using assms(3) by (simp add: pb unat_of_nat_small)
  then have c: "content ?b = bs" by (simp add: content_def) (simp add: pb)
  have "pending (bufs(a := ?b)) rb' = pending bufs rb @ [bs]" using new a(3) c by (auto simp: pending_def)
  moreover have "ring_ok (bufs(a := ?b)) rb'"
    using assms(1,3) a(2,3) b l d by (auto simp: ring_ok_def)
  ultimately show ?thesis using that a(1) an by blast
qed

lemma filter_nonzero: "0 \<notin> set bs \<Longrightarrow> filter (\<lambda>b. b \<noteq> 0) bs = bs" for bs :: "u8 list"
  by (simp add: filter_id_conv) metis

lemma tcp_data_in_order:
  assumes "gateway_ok (net_if st) m" and "load (sockets st) k = Some (Some sk)" and "socket_wf sk"
    and "ring_ok (rbufs st) (recv_buffer sk)" and "length (pending (rbufs st) (recv_buffer sk)) < 9"
    and "tp_head_size h = 6" and "swap_double_word (tp_seq_num h) = sk_ack_num sk"
    and "read_bytes data (p + 24) (length bs) = Some bs" and "0 \<notin> set bs" and "length bs \<le> 1596"
    and "payload_len = of_nat (24 + length bs)"
  obtains st' sk' d where "tcp_data st k sk h data p payload_len = Some st'" and "load (sockets st') k = Some (Some sk')"
    and "sk' = sk\<lparr>recv_buffer := recv_buffer sk', sk_ack_num := sk_ack_num sk + of_nat (length bs)\<rparr>"
    and "ring_ok (rbufs st') (recv_buffer sk')" and "pending (rbufs st') (recv_buffer sk') = pending (rbufs st) (recv_buffer sk) @ [bs]"
    and "frames st' = frames st @ [d]" and "segment_frame (net_if st) m sk' ACK [] d" and "gateway_ok (net_if st') m"
proof -
  obtain a rb where a: "get_first_free_buffer (recv_buffer sk) = Some (a, rb)" "a \<noteq> 0" "length (rbufs st a) = 1600"
    and r: "ring_ok ((rbufs st)(a := put (put (rbufs st a) 0 (enc32 (of_nat (length bs)))) 4 bs)) rb"
      "pending ((rbufs st)(a := put (put (rbufs st a) 0 (enc32 (of_nat (length bs)))) 4 bs)) rb = pending (rbufs st) (recv_buffer sk) @ [bs]"
    using assms(4,5,10) by (rule free_buffer_fill)
  let ?b1 = "put (rbufs st a) 0 (enc32 (of_nat (length bs)))" and ?sk = "sk\<lparr>recv_buffer := rb, sk_ack_num := sk_ack_num sk + of_nat (length bs)\<rparr>"
  let ?st0 = "st\<lparr>rbufs := (rbufs st)(a := put ?b1 4 bs)\<rparr>"
  have pl: "unat payload_len = 24 + length bs" using assms(10,11) by (simp add: unat_of_nat_small del: of_nat_add)
  have rd: "p + 24 + length bs \<le> length data" "take (length bs) (drop (p + 24) data) = bs"
    using assms(8) by (auto simp: read_bytes_def split: if_splits)
  have st1: "store32 (rbufs st a) 0 (of_nat (length bs)) = Some ?b1" using a(3) by (simp add: store32_def)
  have mc: "memcpy ?b1 4 data (p + 24) (length bs) = Some (put ?b1 4 bs)"
    using a(3) assms(10) rd by (subst memcpy_put) simp_all
  have "socket_wf ?sk" using assms(3) by (simp add: socket_wf_def)
  moreover have "gateway_ok (net_if ?st0) m" using assms(1) by simp
  ultimately obtain t d where s: "tcp_send ?st0 ?sk [] 0 ACK = Some (?st0\<lparr>net_if := (net_if st)\<lparr>arp_tbl := t\<rparr>, frames := frames st @ [d]\<rparr>, ?sk)"
    "gateway_ok ((net_if st)\<lparr>arp_tbl := t\<rparr>) m" "segment_frame (net_if st) m ?sk ACK [] d"
    using tcp_send_empty [of ?st0 m ?sk ACK] by auto
  let ?st' = "set_socket (?st0\<lparr>net_if := (net_if st)\<lparr>arp_tbl := t\<rparr>, frames := frames st @ [d]\<rparr>) k ?sk"
  have "tcp_data st k sk h data p payload_len = Some ?st'"
    using assms(6,7,8) pl a st1 mc s(1) filter_nonzero [OF assms(9)] by (simp add: tcp_data_def Let_def)
  moreover have "load (sockets ?st') k = Some (Some ?sk)" using assms(2) load_set_socket by simp
  ultimately show ?thesis using that [of ?st' ?sk d] r s by simp
qed

lemma recv_takes_first:
  assumes "load (sockets st) (unat port) = Some (Some sk)" and "ring_ok (rbufs st) (recv_buffer sk)"
    and "pending (rbufs st) (recv_buffer sk) = bs # rest" and "length bs \<le> unat len" and "length bs \<le> length dst"
  shows "\<exists>st' sk'. tcp_recv st port dst len = Some (st', put dst 0 bs) \<and> load (sockets st') (unat port) = Some (Some sk')
    \<and> ring_ok (rbufs st') (recv_buffer sk') \<and> pending (rbufs st') (recv_buffer sk') = rest"
proof -
  let ?rb = "recv_buffer sk"
  have inv: "irb_inv ?rb" using assms(2) by (simp add: ring_ok_def)
  obtain a as where as: "irb_list ?rb = a # as" "content (rbufs st a) = bs" "map (\<lambda>a. content (rbufs st a)) as = rest"
    using assms(3) by (auto simp: pending_def map_eq_Cons_conv)
  obtain rb' where u: "get_first_used_buffer ?rb = Some (a, rb')" "irb_inv rb'" "irb_list rb' = as"
    using irb.used_some [OF inv] as(1) by auto
  have b: "buf rb' = buf ?rb" using u(1) by (auto simp: get_first_used_buffer_def bind_eq_Some_conv split: if_splits)
  have "a \<in> set (buf ?rb)" using irb_list_set [OF inv] as(1) by auto
  then have a: "a \<noteq> 0" "length (rbufs st a) = 1600" using assms(2) by (auto simp: ring_ok_def)
  have le: "unat (dec32 (rbufs st a)) \<le> 1596" using assms(2) as(1) by (auto simp: ring_ok_def)
  then have n: "unat (dec32 (rbufs st a)) = length bs" using as(2) a(2) by (auto simp: content_def)
  let ?n = "if dec32 (rbufs st a) < len then dec32 (rbufs st a) else len"
  have un: "unat ?n = length bs" using n assms(4) by (auto simp: word_less_nat_alt)
  have "take (length bs) (drop 4 (rbufs st a)) = bs" using as(2) n by (simp add: content_def)
  then have "memcpy dst 0 (rbufs st a) 4 (unat ?n) = Some (put dst 0 bs)"
    using a(2) le n assms(5) un by (subst memcpy_put) simp_all
  then have "tcp_recv st port dst len = Some (set_socket st (unat port) (sk\<lparr>recv_buffer := rb'\<rparr>), put dst 0 bs)"
    using assms(1) u(1) a by (simp add: tcp_recv_def load32_def Let_def)
  moreover have "ring_ok (rbufs st) rb'" using assms(2) u(2,3) b as(1) by (auto simp: ring_ok_def)
  moreover have "pending (rbufs st) rb' = rest" using u(3) as(3) by (simp add: pending_def)
  ultimately show ?thesis using assms(1) load_set_socket by fastforce
qed

section \<open>Properties\<close>

lemma header_fields:
  "swap_word (tp_src_port (tcp_header_of sk fl c)) = sk_src_port sk" "swap_word (tp_dst_port (tcp_header_of sk fl c)) = sk_dst_port sk"
  "swap_double_word (tp_seq_num (tcp_header_of sk fl c)) = sk_seq_num sk" "tp_flags (tcp_header_of sk fl c) = fl"
  "tp_head_size (tcp_header_of sk fl c) = 6"
  by (simp_all add: tcp_header_of_def)

text \<open>C9: two hosts that run this code establish a connection. The host \<open>a\<close> connects to a port on
  which the host \<open>b\<close> listens; when each of the three frames that they exchange is delivered to
  the other host, both sockets are established, each one expects the sequence number that the
  other one sends next, and the process that waits in \<open>accept\<close> is told the port of the client.\<close>

theorem three_way_handshake:
  assumes "gateway_ok (net_if a) ma" and "gateway_ok (net_if b) mb" and "length (sockets a) = 128" and "get_free_port a = int pa"
    and "load (sockets b) (unat pb) = Some (Some sb)" and "sk_state sb = LISTENING" and "socket_wf sb" and "sk_src_port sb = pb" and "skt \<noteq> 0"
  shows "\<exists>a1 f1 b1 f2 a2 f3 b2 ska skb. tcp_connect a skt (if_ip (net_if b)) pb = Some (int pa, a1) \<and> frames a1 = frames a @ [f1]
    \<and> resolve_packet b f1 34 (if_ip (net_if a)) 24 = Some b1 \<and> frames b1 = frames b @ [f2]
    \<and> resolve_packet a1 f2 34 (if_ip (net_if b)) 24 = Some a2 \<and> frames a2 = frames a1 @ [f3]
    \<and> resolve_packet b1 f3 34 (if_ip (net_if a)) 24 = Some b2
    \<and> load (sockets a2) pa = Some (Some ska) \<and> sk_state ska = ESTABLISHED
    \<and> load (sockets b2) (unat pb) = Some (Some skb) \<and> sk_state skb = ESTABLISHED
    \<and> sk_ack_num skb = sk_seq_num ska \<and> sk_ack_num ska = sk_seq_num skb
    \<and> wakeups b2 = wakeups b @ [(bind_proc sb, of_nat pa)]"
proof -
  have len: "length (if_mac (net_if a)) = 6" "length ma = 6" "length (if_ip (net_if a)) = 4"
    "length (if_mac (net_if b)) = 6" "length mb = 6" "length (if_ip (net_if b)) = 4"
    using assms(1,2) by (simp_all add: gateway_ok_def)
  have pl: "pa < 128" using get_free_port_found(2) [OF assms(4)] assms(3) by simp
  then have pa: "unat (of_nat pa :: u16) = pa" by (simp add: unat_of_nat_small)
  obtain a1 f1 sk1 where a1: "tcp_connect a skt (if_ip (net_if b)) pb = Some (int pa, a1)" "frames a1 = frames a @ [f1]"
    "segment_frame (net_if a) ma sk1 SYN [] f1" "gateway_ok (net_if a1) ma" "load (sockets a1) pa = Some (Some sk1)" "socket_wf sk1"
    "if_mac (net_if a1) = if_mac (net_if a)"
    and sk1: "sk1 = zero_socket\<lparr>sk_src_ip := if_ip (net_if a), sk_src_port := of_nat pa, sk_dst_ip := if_ip (net_if b),
      sk_dst_port := pb, sk_state := SYN_SENT\<rparr>"
    using assms(1,4,3) len(6) assms(9) by (rule connect_sends_syn)
  obtain c1 where s1: "segment_at f1 34 (tcp_header_of sk1 SYN c1)" using a1(3) len(1,2) by (rule segment_at_frame)
  have h1: "unat (swap_word (tp_dst_port (tcp_header_of sk1 SYN c1))) = unat pb"
    "tp_flags (tcp_header_of sk1 SYN c1) AND (SYN OR ACK OR FIN) = SYN" by (simp_all add: header_fields sk1)
  obtain b1 f2 sk2 where b1: "resolve_packet b f1 34 (if_ip (net_if a)) 24 = Some b1" "frames b1 = frames b @ [f2]"
    "segment_frame (net_if b) mb sk2 (SYN OR ACK) [] f2" "wakeups b1 = wakeups b"
    "load (sockets b1) (unat pb) = Some (Some (sk2\<lparr>sk_seq_num := 1\<rparr>))"
    and sk2': "sk2 = sb\<lparr>sk_state := SYN_RECEIVED, sk_dst_port := swap_word (tp_src_port (tcp_header_of sk1 SYN c1)), sk_dst_ip := if_ip (net_if a),
      sk_ack_num := swap_double_word (tp_seq_num (tcp_header_of sk1 SYN c1)) + 1, sk_seq_num := 0\<rparr>"
    using assms(2,5,6,7) len(3) s1 h1 by (rule resolve_syn)
  have sk2: "sk2 = sb\<lparr>sk_state := SYN_RECEIVED, sk_dst_port := of_nat pa, sk_dst_ip := if_ip (net_if a), sk_ack_num := 1, sk_seq_num := 0\<rparr>"
    using sk2' sk1 by (simp add: header_fields zero_socket_def)
  obtain c2 where s2: "segment_at f2 34 (tcp_header_of sk2 (SYN OR ACK) c2)" using b1(3) len(4,5) by (rule segment_at_frame)
  have st1: "sk_state sk1 = SYN_SENT" by (simp add: sk1)
  have h2: "unat (swap_word (tp_dst_port (tcp_header_of sk2 (SYN OR ACK) c2))) = pa"
    "tp_flags (tcp_header_of sk2 (SYN OR ACK) c2) AND (SYN OR ACK OR FIN) = SYN OR ACK" using pa by (simp_all add: header_fields sk2)
  obtain a2 f3 sk3 where a2: "resolve_packet a1 f2 34 (if_ip (net_if b)) 24 = Some a2" "frames a2 = frames a1 @ [f3]"
    "segment_frame (net_if a1) ma sk3 ACK [] f3" "load (sockets a2) pa = Some (Some sk3)"
    and sk3': "sk3 = sk1\<lparr>sk_state := ESTABLISHED, sk_seq_num := sk_seq_num sk1 + 1,
      sk_ack_num := swap_double_word (tp_seq_num (tcp_header_of sk2 (SYN OR ACK) c2)) + 1\<rparr>"
    using a1(4,5) st1 a1(6) s2 h2 by (rule resolve_syn_ack)
  have sk3: "sk3 = sk1\<lparr>sk_state := ESTABLISHED, sk_seq_num := 1, sk_ack_num := 1\<rparr>"
    using sk3' sk1 sk2 by (simp add: header_fields zero_socket_def)
  obtain c3 where s3: "segment_at f3 34 (tcp_header_of sk3 ACK c3)" using a2(3) len(1,2) a1(7) by (metis segment_at_frame)
  let ?skb = "sk2\<lparr>sk_seq_num := 1, sk_state := ESTABLISHED\<rparr>"
  let ?b2 = "(set_socket b1 (unat pb) ?skb)\<lparr>wakeups := wakeups b1 @ [(bind_proc sb, ucast (of_nat pa :: u16))]\<rparr>"
  have b2: "resolve_packet b1 f3 34 (if_ip (net_if a)) 24 = Some ?b2"
    using resolve_ack [OF b1(5) _ s3] sk1 sk2 sk3 by (simp add: header_fields)
  have "(ucast (of_nat pa :: u16) :: u32) = of_nat pa"
    using pa pl by (simp add: word_eq_iff_unat unat_ucast_up unat_of_nat_small)
  then have "wakeups ?b2 = wakeups b @ [(bind_proc sb, of_nat pa)]" "load (sockets ?b2) (unat pb) = Some (Some ?skb)"
    using b1(4) load_set_socket [OF b1(5)] by simp_all
  then show ?thesis using a1(1,2) b1(1,2) a2(1,2,4) b2
    by (rule_tac x = a1 in exI, rule_tac x = f1 in exI, rule_tac x = b1 in exI, rule_tac x = f2 in exI, rule_tac x = a2 in exI,
        rule_tac x = f3 in exI, rule_tac x = ?b2 in exI, rule_tac x = sk3 in exI, rule_tac x = ?skb in exI) (simp add: sk2 sk3)
qed

text \<open>C10: text that a process sends over an established connection reaches the process at the other
  end: the frame that host \<open>a\<close> sends, delivered to host \<open>b\<close>, appends the text to the receive
  queue of the socket, \<open>recv\<close> takes the oldest text from the queue, and afterwards the next
  sequence number again is the expected one.\<close>

theorem sent_text_is_received:
  assumes "gateway_ok (net_if a) ma" and "load (sockets a) (unat pa) = Some (Some ska)" and "socket_wf ska"
    and "gateway_ok (net_if b) mb" and "load (sockets b) (unat pb) = Some (Some skb)" and "socket_wf skb"
    and "sk_state skb = ESTABLISHED" and "sk_dst_port ska = pb" and "sk_seq_num ska = sk_ack_num skb"
    and "ring_ok (rbufs b) (recv_buffer skb)" and "length (pending (rbufs b) (recv_buffer skb)) < 9"
    and "0 \<notin> set msg" and "length msg \<le> 1596"
  shows "\<exists>a1 f b1 ska1 skb1. tcp_send_socket a pa msg (of_nat (length msg)) = Some a1 \<and> frames a1 = frames a @ [f]
    \<and> resolve_packet b f 34 (if_ip (net_if a)) (of_nat (24 + length msg)) = Some b1
    \<and> load (sockets a1) (unat pa) = Some (Some ska1) \<and> load (sockets b1) (unat pb) = Some (Some skb1)
    \<and> sk_ack_num skb1 = sk_seq_num ska1 \<and> pending (rbufs b1) (recv_buffer skb1) = pending (rbufs b) (recv_buffer skb) @ [msg]
    \<and> (\<forall>dst rest len x. pending (rbufs b1) (recv_buffer skb1) = x # rest \<longrightarrow> length x \<le> unat len \<longrightarrow> length x \<le> length dst \<longrightarrow>
        (\<exists>b2 skb2. tcp_recv b1 pb dst len = Some (b2, put dst 0 x) \<and> load (sockets b2) (unat pb) = Some (Some skb2)
           \<and> pending (rbufs b2) (recv_buffer skb2) = rest))"
proof -
  have len: "length (if_mac (net_if a)) = 6" "length ma = 6" using assms(1) by (simp_all add: gateway_ok_def)
  have le: "length msg \<le> 60000" using assms(13) by simp
  obtain t f where s: "tcp_send a ska msg (of_nat (length msg)) (PSH OR ACK)
      = Some (a\<lparr>net_if := (net_if a)\<lparr>arp_tbl := t\<rparr>, frames := frames a @ [f]\<rparr>, ska\<lparr>sk_seq_num := sk_seq_num ska + of_nat (length msg)\<rparr>)"
    "segment_frame (net_if a) ma ska (PSH OR ACK) msg f"
    using assms(1,3) le refl by (rule tcp_send_frame)
  let ?ska = "ska\<lparr>sk_seq_num := sk_seq_num ska + of_nat (length msg)\<rparr>"
  let ?a1 = "set_socket (a\<lparr>net_if := (net_if a)\<lparr>arp_tbl := t\<rparr>, frames := frames a @ [f]\<rparr>) (unat pa) ?ska"
  have a1: "tcp_send_socket a pa msg (of_nat (length msg)) = Some ?a1" using assms(2) s(1) by (simp add: tcp_send_socket_def)
  obtain c where c: "segment_at f 34 (tcp_header_of ska (PSH OR ACK) c)" "length f = 58 + length msg" "drop 58 f = msg"
    using s(2) len by (rule segment_at_frame)
  let ?h = "tcp_header_of ska (PSH OR ACK) c"
  have h: "tp_head_size ?h = 6" "swap_double_word (tp_seq_num ?h) = sk_ack_num skb" by (simp_all add: header_fields assms(9))
  have rd: "read_bytes f (34 + 24) (length msg) = Some msg" using c(2,3) by (simp add: read_bytes_def)
  obtain b1 skb1 where b1: "tcp_data b (unat pb) skb ?h f 34 (of_nat (24 + length msg)) = Some b1"
    "load (sockets b1) (unat pb) = Some (Some skb1)"
    "skb1 = skb\<lparr>recv_buffer := recv_buffer skb1, sk_ack_num := sk_ack_num skb + of_nat (length msg)\<rparr>"
    "ring_ok (rbufs b1) (recv_buffer skb1)" "pending (rbufs b1) (recv_buffer skb1) = pending (rbufs b) (recv_buffer skb) @ [msg]"
    using assms(4-6,10,11) h rd assms(12,13) refl by (rule tcp_data_in_order)
  obtain hb where hb: "read_bytes f 34 24 = Some hb" "decode_tcp hb = ?h" using c(1) by (auto simp: segment_at_def)
  have r: "resolve_packet b f 34 (if_ip (net_if a)) (of_nat (24 + length msg)) = Some b1"
    using hb b1(1) assms(5,7,8) by (simp add: resolve_packet_def Let_def header_fields)
  have ack: "sk_ack_num skb1 = sk_seq_num ?ska" using arg_cong [OF b1(3), of sk_ack_num] assms(9) by simp
  have l: "load (sockets ?a1) (unat pa) = Some (Some ?ska)" using assms(2) load_set_socket by simp
  have rv: "\<exists>b2 skb2. tcp_recv b1 pb dst len = Some (b2, put dst 0 x) \<and> load (sockets b2) (unat pb) = Some (Some skb2)
      \<and> pending (rbufs b2) (recv_buffer skb2) = rest"
    if "pending (rbufs b1) (recv_buffer skb1) = x # rest" "length x \<le> unat len" "length x \<le> length dst" for dst rest len x
    using recv_takes_first [OF b1(2,4) that] by blast
  show ?thesis
    by (rule_tac x = ?a1 in exI, rule_tac x = f in exI, rule_tac x = b1 in exI, rule_tac x = ?ska in exI, rule_tac x = skb1 in exI)
      (use a1 r l b1(2,5) ack rv in simp)
qed

section \<open>Examples\<close>

text \<open>Two hosts with a known gateway.\<close>

definition example_if :: network_interface where
  "example_if = \<lparr>iface_name = [], if_mac = [1, 2, 3, 4, 5, 6], if_ip = [172, 17, 0, 2],
     arp_tbl = new_arp_table[0 := \<lparr>mac_addr = [9, 9, 9, 9, 9, 9], ip_addr = [172, 17, 0, 1], ref = 0\<rparr>],
     route_tbl = [\<lparr>destination = [0, 0, 0, 0], gateway = [172, 17, 0, 1], net_mask = [0, 0, 0, 0]\<rparr>]\<rparr>"

lemma example_if_ok: "gateway_ok example_if [9, 9, 9, 9, 9, 9]"
  by (simp add: gateway_ok_def example_if_def arp_inv_def new_arp_table_def zero_item_def cache_mac_addr_def
      get_default_gateway_ip_def get_default_gateway_def locate_ip_addr_def is_same_ip_addr_def numeral_eq_Suc)

definition example_host :: "nat \<Rightarrow> tcp_socket \<Rightarrow> net_state" where
  "example_host k sk = set_socket ((new_factory example_if)\<lparr>rbufs := \<lambda>_. replicate 1600 0\<rparr>) k sk"

lemma example_host_simps [simp]:
  "net_if (example_host k sk) = example_if" "rbufs (example_host k sk) = (\<lambda>_. replicate 1600 0)"
  "k < 128 \<Longrightarrow> load (sockets (example_host k sk)) k = Some (Some sk)"
  by (simp_all add: example_host_def new_factory_def set_socket_def load_def)

theorem three_way_handshake_witness:
  "\<exists>a1 f1 b1. tcp_connect (new_factory example_if) 0x400000 [172, 17, 0, 2] 80 = Some (12, a1) \<and> frames a1 = [f1]
    \<and> resolve_packet (example_host 80 (zero_socket\<lparr>sk_src_port := 80, sk_state := LISTENING\<rparr>)) f1 34 [172, 17, 0, 2] 24 = Some b1"
proof -
  let ?a = "new_factory example_if" and ?sb = "zero_socket\<lparr>sk_src_port := 80, sk_state := LISTENING\<rparr>"
  have ip: "if_ip example_if = [172, 17, 0, 2]" by (simp add: example_if_def)
  have a: "net_if ?a = example_if" "frames ?a = []" "length (sockets ?a) = 128" by (simp_all add: new_factory_def)
  have p: "get_free_port ?a = int 12" by (simp add: get_free_port_def new_factory_def numeral_eq_Suc)
  have l: "load (sockets (example_host 80 ?sb)) (unat (80 :: u16)) = Some (Some ?sb)" by simp
  have w: "socket_wf ?sb" "sk_state ?sb = LISTENING" "sk_src_port ?sb = 80" by (simp_all add: socket_wf_def zero_socket_def)
  show ?thesis
    using three_way_handshake [of ?a _ "example_host 80 ?sb" _ 12 80 ?sb "0x400000"] example_if_ok a p l w ip by fastforce
qed

lemma example_ring: "ring_ok (\<lambda>_. replicate 1600 0) \<lparr>buf = [1, 2, 3, 4, 5, 6, 7, 8, 9, 10], irb_head = 0, irb_tail = 0\<rparr>"
  "pending (\<lambda>_. replicate 1600 0) \<lparr>buf = [1, 2, 3, 4, 5, 6, 7, 8, 9, 10], irb_head = 0, irb_tail = 0\<rparr> = []"
  by (simp_all add: ring_ok_def pending_def irb_inv_def irb_list_def ring_list_def ring_count_def irb_LEN_def)

theorem sent_text_is_received_witness:
  "\<exists>a1 f b1 skb1. tcp_send_socket (example_host 12 (zero_socket\<lparr>sk_dst_port := 80\<rparr>)) 12 [104, 105] 2 = Some a1
    \<and> frames a1 = [f] \<and> resolve_packet (example_host 80 (zero_socket\<lparr>sk_state := ESTABLISHED,
        recv_buffer := \<lparr>buf = [1, 2, 3, 4, 5, 6, 7, 8, 9, 10], irb_head = 0, irb_tail = 0\<rparr>\<rparr>)) f 34 [172, 17, 0, 2] 26 = Some b1
    \<and> load (sockets b1) 80 = Some (Some skb1) \<and> pending (rbufs b1) (recv_buffer skb1) = [[104, 105]]"
proof -
  let ?sa = "zero_socket\<lparr>sk_dst_port := 80\<rparr>"
  let ?sb = "zero_socket\<lparr>sk_state := ESTABLISHED, recv_buffer := \<lparr>buf = [1, 2, 3, 4, 5, 6, 7, 8, 9, 10], irb_head = 0, irb_tail = 0\<rparr>\<rparr>"
  have ip: "if_ip example_if = [172, 17, 0, 2]" by (simp add: example_if_def)
  have fr: "frames (example_host 12 ?sa) = []" by (simp add: example_host_def new_factory_def)
  have l: "load (sockets (example_host 12 ?sa)) (unat (12 :: u16)) = Some (Some ?sa)"
    "load (sockets (example_host 80 ?sb)) (unat (80 :: u16)) = Some (Some ?sb)" by simp_all
  have w: "socket_wf ?sa" "socket_wf ?sb" "sk_state ?sb = ESTABLISHED" "sk_dst_port ?sa = 80" "sk_seq_num ?sa = sk_ack_num ?sb"
    by (simp_all add: socket_wf_def zero_socket_def)
  show ?thesis
    using sent_text_is_received [OF _ l(1) w(1) _ l(2) w(2-5), where msg = "[104, 105]"] example_if_ok example_ring ip fr by fastforce
qed

end
