(* ===== verification/Inode.thy ===== *)
theory Inode
  imports Bitmap Byte_Codec
begin

text \<open>
  Model of \<open>fs/inode.cc\<close> with \<open>fs/inode.h\<close>, \<open>fs/super_block.h\<close> and the state of the
  file server (\<open>fs/fs.h\<close>, \<open>fs/file.h\<close>), and of the permission checks of
  \<open>fs/protect.cc\<close>.

  The disk is a function from sector numbers to sectors of 512 bytes; an inode is 64 bytes of
  a sector of the inode table and is encoded and decoded as the packed structure. A full
  bitmap makes the allocators write the bit with the number \<open>-1\<close>, far outside the map:
  \<open>None\<close>. The clock is an argument.

  The theory shows that the inode table is an array of inodes (reading after writing), and
  that inode numbers and blocks are handed out without overlap, through the contract
  \<open>slot_allocator\<close>.
\<close>

section \<open>Data\<close>

record inode =
  inode_no :: u32
  isize :: u32
  last_modify_time :: u64
  link_cnt :: u32
  iuid :: u16
  igid :: u16
  imode :: u32
  sectors :: "u32 list"

record super_block_data =
  magic :: "u8 list"
  is_sufficient :: bool
  sectors_nr :: u32
  inodes_nr :: u32
  sb_start_lba :: u32
  block_bitmap_lba :: u32
  block_bitmap_sectors :: u32
  inode_bitmap_lba :: u32
  inode_bitmap_sectors :: u32
  inode_table_lba :: u32
  inode_table_sectors :: u32
  data_start :: u32
  root_inode_no :: u32
  dir_entry_size :: u32

record file_t =
  foffset :: u32
  finode :: inode

record fs_state =
  fdisk :: "u32 \<Rightarrow> u8 list"
  sb_data :: super_block_data
  block_bmap :: bitmap
  inode_bmap :: bitmap
  fs_uid :: u32
  cur_dir :: "u8 list"
  file_desc_tbl :: "file_t option list"

abbreviation (input) sector_size :: nat where "sector_size \<equiv> 512"
abbreviation (input) sizeof_inode :: nat where "sizeof_inode \<equiv> 64"

definition DEFAULT_PRIVILEGE :: u32 where "DEFAULT_PRIVILEGE = 0x3d"
definition access_READ :: u8 where "access_READ = 4"
definition access_WRITE :: u8 where "access_WRITE = 2"
definition access_EXEC :: u8 where "access_EXEC = 1"

section \<open>The disk\<close>

definition read_disk :: "fs_state \<Rightarrow> u32 \<Rightarrow> u8 list" where
  "read_disk s lba = fdisk s lba"

definition write_disk :: "fs_state \<Rightarrow> u32 \<Rightarrow> u8 list \<Rightarrow> fs_state" where
  "write_disk s lba buf = s\<lparr>fdisk := (fdisk s)(lba := take sector_size buf)\<rparr>"

fun write_sectors :: "fs_state \<Rightarrow> u32 \<Rightarrow> u8 list \<Rightarrow> nat \<Rightarrow> fs_state option" where
  "write_sectors s lba buf 0 = Some s"
| "write_sectors s lba buf (Suc n) =
     (if length buf < sector_size then None
      else write_sectors (write_disk s lba buf) (lba + 1) (drop sector_size buf) n)"

section \<open>Inodes\<close>

definition encode_inode :: "inode \<Rightarrow> u8 list" where
  "encode_inode i = enc32 (inode_no i) @ enc32 (isize i) @ enc64 (last_modify_time i) @ enc32 (link_cnt i)
     @ enc16 (iuid i) @ enc16 (igid i) @ enc32 (imode i) @ concat (map enc32 (sectors i))"

definition decode_inode :: "u8 list \<Rightarrow> inode" where
  "decode_inode bs = \<lparr>inode_no = dec32 bs, isize = dec32 (drop 4 bs), last_modify_time = dec64 (drop 8 bs),
     link_cnt = dec32 (drop 16 bs), iuid = dec16 (drop 20 bs), igid = dec16 (drop 22 bs),
     imode = dec32 (drop 24 bs), sectors = map (\<lambda>k. dec32 (drop (28 + 4 * k) bs)) [0 ..< 9]\<rparr>"

definition sync_inode :: "fs_state \<Rightarrow> inode \<Rightarrow> fs_state" where
  "sync_inode s i =
     (let ino = inode_no i;
          lba = inode_table_lba (sb_data s) + ino div 8;
          buf = read_disk s lba
      in write_disk s lba (put buf (sizeof_inode * unat (ino mod 8)) (encode_inode i)))"

definition ino2inode :: "fs_state \<Rightarrow> u32 \<Rightarrow> inode" where
  "ino2inode s ino =
     (let buf = read_disk s (inode_table_lba (sb_data s) + ino div 8)
      in decode_inode (take sizeof_inode (drop (sizeof_inode * unat (ino mod 8)) buf)))"

definition allocate_inode_no :: "fs_state \<Rightarrow> (u32 \<times> fs_state) option" where
  "allocate_inode_no s = do {
     slot \<leftarrow> bitmap_scan (inode_bmap s) 1;
     b \<leftarrow> bitmap_set_bit (inode_bmap s) (word_of_int slot) 1;
     Some (word_of_int slot, s\<lparr>inode_bmap := b\<rparr>) }"

definition free_inode :: "fs_state \<Rightarrow> u32 \<Rightarrow> fs_state option" where
  "free_inode s ino = do {
     b \<leftarrow> bitmap_set_bit (inode_bmap s) ino 0;
     Some (s\<lparr>inode_bmap := b\<rparr>) }"

definition create_inode :: "fs_state \<Rightarrow> u64 \<Rightarrow> (inode \<times> fs_state) option" where
  "create_inode s now = do {
     (ino, s1) \<leftarrow> allocate_inode_no s;
     Some (\<lparr>inode_no = ino, isize = 0, last_modify_time = now, link_cnt = 0, iuid = ucast (fs_uid s1),
            igid = 0, imode = DEFAULT_PRIVILEGE, sectors = replicate 9 0\<rparr>, s1) }"

section \<open>Blocks and bitmaps\<close>

definition allocate_block :: "fs_state \<Rightarrow> (u32 \<times> fs_state) option" where
  "allocate_block s = do {
     slot \<leftarrow> bitmap_scan (block_bmap s) 1;
     b \<leftarrow> bitmap_set_bit (block_bmap s) (word_of_int slot) 1;
     Some (word_of_int slot, s\<lparr>block_bmap := b\<rparr>) }"

definition free_block :: "fs_state \<Rightarrow> u32 \<Rightarrow> fs_state option" where
  "free_block s block_no = do {
     b \<leftarrow> bitmap_set_bit (block_bmap s) block_no 0;
     Some (s\<lparr>block_bmap := b\<rparr>) }"

definition sync_block :: "fs_state \<Rightarrow> u32 \<Rightarrow> u8 list \<Rightarrow> fs_state" where
  "sync_block s block_no buf = write_disk s (data_start (sb_data s) + block_no) buf"

definition read_block :: "fs_state \<Rightarrow> u32 \<Rightarrow> u8 list" where
  "read_block s block_no = read_disk s (data_start (sb_data s) + block_no)"

definition sync_inode_bitmap :: "fs_state \<Rightarrow> fs_state option" where
  "sync_inode_bitmap s =
     write_sectors s (inode_bitmap_lba (sb_data s)) (base (inode_bmap s)) (unat (inode_bitmap_sectors (sb_data s)))"

definition sync_block_bitmap :: "fs_state \<Rightarrow> fs_state option" where
  "sync_block_bitmap s =
     write_sectors s (block_bitmap_lba (sb_data s)) (base (block_bmap s)) (unat (block_bitmap_sectors (sb_data s)))"

section \<open>Permissions\<close>

definition check_inode_permission :: "fs_state \<Rightarrow> inode \<Rightarrow> u8 \<Rightarrow> bool" where
  "check_inode_permission s i op0 =
     (if fs_uid s = 0 then True
      else
        (let op = (if fs_uid s = ucast (iuid i) then push_bit 3 op0 else op0)
         in imode i AND ucast op \<noteq> 0))"

section \<open>The inode table is an array\<close>

lemma concat_enc32_drop: "k < length ws \<Longrightarrow> dec32 (drop (4 * k) (concat (map enc32 ws))) = ws ! k"
proof (induction ws arbitrary: k)
  case (Cons w ws)
  then show ?case
    by (cases k) (simp_all add: drop_append)
qed simp

lemma length_concat_enc32 [simp]: "length (concat (map enc32 ws)) = 4 * length ws"
  by (induction ws) simp_all

lemma length_encode_inode: "length (sectors i) = 9 \<Longrightarrow> length (encode_inode i) = sizeof_inode"
  by (simp add: encode_inode_def)

lemma decode_encode_inode:
  assumes "length (sectors i) = 9"
  shows "decode_inode (encode_inode i) = i"
proof -
  have "drop (28 + 4 * k) (encode_inode i) = drop (4 * k) (concat (map enc32 (sectors i)))" for k
    by (simp add: encode_inode_def drop_append)
  then have "map (\<lambda>k. dec32 (drop (28 + 4 * k) (encode_inode i))) [0 ..< 9] = sectors i"
    using assms by (intro nth_equalityI) (simp_all add: concat_enc32_drop)
  then show ?thesis
    by (simp add: decode_inode_def) (simp add: encode_inode_def)
qed

lemma take_drop_put_same: "p + length s \<le> length buf \<Longrightarrow> take (length s) (drop p (put buf p s)) = s"
  by (simp add: put_def)

lemma take_drop_put_other:
  assumes "p + length s \<le> length buf" "q + n \<le> p \<or> p + length s \<le> q" "q + n \<le> length buf"
  shows "take n (drop q (put buf p s)) = take n (drop q buf)"
  using assms by (intro nth_equalityI) (auto simp: nth_put)

definition disk_wf :: "fs_state \<Rightarrow> bool" where
  "disk_wf s \<longleftrightarrow> (\<forall>lba. length (fdisk s lba) = sector_size)"

lemma ino_mod_8: "unat (ino mod 8) < 8" for ino :: u32
  by (simp add: unat_mod)

lemma sync_inode_wf: "disk_wf s \<Longrightarrow> length (sectors i) = 9 \<Longrightarrow> disk_wf (sync_inode s i)"
  using ino_mod_8 [of "inode_no i"]
  by (simp add: disk_wf_def sync_inode_def write_disk_def read_disk_def Let_def length_encode_inode)

lemma ino2inode_sync:
  assumes wf: "disk_wf s" and len: "length (sectors i) = 9"
  shows "ino2inode (sync_inode s i) j = (if j = inode_no i then i else ino2inode s j)"
proof -
  let ?n = "inode_no i" and ?t = "inode_table_lba (sb_data s)"
  let ?p = "sizeof_inode * unat (?n mod 8)" and ?q = "sizeof_inode * unat (j mod 8)"
  let ?buf = "fdisk s (?t + ?n div 8)"
  have b: "length ?buf = sector_size" using wf by (simp add: disk_wf_def)
  have pq: "?p + sizeof_inode \<le> sector_size" "?q + sizeof_inode \<le> sector_size"
    using ino_mod_8 [of ?n] ino_mod_8 [of j] by linarith+
  have le: "length (encode_inode i) = sizeof_inode" by (rule length_encode_inode [OF len])
  have rd: "ino2inode (sync_inode s i) j = decode_inode (take sizeof_inode (drop ?q
      (if ?t + j div 8 = ?t + ?n div 8 then put ?buf ?p (encode_inode i) else fdisk s (?t + j div 8))))"
    using b pq le by (simp add: ino2inode_def sync_inode_def write_disk_def read_disk_def Let_def)
  show ?thesis
  proof (cases "j div 8 = ?n div 8")
    case True
    have "j = ?n \<longleftrightarrow> j mod 8 = ?n mod 8" using True by (metis word_mod_div_equality)
    moreover have "?q + sizeof_inode \<le> ?p \<or> ?p + sizeof_inode \<le> ?q" if "j mod 8 \<noteq> ?n mod 8"
    proof -
      have "unat (j mod 8) < unat (?n mod 8) \<or> unat (?n mod 8) < unat (j mod 8)"
        using that word_eq_iff_unat [of "j mod 8" "?n mod 8"] by (simp add: nat_neq_iff)
      then show ?thesis by (elim disjE) simp_all
    qed
    ultimately show ?thesis
      using True rd b pq le decode_encode_inode [OF len] take_drop_put_same [of ?p "encode_inode i" ?buf]
        take_drop_put_other [of ?p "encode_inode i" ?buf ?q sizeof_inode]
      by (auto simp: ino2inode_def read_disk_def Let_def)
  next
    case False
    then have "j \<noteq> ?n" by auto
    then show ?thesis using False rd by (simp add: ino2inode_def read_disk_def Let_def)
  qed
qed

section \<open>Runs of sectors\<close>

lemma write_sectors_ok:
  assumes "sector_size * n \<le> length buf" "unat lba + n \<le> 2 ^ 32"
  shows "write_sectors s lba buf n = Some (s\<lparr>fdisk := (\<lambda>x. if unat lba \<le> unat x \<and> unat x < unat lba + n
     then take sector_size (drop (sector_size * (unat x - unat lba)) buf) else fdisk s x)\<rparr>)"
  using assms
proof (induction n arbitrary: s lba buf)
  case 0
  have "(\<lambda>x. if unat lba \<le> unat x \<and> unat x < unat lba + 0
      then take sector_size (drop (sector_size * (unat x - unat lba)) buf) else fdisk s x) = fdisk s"
    by (auto simp: fun_eq_iff)
  then show ?case by simp
next
  case (Suc n)
  show ?case
  proof (cases n)
    case 0
    have "(\<lambda>x. if unat lba \<le> unat x \<and> unat x < unat lba + Suc 0
        then take sector_size (drop (sector_size * (unat x - unat lba)) buf) else fdisk s x)
      = (fdisk s)(lba := take sector_size buf)"
      by (auto simp: fun_eq_iff word_eq_iff_unat)
    then show ?thesis using 0 Suc.prems by (simp add: write_disk_def)
  next
    case (Suc m)
    have l: "unat (lba + 1) = Suc (unat lba)" using Suc Suc.prems(2) by (simp add: unat_add_small)
    have "(\<lambda>x. if unat (lba + 1) \<le> unat x \<and> unat x < unat (lba + 1) + n
        then take sector_size (drop (sector_size * (unat x - unat (lba + 1))) (drop sector_size buf))
        else fdisk (write_disk s lba buf) x)
      = (\<lambda>x. if unat lba \<le> unat x \<and> unat x < unat lba + Suc n
        then take sector_size (drop (sector_size * (unat x - unat lba)) buf) else fdisk s x)" (is "?l = ?r")
    proof
      fix x :: u32
      consider "unat x = unat lba" | d where "unat x = unat lba + Suc d" | "unat x < unat lba"
        using less_imp_Suc_add [of "unat lba" "unat x"] by fastforce
      then show "?l x = ?r x" using l by cases (auto simp: write_disk_def word_eq_iff_unat add.commute)
    qed
    then have eq: "(write_disk s lba buf)\<lparr>fdisk := ?l\<rparr> = s\<lparr>fdisk := ?r\<rparr>" by (simp only: write_disk_def) simp
    have "write_sectors s lba buf (Suc n) = write_sectors (write_disk s lba buf) (lba + 1) (drop sector_size buf) n"
      using Suc.prems(1) by simp
    also have "\<dots> = Some ((write_disk s lba buf)\<lparr>fdisk := ?l\<rparr>)"
      using Suc.prems l by (intro Suc.IH) auto
    finally show ?thesis unfolding eq .
  qed
qed

section \<open>Allocation\<close>

definition alloc_inode_slot :: "fs_state \<Rightarrow> (nat \<times> fs_state) option" where
  "alloc_inode_slot s = do { (ino, s') \<leftarrow> allocate_inode_no s; Some (unat ino, s') }"

definition release_inode_slot :: "fs_state \<Rightarrow> nat \<Rightarrow> fs_state option" where
  "release_inode_slot s i = free_inode s (of_nat i)"

definition alloc_block_slot :: "fs_state \<Rightarrow> (nat \<times> fs_state) option" where
  "alloc_block_slot s = do { (b, s') \<leftarrow> allocate_block s; Some (unat b, s') }"

definition release_block_slot :: "fs_state \<Rightarrow> nat \<Rightarrow> fs_state option" where
  "release_block_slot s i = free_block s (of_nat i)"

lemma bm_cap_small: "bm_wf b \<Longrightarrow> i < bm_cap b \<Longrightarrow> unat (of_nat i :: u32) = i"
  by (intro unat_of_nat_small) (simp add: bm_cap_def bm_wf_def)

lemma bitmap_clear_bit:
  assumes "bm_wf b" "i < bm_cap b"
  shows "\<exists>b'. bitmap_set_bit b (of_nat i) 0 = Some b' \<and> bm_wf b' \<and> bm_cap b' = bm_cap b \<and> bm_used b' = bm_used b - {i}"
proof -
  have i: "unat (of_nat i :: u32) = i" by (rule bm_cap_small [OF assms])
  show ?thesis
    by (rule bitmap_set_bit_wf [OF assms(1), of "of_nat i" 0]) (use i assms in auto)
qed

interpretation inodes: slot_allocator "\<lambda>s. bm_wf (inode_bmap s)" "\<lambda>s. bm_cap (inode_bmap s)"
  "\<lambda>s. bm_used (inode_bmap s)" alloc_inode_slot release_inode_slot
proof
  show "bm_used (inode_bmap s) \<subseteq> {..<bm_cap (inode_bmap s)}" for s :: fs_state by (auto simp: bm_used_def)
next
  fix s :: fs_state
  assume wf: "bm_wf (inode_bmap s)" and free: "bm_used (inode_bmap s) \<noteq> {..<bm_cap (inode_bmap s)}"
  show "\<exists>i s'. alloc_inode_slot s = Some (i, s') \<and> i < bm_cap (inode_bmap s) \<and> i \<notin> bm_used (inode_bmap s)
      \<and> (\<forall>k<i. k \<in> bm_used (inode_bmap s)) \<and> bm_wf (inode_bmap s') \<and> bm_cap (inode_bmap s') = bm_cap (inode_bmap s)
      \<and> bm_used (inode_bmap s') = insert i (bm_used (inode_bmap s))"
  proof (cases rule: bitmap_scan_set [OF wf free])
    case (1 r b)
    then show ?thesis using bm_cap_small [OF wf 1(2)]
      by (intro exI [of _ r] exI [of _ "s\<lparr>inode_bmap := b\<rparr>"])
        (simp add: alloc_inode_slot_def allocate_inode_no_def)
  qed
next
  fix s :: fs_state and i
  assume "bm_wf (inode_bmap s)" "i < bm_cap (inode_bmap s)"
  from bitmap_clear_bit [OF this] obtain b where "bitmap_set_bit (inode_bmap s) (of_nat i) 0 = Some b" "bm_wf b"
      "bm_cap b = bm_cap (inode_bmap s)" "bm_used b = bm_used (inode_bmap s) - {i}" by blast
  then show "\<exists>s'. release_inode_slot s i = Some s' \<and> bm_wf (inode_bmap s') \<and> bm_cap (inode_bmap s') = bm_cap (inode_bmap s)
      \<and> bm_used (inode_bmap s') = bm_used (inode_bmap s) - {i}"
    by (intro exI [of _ "s\<lparr>inode_bmap := b\<rparr>"]) (simp add: release_inode_slot_def free_inode_def)
qed

interpretation blocks: slot_allocator "\<lambda>s. bm_wf (block_bmap s)" "\<lambda>s. bm_cap (block_bmap s)"
  "\<lambda>s. bm_used (block_bmap s)" alloc_block_slot release_block_slot
proof
  show "bm_used (block_bmap s) \<subseteq> {..<bm_cap (block_bmap s)}" for s :: fs_state by (auto simp: bm_used_def)
next
  fix s :: fs_state
  assume wf: "bm_wf (block_bmap s)" and free: "bm_used (block_bmap s) \<noteq> {..<bm_cap (block_bmap s)}"
  show "\<exists>i s'. alloc_block_slot s = Some (i, s') \<and> i < bm_cap (block_bmap s) \<and> i \<notin> bm_used (block_bmap s)
      \<and> (\<forall>k<i. k \<in> bm_used (block_bmap s)) \<and> bm_wf (block_bmap s') \<and> bm_cap (block_bmap s') = bm_cap (block_bmap s)
      \<and> bm_used (block_bmap s') = insert i (bm_used (block_bmap s))"
  proof (cases rule: bitmap_scan_set [OF wf free])
    case (1 r b)
    then show ?thesis using bm_cap_small [OF wf 1(2)]
      by (intro exI [of _ r] exI [of _ "s\<lparr>block_bmap := b\<rparr>"])
        (simp add: alloc_block_slot_def allocate_block_def)
  qed
next
  fix s :: fs_state and i
  assume "bm_wf (block_bmap s)" "i < bm_cap (block_bmap s)"
  from bitmap_clear_bit [OF this] obtain b where "bitmap_set_bit (block_bmap s) (of_nat i) 0 = Some b" "bm_wf b"
      "bm_cap b = bm_cap (block_bmap s)" "bm_used b = bm_used (block_bmap s) - {i}" by blast
  then show "\<exists>s'. release_block_slot s i = Some s' \<and> bm_wf (block_bmap s') \<and> bm_cap (block_bmap s') = bm_cap (block_bmap s)
      \<and> bm_used (block_bmap s') = bm_used (block_bmap s) - {i}"
    by (intro exI [of _ "s\<lparr>block_bmap := b\<rparr>"]) (simp add: release_block_slot_def free_block_def)
qed

section \<open>Properties\<close>

text \<open>C34: the inode table is an array: writing an inode and reading any inode number gives the
  written inode for its own number and the old inode for every other.\<close>

theorem inode_table_read_after_write:
  assumes "disk_wf s" and "length (sectors i) = 9"
  shows "disk_wf (sync_inode s i) \<and> ino2inode (sync_inode s i) j = (if j = inode_no i then i else ino2inode s j)"
  using sync_inode_wf [OF assms] ino2inode_sync [OF assms] by simp

text \<open>The packed encoding of an inode takes 64 bytes and decodes to the inode.\<close>

lemma inode_encoding_round_trip:
  assumes "length (sectors i) = 9"
  shows "length (encode_inode i) = 64 \<and> decode_inode (encode_inode i) = i"
  using length_encode_inode [OF assms] decode_encode_inode [OF assms] by simp

text \<open>Two blocks allocated one after the other are different and were both free, and
  freeing the second one restores the set of used blocks.\<close>

theorem allocated_blocks_distinct:
  assumes "bm_wf (block_bmap s)" and "bm_used (block_bmap s) \<noteq> {..<bm_cap (block_bmap s)}"
    and "allocate_block s = Some (a, s')" and "bm_used (block_bmap s') \<noteq> {..<bm_cap (block_bmap s')}"
    and "allocate_block s' = Some (b, s'')"
  shows "a \<noteq> b \<and> unat a \<notin> bm_used (block_bmap s) \<and> unat b \<notin> bm_used (block_bmap s)
    \<and> (\<exists>t. free_block s'' b = Some t \<and> bm_used (block_bmap t) = bm_used (block_bmap s'))"
proof -
  have a: "alloc_block_slot s = Some (unat a, s')" and b: "alloc_block_slot s' = Some (unat b, s'')"
    using assms(3,5) by (simp_all add: alloc_block_slot_def)
  note A = blocks.alloc_SomeD [OF assms(1,2) a]
  note B = blocks.alloc_SomeD [OF A(4) assms(4) b]
  have "unat a \<noteq> unat b" by (rule blocks.alloc_alloc_distinct [OF assms(1,2) a assms(4) b])
  moreover have "release_block_slot s'' (unat b) = free_block s'' b" by (simp add: release_block_slot_def)
  ultimately show ?thesis
    using blocks.alloc_release [OF A(4) assms(4) b] A(2,6) B(2) by auto
qed

text \<open>Permission is decided by the bits of the mode: the superuser may do everything, the
  owner is judged by the upper and everybody else by the lower three bits.\<close>

theorem permission_bits:
  assumes "n < 3" and "op = push_bit n 1"
  shows "check_inode_permission s i op \<longleftrightarrow>
    fs_uid s = 0 \<or> bit (imode i) (if fs_uid s = ucast (iuid i) then n + 3 else n)"
proof -
  have eq: "w AND ucast (push_bit k (1 :: u8)) \<noteq> 0 \<longleftrightarrow> bit w k" if "k < 8" for w :: u32 and k
  proof -
    have "ucast (push_bit k (1 :: u8)) = (push_bit k 1 :: u32)"
      using that by (intro bit_word_eqI) (auto simp: bit_simps)
    then show ?thesis by (simp add: bit_iff_and_push_bit_not_eq_0)
  qed
  have "push_bit 3 op = push_bit (n + 3) 1" by (simp only: assms(2) push_bit_push_bit add.commute)
  then show ?thesis
    using assms eq [of n] eq [of "n + 3"] by (auto simp: check_inode_permission_def Let_def)
qed

section \<open>Witnesses\<close>

definition empty_inode :: inode where
  "empty_inode = \<lparr>inode_no = 0, isize = 0, last_modify_time = 0, link_cnt = 0, iuid = 0, igid = 0, imode = 0x3d,
     sectors = replicate 9 0\<rparr>"

definition small_sb :: super_block_data where
  "small_sb = \<lparr>magic = [83, 104, 109, 105, 108, 121, 0], is_sufficient = False, sectors_nr = 2000, inodes_nr = 0,
     sb_start_lba = 0, block_bitmap_lba = 2, block_bitmap_sectors = 1, inode_bitmap_lba = 3,
     inode_bitmap_sectors = 1, inode_table_lba = 4, inode_table_sectors = 8, data_start = 12,
     root_inode_no = 0, dir_entry_size = 72\<rparr>"

definition small_fs :: fs_state where
  "small_fs = \<lparr>fdisk = (\<lambda>_. replicate 512 0), sb_data = small_sb,
     block_bmap = \<lparr>bytes_len = 1, base = [1, 0]\<rparr>, inode_bmap = \<lparr>bytes_len = 1, base = [1, 0]\<rparr>,
     fs_uid = 7, cur_dir = 47 # replicate 63 0, file_desc_tbl = replicate 64 None\<rparr>"

theorem inode_table_read_after_write_witness:
  "ino2inode (sync_inode small_fs (empty_inode\<lparr>inode_no := 9\<rparr>)) 9 = empty_inode\<lparr>inode_no := 9\<rparr>"
  using inode_table_read_after_write [of small_fs "empty_inode\<lparr>inode_no := 9\<rparr>" 9]
  by (simp add: disk_wf_def small_fs_def empty_inode_def)

theorem allocated_blocks_distinct_example:
  "\<exists>s' s''. allocate_block small_fs = Some (1, s') \<and> allocate_block s' = Some (2, s'')
     \<and> (\<exists>t. free_block s'' 2 = Some t \<and> bm_used (block_bmap t) = bm_used (block_bmap s'))"
proof -
  let ?s1 = "small_fs\<lparr>block_bmap := \<lparr>bytes_len = 1, base = [3, 0]\<rparr>\<rparr>"
  let ?s2 = "small_fs\<lparr>block_bmap := \<lparr>bytes_len = 1, base = [7, 0]\<rparr>\<rparr>"
  have c: "bitmap_scan \<lparr>bytes_len = 1, base = [1, 0]\<rparr> 1 = Some 1"
      "bitmap_set_bit \<lparr>bytes_len = 1, base = [1, 0]\<rparr> 1 1 = Some \<lparr>bytes_len = 1, base = [3, 0]\<rparr>"
      "bitmap_scan \<lparr>bytes_len = 1, base = [3, 0]\<rparr> 1 = Some 2"
      "bitmap_set_bit \<lparr>bytes_len = 1, base = [3, 0]\<rparr> 2 1 = Some \<lparr>bytes_len = 1, base = [7, 0]\<rparr>"
    by code_simp+
  have a: "allocate_block small_fs = Some (1, ?s1)" "allocate_block ?s1 = Some (2, ?s2)"
    using c by (simp_all add: allocate_block_def small_fs_def)
  have nf: "bm_used (block_bmap small_fs) \<noteq> {..<bm_cap (block_bmap small_fs)}"
      "bm_used (block_bmap ?s1) \<noteq> {..<bm_cap (block_bmap ?s1)}"
  proof -
    have "\<not> bm_bit \<lparr>bytes_len = 1, base = [1, 0]\<rparr> 7" "\<not> bm_bit \<lparr>bytes_len = 1, base = [3, 0]\<rparr> 7"
      by (simp_all add: bm_bit_def)
    then have "7 \<notin> bm_used (block_bmap small_fs)" "7 \<notin> bm_used (block_bmap ?s1)"
      by (simp_all add: bm_used_def small_fs_def)
    moreover have "7 \<in> {..<bm_cap (block_bmap small_fs)}" "7 \<in> {..<bm_cap (block_bmap ?s1)}"
      by (simp_all add: bm_cap_def small_fs_def)
    ultimately show "bm_used (block_bmap small_fs) \<noteq> {..<bm_cap (block_bmap small_fs)}"
      "bm_used (block_bmap ?s1) \<noteq> {..<bm_cap (block_bmap ?s1)}" by metis+
  qed
  have "bm_wf (block_bmap small_fs)" by (simp add: bm_wf_def small_fs_def)
  from allocated_blocks_distinct [OF this nf(1) a(1) nf(2) a(2)] show ?thesis using a by blast
qed

theorem permission_bits_example:
  "\<not> check_inode_permission small_fs empty_inode access_WRITE"
  using permission_bits [of 1 access_WRITE small_fs empty_inode]
  by (simp add: small_fs_def empty_inode_def access_WRITE_def)

end
