(* ===== verification/Directory.thy ===== *)
theory Directory
  imports Inode
begin

text \<open>
  Model of \<open>fs/dir.cc\<close> and of the commands of \<open>fs/protect.cc\<close>: path names, the entries
  of a directory in its sectors, and the operations that create and remove directories.

  Strings are objects of bytes with a position, as in \<open>lib/string.cc\<close>; the local buffers of
  the code have their sizes, so that a component or a parent path that does not fit faults
  (\<open>None\<close>). A directory entry is 72 bytes (64 of the name, the inode number and the type);
  seven entries are used in a sector. The heap is not part of the state: buffers from
  \<open>malloc\<close> are cleared objects, as the memory manager hands them out, and \<open>free\<close> does
  nothing (\<open>remove_dir_entry\<close> goes on using a buffer that it has freed). What is printed is
  not modelled.

  The theory shows that resolving a path walks the components from the root, that a path is
  split into its parent and its last component, and that a directory behaves like a table of
  names: an entry that was created is found under its name and no other name changes, and a
  removed name is not found.
\<close>

section \<open>Paths\<close>

abbreviation (input) slash :: u8 where "slash \<equiv> 47"

function split_loop :: "u8 list \<Rightarrow> nat \<Rightarrow> u8 list \<Rightarrow> nat \<Rightarrow> (nat option \<times> u8 list) option" where
  "split_loop path p cur k =
     (case load path p of
        None \<Rightarrow> None
      | Some c \<Rightarrow>
          if c \<noteq> slash then
            (case store cur k c of
               None \<Rightarrow> None
             | Some cur' \<Rightarrow>
                 (case load path (Suc p) of
                    None \<Rightarrow> None
                  | Some c' \<Rightarrow> if c' = 0 then Some (None, cur') else split_loop path (Suc p) cur' (Suc k)))
          else
            (case store cur k 0 of None \<Rightarrow> None | Some cur' \<Rightarrow> Some (Some (Suc p), cur')))"
  by pat_completeness auto
termination
  by (relation "measure (\<lambda>(path, p, cur, k). length path - p)") (auto simp: load_Some_iff)

declare split_loop.simps [simp del]

definition split_path :: "u8 list \<Rightarrow> nat \<Rightarrow> u8 list \<Rightarrow> (nat option \<times> u8 list) option" where
  "split_path path p cur = do {
     c \<leftarrow> load path p;
     (if c = slash then do {
        cur1 \<leftarrow> store cur 0 slash;
        cur2 \<leftarrow> store cur1 1 0;
        Some (Some (Suc p), cur2) }
      else if c = 0 then Some (None, cur)
      else split_loop path p cur 0) }"

lemma split_loop_next: "split_loop path p cur k = Some (Some q, cur') \<Longrightarrow> p < q \<and> q \<le> length path"
proof (induction path p cur k rule: split_loop.induct)
  case (1 path p cur k)
  then show ?case
    by (subst (asm) split_loop.simps [of path p])
      (fastforce split: option.splits if_splits simp: load_Some_iff)
qed

lemma split_path_next: "split_path path p cur = Some (Some q, cur') \<Longrightarrow> p < q \<and> q \<le> length path"
  using split_loop_next by (fastforce simp: split_path_def bind_eq_Some_conv load_Some_iff split: if_splits)

fun count_slashes :: "u8 list \<Rightarrow> nat option" where
  "count_slashes [] = None"
| "count_slashes (c # cs) =
     (if c = 0 then Some 0 else map_option (\<lambda>n. if c = slash then Suc n else n) (count_slashes cs))"

function copy_parent :: "u8 list \<Rightarrow> nat \<Rightarrow> u8 list \<Rightarrow> nat \<Rightarrow> nat \<Rightarrow> (nat \<times> u8 list) option" where
  "copy_parent path p parent i l =
     (if i < l - 1 then
        (case load path p of
           None \<Rightarrow> None
         | Some c \<Rightarrow>
             (case store parent p c of
                None \<Rightarrow> None
              | Some parent' \<Rightarrow> copy_parent path (Suc p) parent' (if c = slash then Suc i else i) l))
      else Some (p, parent))"
  by pat_completeness auto
termination
  by (relation "measure (\<lambda>(path, p, parent, i, l). length path - p)") (auto simp: load_Some_iff)

declare copy_parent.simps [simp del]

definition skip_last_slash :: "u8 list \<Rightarrow> u8 list option" where
  "skip_last_slash str = do {
     l \<leftarrow> strlen str 0;
     (if l = 0 then None
      else do {
        c \<leftarrow> load str (l - 1);
        (if c = slash then store str (l - 1) 0 else Some str) }) }"

text \<open>The position of the last component (or \<open>NULL\<close>) and the buffer of the parent.\<close>

definition split_path_2parts :: "u8 list \<Rightarrow> u8 list \<Rightarrow> (nat option \<times> u8 list) option" where
  "split_path_2parts path parent = do {
     c \<leftarrow> load path 0;
     (if c \<noteq> slash then Some (None, parent)
      else do {
        n \<leftarrow> count_slashes path;
        (p, parent1) \<leftarrow> copy_parent path 0 parent 0 (1 + n);
        c1 \<leftarrow> load parent1 1;
        (if c1 \<noteq> 0 then do {
           parent2 \<leftarrow> store parent1 (p - 1) 0;
           parent3 \<leftarrow> skip_last_slash parent2;
           Some (Some p, parent3) }
         else Some (Some p, parent1)) }) }"

section \<open>Entries\<close>

abbreviation (input) sizeof_dir_entry :: nat where "sizeof_dir_entry \<equiv> 72"
abbreviation (input) entries_per_sector :: nat where "entries_per_sector \<equiv> 7"

definition NOT_FOUND :: u32 where "NOT_FOUND = -1"

text \<open>The entries from number \<open>j\<close> on of a sector, for a name.\<close>

function find_in_sector :: "u8 list \<Rightarrow> u8 list \<Rightarrow> nat \<Rightarrow> nat \<Rightarrow> u32 option option" where
  "find_in_sector buf child cp j =
     (if j < entries_per_sector then
        (case load buf (sizeof_dir_entry * j) of
           None \<Rightarrow> None
         | Some c \<Rightarrow>
             if c = 0 then find_in_sector buf child cp (Suc j)
             else
               (case strcmp buf (sizeof_dir_entry * j) child cp of
                  None \<Rightarrow> None
                | Some True \<Rightarrow> map_option Some (load32 buf (sizeof_dir_entry * j + 64))
                | Some False \<Rightarrow> find_in_sector buf child cp (Suc j)))
      else Some None)"
  by pat_completeness auto
termination by (relation "measure (\<lambda>(buf, child, cp, j). entries_per_sector - j)") auto

declare find_in_sector.simps [simp del]

fun find_in_sectors :: "fs_state \<Rightarrow> u32 list \<Rightarrow> u8 list \<Rightarrow> nat \<Rightarrow> u32 option" where
  "find_in_sectors s [] child cp = Some NOT_FOUND"
| "find_in_sectors s (lba # lbas) child cp =
     (if lba = 0 then find_in_sectors s lbas child cp
      else do {
        r \<leftarrow> find_in_sector (read_disk s lba) child cp 0;
        (case r of Some ino \<Rightarrow> Some ino | None \<Rightarrow> find_in_sectors s lbas child cp) })"

definition find_dir_entry :: "fs_state \<Rightarrow> inode \<Rightarrow> u8 list \<Rightarrow> nat \<Rightarrow> u32 option" where
  "find_dir_entry s i child cp = find_in_sectors s (sectors i) child cp"

text \<open>The loop of \<open>dir_is_exists\<close>.\<close>

function walk_path :: "fs_state \<Rightarrow> u8 list \<Rightarrow> nat \<Rightarrow> u32 \<Rightarrow> u32 option" where
  "walk_path s path p ino =
     (case split_path path p (replicate 64 0) of
        None \<Rightarrow> None
      | Some (nxt, cur) \<Rightarrow>
          (case strcmp [slash, 0] 0 cur 0 of
             None \<Rightarrow> None
           | Some True \<Rightarrow> (case nxt of None \<Rightarrow> Some ino | Some q \<Rightarrow> walk_path s path q ino)
           | Some False \<Rightarrow>
               (case find_dir_entry s (ino2inode s ino) cur 0 of
                  None \<Rightarrow> None
                | Some ino' \<Rightarrow>
                    if ino' = NOT_FOUND then Some NOT_FOUND
                    else (case nxt of None \<Rightarrow> Some ino' | Some q \<Rightarrow> walk_path s path q ino'))))"
  by pat_completeness auto
termination
  by (relation "measure (\<lambda>(s, path, p, ino). length path - p)") (auto dest!: split_path_next)

declare walk_path.simps [simp del]

definition dir_is_exists :: "fs_state \<Rightarrow> u8 list \<Rightarrow> u32 option" where
  "dir_is_exists s path = do {
     c \<leftarrow> load path 0;
     (if c \<noteq> slash then Some NOT_FOUND
      else do {
        c1 \<leftarrow> load path 1;
        (if c1 = 0 then Some 0 else walk_path s path 0 (root_inode_no (sb_data s))) }) }"

section \<open>Creating and removing entries\<close>

text \<open>The search for a free slot and for the name: \<open>Some None\<close> when the name exists.\<close>

function scan_sector :: "u8 list \<Rightarrow> u32 \<Rightarrow> u8 list \<Rightarrow> nat \<Rightarrow> u32 \<Rightarrow> nat \<Rightarrow> (u32 \<times> nat) option option" where
  "scan_sector buf lba child j free_sector free_offset =
     (if j < entries_per_sector then
        (case load buf (sizeof_dir_entry * j) of
           None \<Rightarrow> None
         | Some c \<Rightarrow>
             if c = 0 \<and> free_offset = 0 \<and> free_sector = 0 then scan_sector buf lba child (Suc j) lba j
             else
               (case strcmp buf (sizeof_dir_entry * j) child 0 of
                  None \<Rightarrow> None
                | Some True \<Rightarrow> Some None
                | Some False \<Rightarrow> scan_sector buf lba child (Suc j) free_sector free_offset))
      else Some (Some (free_sector, free_offset)))"
  by pat_completeness auto
termination by (relation "measure (\<lambda>(buf, lba, child, j, fs, fo). entries_per_sector - j)") auto

declare scan_sector.simps [simp del]

fun scan_dir :: "fs_state \<Rightarrow> u32 list \<Rightarrow> u8 list \<Rightarrow> u32 \<Rightarrow> nat \<Rightarrow> (u32 \<times> nat) option option" where
  "scan_dir s [] child fs fo = Some (Some (fs, fo))"
| "scan_dir s (lba # lbas) child fs fo =
     (if lba = 0 then scan_dir s lbas child fs fo
      else do {
        r \<leftarrow> scan_sector (read_disk s lba) lba child 0 fs fo;
        (case r of None \<Rightarrow> Some None | Some (fs', fo') \<Rightarrow> scan_dir s lbas child fs' fo') })"

fun first_zero :: "u32 list \<Rightarrow> nat \<Rightarrow> nat option" where
  "first_zero [] i = None"
| "first_zero (x # xs) i = (if x = 0 then Some i else first_zero xs (Suc i))"

text \<open>\<open>child\<close> is the 72 bytes of the new entry.\<close>

definition create_dir_entry :: "fs_state \<Rightarrow> inode \<Rightarrow> u8 list \<Rightarrow> fs_state option" where
  "create_dir_entry s i child = do {
     r \<leftarrow> scan_dir s (sectors i) child 0 0;
     (case r of
        None \<Rightarrow> Some s
      | Some (free_sector, free_offset) \<Rightarrow>
          if free_sector \<noteq> 0 then
            Some (write_disk s free_sector (put (read_disk s free_sector) (sizeof_dir_entry * free_offset) child))
          else
            (case first_zero (sectors i) 0 of
               None \<Rightarrow> Some s
             | Some k \<Rightarrow> do {
                 (block_no, s1) \<leftarrow> allocate_block s;
                 let s2 = sync_block s1 block_no (put (read_block s1 block_no) 0 child);
                 let s3 = sync_inode s2 (i\<lparr>sectors := (sectors i)[k := data_start (sb_data s2) + block_no]\<rparr>);
                 sync_block_bitmap s3 })) }"

definition init_child_dir :: "fs_state \<Rightarrow> u32 \<Rightarrow> u32 \<Rightarrow> fs_state option" where
  "init_child_dir s parent_ino ino = do {
     let i = ino2inode s ino;
     b1 \<leftarrow> memcpy (replicate sector_size 0) 0 [46, 0] 0 1;
     b2 \<leftarrow> store32 b1 64 ino;
     b3 \<leftarrow> memcpy b2 sizeof_dir_entry [46, 46, 0] 0 2;
     buf \<leftarrow> store32 b3 (sizeof_dir_entry + 64) parent_ino;
     (block_no, s1) \<leftarrow> allocate_block s;
     let lba = data_start (sb_data s1) + block_no;
     let i1 = i\<lparr>sectors := (sectors i)[0 := lba]\<rparr>;
     let s2 = write_disk s1 lba buf;
     let s3 = sync_inode s2 i1;
     sync_block_bitmap s3 }"

text \<open>Removing a name from a sector: the disk, the buffer, whether the name was found and the
  number of empty slots.\<close>

function remove_in_sector ::
    "fs_state \<Rightarrow> u32 \<Rightarrow> u8 list \<Rightarrow> u8 list \<Rightarrow> nat \<Rightarrow> nat \<Rightarrow> bool \<Rightarrow> nat \<Rightarrow> (fs_state \<times> bool \<times> nat) option" where
  "remove_in_sector s lba buf path_del dp j is_found empty_cnts =
     (if j < entries_per_sector then
        (case strcmp buf (sizeof_dir_entry * j) path_del dp of
           None \<Rightarrow> None
         | Some True \<Rightarrow>
             (case store buf (sizeof_dir_entry * j) 0 of
                None \<Rightarrow> None
              | Some buf' \<Rightarrow>
                  remove_in_sector (write_disk s lba buf') lba buf' path_del dp (Suc j) True (Suc empty_cnts))
         | Some False \<Rightarrow>
             (case load buf (sizeof_dir_entry * j) of
                None \<Rightarrow> None
              | Some c \<Rightarrow>
                  remove_in_sector s lba buf path_del dp (Suc j) is_found
                    (if c = 0 then Suc empty_cnts else empty_cnts)))
      else Some (s, is_found, empty_cnts))"
  by pat_completeness auto
termination by (relation "measure (\<lambda>(s, lba, buf, del, dp, j, f, e). entries_per_sector - j)") auto

declare remove_in_sector.simps [simp del]

fun remove_in_sectors :: "fs_state \<Rightarrow> inode \<Rightarrow> nat list \<Rightarrow> u8 list \<Rightarrow> nat \<Rightarrow> bool \<Rightarrow> fs_state option" where
  "remove_in_sectors s i [] path_del dp is_found = Some s"
| "remove_in_sectors s i (k # ks) path_del dp is_found = do {
     lba \<leftarrow> load (sectors i) k;
     (if lba = 0 then remove_in_sectors s i ks path_del dp is_found
      else do {
        (s1, found, empty_cnts) \<leftarrow> remove_in_sector s lba (read_disk s lba) path_del dp 0 is_found 0;
        (if found \<and> empty_cnts = entries_per_sector then do {
           s2 \<leftarrow> free_block s1 (lba - data_start (sb_data s1));
           s3 \<leftarrow> sync_block_bitmap s2;
           Some (sync_inode s3 (i\<lparr>sectors := (sectors i)[k := 0]\<rparr>)) }
         else remove_in_sectors s1 i ks path_del dp found) }) }"

definition remove_dir_entry :: "fs_state \<Rightarrow> inode \<Rightarrow> u8 list \<Rightarrow> nat \<Rightarrow> fs_state option" where
  "remove_dir_entry s i path_del dp = remove_in_sectors s i [0 ..< 9] path_del dp False"

fun slots_empty :: "u8 list \<Rightarrow> nat list \<Rightarrow> bool option" where
  "slots_empty buf [] = Some True"
| "slots_empty buf (j # js) = do {
     c \<leftarrow> load buf (sizeof_dir_entry * j);
     (if c \<noteq> 0 then Some False else slots_empty buf js) }"

definition dir_is_empty :: "fs_state \<Rightarrow> u8 list \<Rightarrow> bool option" where
  "dir_is_empty s path = do {
     ino \<leftarrow> dir_is_exists s path;
     let i = ino2inode s ino;
     lba0 \<leftarrow> load (sectors i) 0;
     e \<leftarrow> slots_empty (read_disk s lba0) [2 ..< entries_per_sector];
     (if \<not> e then Some False else Some (\<forall>lba \<in> set (drop 1 (sectors i)). lba = 0)) }"

section \<open>Directories\<close>

text \<open>The bytes of a new entry: a cleared entry with the name copied in.\<close>

definition new_entry :: "u8 list \<Rightarrow> nat \<Rightarrow> u32 \<Rightarrow> u32 \<Rightarrow> u8 list option" where
  "new_entry path p ty ino = do {
     e1 \<leftarrow> strcpy (replicate sizeof_dir_entry 0) 0 path p;
     e2 \<leftarrow> store32 e1 68 ty;
     store32 e2 64 ino }"

definition type_DIR :: u32 where "type_DIR = 0"
definition type_FILE :: u32 where "type_FILE = 1"

definition sys_mkdir :: "fs_state \<Rightarrow> u64 \<Rightarrow> u8 list \<Rightarrow> fs_state option" where
  "sys_mkdir s now path = do {
     (child_name, parent) \<leftarrow> split_path_2parts path (replicate 64 0);
     parent_ino \<leftarrow> dir_is_exists s parent;
     (if parent_ino = NOT_FOUND then Some s
      else do {
        let i = ino2inode s parent_ino;
        (if \<not> check_inode_permission s i access_WRITE then Some s
         else do {
           (child_inode, s1) \<leftarrow> create_inode s now;
           let s2 = sync_inode s1 child_inode;
           s3 \<leftarrow> sync_inode_bitmap s2;
           p \<leftarrow> child_name;
           child \<leftarrow> new_entry path p type_DIR (inode_no child_inode);
           s4 \<leftarrow> create_dir_entry s3 i child;
           init_child_dir s4 parent_ino (inode_no child_inode) }) }) }"

definition sys_rmdir :: "fs_state \<Rightarrow> u8 list \<Rightarrow> fs_state option" where
  "sys_rmdir s path = do {
     e \<leftarrow> dir_is_empty s path;
     (if \<not> e then Some s
      else do {
        (path_del, parent) \<leftarrow> split_path_2parts path (replicate 64 0);
        parent_ino \<leftarrow> dir_is_exists s parent;
        child_ino \<leftarrow> dir_is_exists s path;
        (if parent_ino = NOT_FOUND then Some s
         else do {
           let inode_parent = ino2inode s parent_ino;
           (if \<not> check_inode_permission s inode_parent access_WRITE then Some s
            else do {
              p \<leftarrow> path_del;
              s1 \<leftarrow> remove_dir_entry s inode_parent path p;
              s2 \<leftarrow> free_inode s1 child_ino;
              sync_inode_bitmap s2 }) }) }) }"

definition cd :: "fs_state \<Rightarrow> u8 list \<Rightarrow> (bool \<times> fs_state) option" where
  "cd s path = do {
     ino \<leftarrow> dir_is_exists s path;
     (if ino = NOT_FOUND then Some (False, s)
      else if \<not> check_inode_permission s (ino2inode s ino) access_EXEC then Some (False, s)
      else do {
        d1 \<leftarrow> memset (cur_dir s) 0 0 64;
        d2 \<leftarrow> strcpy d1 0 path 0;
        Some (True, s\<lparr>cur_dir := d2\<rparr>) }) }"

text \<open>The names \<open>ls\<close> prints.\<close>

fun ls_sectors :: "fs_state \<Rightarrow> u32 list \<Rightarrow> u8 list list" where
  "ls_sectors s [] = []"
| "ls_sectors s (lba # lbas) =
     (if lba = 0 then []
      else map (\<lambda>j. takeWhile (\<lambda>c. c \<noteq> 0) (drop (sizeof_dir_entry * j) (read_disk s lba)))
             (filter (\<lambda>j. read_disk s lba ! (sizeof_dir_entry * j) \<noteq> 0) [0 ..< entries_per_sector]))
     @ ls_sectors s lbas"

definition ls :: "fs_state \<Rightarrow> u8 list option \<Rightarrow> u8 list list option" where
  "ls s path0 = do {
     let path = (case path0 of None \<Rightarrow> cur_dir s | Some p \<Rightarrow> p);
     ino \<leftarrow> dir_is_exists s path;
     (if ino = NOT_FOUND then Some []
      else if \<not> check_inode_permission s (ino2inode s ino) access_READ then Some []
      else Some (ls_sectors s (sectors (ino2inode s ino)))) }"

section \<open>Changing the mode and the owner\<close>

definition sys_chmod :: "fs_state \<Rightarrow> u8 list \<Rightarrow> u8 \<Rightarrow> fs_state option" where
  "sys_chmod s path new_mode = do {
     ino \<leftarrow> dir_is_exists s path;
     (if ino = NOT_FOUND then Some s
      else do {
        let i = ino2inode s ino;
        Some (sync_inode s (if fs_uid s = 0 \<or> fs_uid s = ucast (iuid i) then i\<lparr>imode := ucast new_mode\<rparr> else i)) }) }"

definition sys_chown :: "fs_state \<Rightarrow> u8 list \<Rightarrow> u32 \<Rightarrow> fs_state option" where
  "sys_chown s path new_uid = do {
     ino \<leftarrow> dir_is_exists s path;
     (if ino = NOT_FOUND then Some s
      else do {
        let i = ino2inode s ino;
        Some (sync_inode s (if fs_uid s = 0 \<or> fs_uid s = ucast (iuid i) then i\<lparr>iuid := ucast new_uid\<rparr> else i)) }) }"

section \<open>Path names\<close>

text \<open>The string of an absolute path with the given components, and the components a path may
  have.\<close>

fun path_str :: "u8 list list \<Rightarrow> u8 list" where
  "path_str [] = []"
| "path_str (c # cs) = slash # c @ path_str cs"

definition comp_ok :: "u8 list \<Rightarrow> bool" where
  "comp_ok c \<longleftrightarrow> c \<noteq> [] \<and> slash \<notin> set c \<and> 0 \<notin> set c \<and> length c < 64"

lemma cstr_drop: "cstr path p (xs @ ys) \<longleftrightarrow>
   p + length xs \<le> length path \<and> (\<forall>i < length xs. path ! (p + i) = xs ! i \<and> xs ! i \<noteq> 0)
   \<and> cstr path (p + length xs) ys"
proof (induction xs arbitrary: p)
  case (Cons x xs)
  have "(\<forall>i < Suc (length xs). path ! (p + i) = (x # xs) ! i \<and> (x # xs) ! i \<noteq> 0) \<longleftrightarrow>
      path ! p = x \<and> x \<noteq> 0 \<and> (\<forall>i < length xs. path ! (Suc p + i) = xs ! i \<and> xs ! i \<noteq> 0)"
    by (auto simp: nth_Cons split: nat.splits)
  moreover have "cstr path (p + Suc (length xs)) ys \<Longrightarrow> p < length path" by (auto simp: cstr_def)
  ultimately show ?case using Cons [of "Suc p"] by auto
qed (auto simp: cstr_def)

lemma split_loop_end:
  assumes "cstr path p c" "c \<noteq> []" "slash \<notin> set c" "k + length c \<le> length cur"
  shows "split_loop path p cur k = Some (None, put cur k c)"
  using assms
proof (induction c arbitrary: p cur k)
  case (Cons x c)
  then have x: "load path p = Some x" "x \<noteq> slash" "k < length cur" by (auto simp: load_def)
  show ?case
  proof (cases c)
    case Nil
    then show ?thesis
      using Cons.prems x by (simp add: split_loop.simps [of path p] mem_simps put_def)
        (simp add: upd_conv_take_nth_drop)
  next
    case (Cons y c')
    then have "load path (Suc p) = Some y" "y \<noteq> 0" using Cons.prems(1) by (auto simp: load_def)
    then have "split_loop path p cur k = split_loop path (Suc p) (cur[k := x]) (Suc k)"
      using x by (simp add: split_loop.simps [of path p] mem_simps)
    also have "\<dots> = Some (None, put (cur[k := x]) (Suc k) c)"
      using Cons.prems Cons by (intro Cons.IH) auto
    finally show ?thesis using x(3) put_Cons by simp
  qed
qed simp

lemma split_loop_slash:
  assumes "cstr path p (c @ slash # r)" "c \<noteq> []" "slash \<notin> set c" "k + length c < length cur"
  shows "split_loop path p cur k = Some (Some (p + length c + 1), put cur k (c @ [0]))"
  using assms
proof (induction c arbitrary: p cur k)
  case (Cons x c)
  then have x: "load path p = Some x" "x \<noteq> slash" "k < length cur" by (auto simp: load_def)
  show ?case
  proof (cases c)
    case Nil
    then have n: "load path (Suc p) = Some slash" using Cons.prems(1) by (auto simp: load_def)
    have "Suc k < length cur" using Cons.prems(4) Nil by simp
    then have "split_loop path (Suc p) (cur[k := x]) (Suc k) = Some (Some (Suc (Suc p)), cur[k := x, Suc k := 0])"
      using n by (simp add: split_loop.simps [of path "Suc p"] mem_simps)
    moreover have "cur[k := x, Suc k := 0] = put cur k [x, 0]"
      using \<open>Suc k < length cur\<close> put_Cons [of k cur x "[0]"] by (simp add: put_def upd_conv_take_nth_drop)
    ultimately show ?thesis
      using Nil x n by (simp add: split_loop.simps [of path p] mem_simps)
  next
    case (Cons y c')
    then have "load path (Suc p) = Some y" "y \<noteq> 0" using Cons.prems(1) by (auto simp: load_def)
    then have "split_loop path p cur k = split_loop path (Suc p) (cur[k := x]) (Suc k)"
      using x by (simp add: split_loop.simps [of path p] mem_simps)
    also have "\<dots> = Some (Some (Suc p + length c + 1), put (cur[k := x]) (Suc k) (c @ [0]))"
      using Cons.prems Cons by (intro Cons.IH) auto
    finally show ?thesis using x(3) put_Cons by simp
  qed
qed simp

lemma cstr_padded:
  assumes "length c < 64" "0 \<notin> set c"
  shows "cstr (put (replicate 64 0) 0 c) 0 c" "cstr (put (replicate 64 0) 0 (c @ [0])) 0 c"
proof -
  show "cstr (put (replicate 64 0) 0 c) 0 c" using assms by (intro cstr_put) auto
  have "put (replicate 64 0) 0 (c @ [0]) = put (replicate 64 0) 0 c"
    using assms(1) by (intro nth_equalityI) (auto simp: nth_put nth_append)
  then show "cstr (put (replicate 64 0) 0 (c @ [0])) 0 c"
    using \<open>cstr (put (replicate 64 0) 0 c) 0 c\<close> by simp
qed

text \<open>One component is split off.\<close>

lemma split_path_comp:
  assumes "cstr path p (c @ path_str cs)" "comp_ok c"
  shows "\<exists>cur. split_path path p (replicate 64 0) = Some (if cs = [] then None else Some (p + length c + 1), cur)
    \<and> cstr cur 0 c"
proof -
  have c: "c \<noteq> []" "slash \<notin> set c" "0 \<notin> set c" "length c < 64" using assms(2) by (auto simp: comp_ok_def)
  then have h: "load path p = Some (hd c)" "hd c \<noteq> slash" "hd c \<noteq> 0"
    using assms(1) by (cases c; auto simp: load_def)+
  have sp: "split_path path p (replicate 64 0) = split_loop path p (replicate 64 0) 0"
    using h by (simp add: split_path_def)
  show ?thesis
  proof (cases cs)
    case Nil
    then show ?thesis
      using split_loop_end [of path p c 0 "replicate 64 0"] assms(1) c sp cstr_padded [OF c(4,3)] by auto
  next
    case (Cons d ds)
    then show ?thesis
      using split_loop_slash [of path p c "d @ path_str ds" 0 "replicate 64 0"] assms(1) c sp cstr_padded [OF c(4,3)]
      by auto
  qed
qed

section \<open>A directory as a table of names\<close>

definition ename :: "u8 list \<Rightarrow> nat \<Rightarrow> u8 list" where
  "ename buf j = takeWhile (\<lambda>c. c \<noteq> 0) (drop (sizeof_dir_entry * j) buf)"

definition eino :: "u8 list \<Rightarrow> nat \<Rightarrow> u32" where
  "eino buf j = dec32 (drop (sizeof_dir_entry * j + 64) buf)"

definition sector_wf :: "u8 list \<Rightarrow> bool" where
  "sector_wf buf \<longleftrightarrow> length buf = sector_size
     \<and> (\<forall>j < entries_per_sector. \<exists>k < 64. buf ! (sizeof_dir_entry * j + k) = 0)"

definition dir_wf :: "fs_state \<Rightarrow> inode \<Rightarrow> bool" where
  "dir_wf s i \<longleftrightarrow> (\<forall>lba \<in> set (sectors i). lba \<noteq> 0 \<longrightarrow> sector_wf (fdisk s lba))"

definition dir_slots :: "u32 list \<Rightarrow> (u32 \<times> nat) list" where
  "dir_slots lbas = concat (map (\<lambda>lba. if lba = 0 then [] else map (Pair lba) [0 ..< entries_per_sector]) lbas)"

definition slot_name :: "fs_state \<Rightarrow> u32 \<times> nat \<Rightarrow> u8 list" where
  "slot_name s x = ename (fdisk s (fst x)) (snd x)"

definition slot_ino :: "fs_state \<Rightarrow> u32 \<times> nat \<Rightarrow> u32" where
  "slot_ino s x = eino (fdisk s (fst x)) (snd x)"

definition lookup_slots :: "fs_state \<Rightarrow> (u32 \<times> nat) list \<Rightarrow> u8 list \<Rightarrow> u32" where
  "lookup_slots s xs nm = (case find (\<lambda>x. slot_name s x = nm) xs of None \<Rightarrow> NOT_FOUND | Some x \<Rightarrow> slot_ino s x)"

definition dir_lookup :: "fs_state \<Rightarrow> inode \<Rightarrow> u8 list \<Rightarrow> u32" where
  "dir_lookup s i nm = (if nm = [] then NOT_FOUND else lookup_slots s (dir_slots (sectors i)) nm)"

lemma takeWhile_cstr:
  assumes "p + k < length buf" "buf ! (p + k) = 0"
  shows "cstr buf p (takeWhile (\<lambda>c. c \<noteq> 0) (drop p buf))"
    "length (takeWhile (\<lambda>c. c \<noteq> 0) (drop p buf)) \<le> k"
proof -
  let ?t = "takeWhile (\<lambda>c. c \<noteq> 0) (drop p buf)"
  show l: "length ?t \<le> k"
  proof (rule ccontr)
    assume "\<not> length ?t \<le> k"
    then have "?t ! k \<noteq> 0" using set_takeWhileD [of "?t ! k" "\<lambda>c. c \<noteq> 0" "drop p buf"] nth_mem [of k ?t] by auto
    then show False using assms takeWhile_nth [of k "\<lambda>c. c \<noteq> 0" "drop p buf"] \<open>\<not> length ?t \<le> k\<close> by simp
  qed
  have len: "length ?t < length (drop p buf)" using l assms(1) by simp
  have "drop p buf ! length ?t = 0" using nth_length_takeWhile [OF len] by simp
  moreover have "buf ! (p + i) = ?t ! i" if "i < length ?t" for i
    using that takeWhile_nth [OF that] len by simp
  moreover have "0 \<notin> set ?t" using set_takeWhileD by fastforce
  ultimately show "cstr buf p ?t" using len by (simp add: cstr_def)
qed

lemma ename_cstr:
  assumes "sector_wf buf" "j < entries_per_sector"
  shows "cstr buf (sizeof_dir_entry * j) (ename buf j)" "length (ename buf j) < 64"
    "buf ! (sizeof_dir_entry * j) = 0 \<longleftrightarrow> ename buf j = []" "sizeof_dir_entry * j < length buf"
proof -
  obtain k where k: "k < 64" "buf ! (sizeof_dir_entry * j + k) = 0" using assms by (auto simp: sector_wf_def)
  have b: "sizeof_dir_entry * j + k < length buf" using assms k(1) by (simp add: sector_wf_def)
  show c: "cstr buf (sizeof_dir_entry * j) (ename buf j)"
    unfolding ename_def by (rule takeWhile_cstr [OF b k(2)])
  show "length (ename buf j) < 64" unfolding ename_def using takeWhile_cstr(2) [OF b k(2)] k(1) by linarith
  show "buf ! (sizeof_dir_entry * j) = 0 \<longleftrightarrow> ename buf j = []"
    using c by (cases "ename buf j") auto
  show "sizeof_dir_entry * j < length buf" using b by simp
qed

lemma find_in_sector_ok:
  assumes wf: "sector_wf buf" and nm: "cstr child cp nm" "nm \<noteq> []"
  shows "find_in_sector buf child cp j
    = Some (map_option (eino buf) (find (\<lambda>j. ename buf j = nm) [j ..< entries_per_sector]))"
proof (induction "entries_per_sector - j" arbitrary: j)
  case 0
  then show ?case by (simp add: find_in_sector.simps [of buf])
next
  case (Suc n)
  then have j: "j < entries_per_sector" by simp
  have up: "[j ..< entries_per_sector] = j # [Suc j ..< entries_per_sector]" using j by (simp add: upt_conv_Cons)
  note e = ename_cstr [OF wf j]
  have cmp: "strcmp buf (sizeof_dir_entry * j) child cp = Some (ename buf j = nm)"
    using strcmp_cstr [OF e(1) nm(1)] .
  have l32: "load32 buf (sizeof_dir_entry * j + 64) = Some (eino buf j)"
    using wf j by (simp add: load32_def eino_def sector_wf_def)
  have IH: "find_in_sector buf child cp (Suc j)
      = Some (map_option (eino buf) (find (\<lambda>j. ename buf j = nm) [Suc j ..< entries_per_sector]))"
    using Suc by (intro Suc.hyps(1)) simp
  show ?case
    using j e(3,4) cmp l32 nm(2) IH unfolding find_in_sector.simps [of buf child cp j] up
    by (cases "ename buf j = nm") (auto simp: mem_simps)
qed

lemma find_append: "find P (xs @ ys) = (case find P xs of None \<Rightarrow> find P ys | Some x \<Rightarrow> Some x)"
  by (induction xs) auto

lemma find_Pair: "find (\<lambda>x. P x) (map (Pair a) js) = map_option (Pair a) (find (\<lambda>j. P (a, j)) js)"
  by (induction js) auto

lemma find_in_sectors_ok:
  assumes "\<forall>lba \<in> set lbas. lba \<noteq> 0 \<longrightarrow> sector_wf (fdisk s lba)" and nm: "cstr child cp nm" "nm \<noteq> []"
  shows "find_in_sectors s lbas child cp = Some (lookup_slots s (dir_slots lbas) nm)"
  using assms(1)
proof (induction lbas)
  case Nil
  then show ?case by (simp add: lookup_slots_def dir_slots_def)
next
  case (Cons lba lbas)
  have IH: "find_in_sectors s lbas child cp = Some (lookup_slots s (dir_slots lbas) nm)"
    using Cons by (intro Cons.IH) simp
  show ?case
  proof (cases "lba = 0")
    case True
    then show ?thesis using IH by (simp add: dir_slots_def)
  next
    case False
    have f: "find_in_sector (fdisk s lba) child cp 0
        = Some (map_option (eino (fdisk s lba)) (find (\<lambda>j. ename (fdisk s lba) j = nm) [0 ..< entries_per_sector]))"
      using Cons.prems False by (intro find_in_sector_ok nm) simp
    have sl: "dir_slots (lba # lbas) = map (Pair lba) [0 ..< entries_per_sector] @ dir_slots lbas"
      using False by (simp add: dir_slots_def del: upt_Suc)
    show ?thesis
      using False f IH unfolding sl lookup_slots_def find_append find_Pair
      by (auto simp: read_disk_def slot_name_def slot_ino_def split: option.splits)
  qed
qed

lemma find_dir_entry_ok:
  assumes "dir_wf s i" "cstr child cp nm" "nm \<noteq> []"
  shows "find_dir_entry s i child cp = Some (dir_lookup s i nm)"
  using find_in_sectors_ok [OF _ assms(2,3)] assms(1,3) by (simp add: find_dir_entry_def dir_wf_def dir_lookup_def)

text \<open>Resolving the components of a path from an inode.\<close>

fun resolve :: "fs_state \<Rightarrow> u32 \<Rightarrow> u8 list list \<Rightarrow> u32" where
  "resolve s ino [] = ino"
| "resolve s ino (c # cs) =
     (let ino' = dir_lookup s (ino2inode s ino) c in if ino' = NOT_FOUND then NOT_FOUND else resolve s ino' cs)"

fun dirs_wf :: "fs_state \<Rightarrow> u32 \<Rightarrow> u8 list list \<Rightarrow> bool" where
  "dirs_wf s ino [] \<longleftrightarrow> True"
| "dirs_wf s ino (c # cs) \<longleftrightarrow> dir_wf s (ino2inode s ino) \<and> dirs_wf s (dir_lookup s (ino2inode s ino) c) cs"

lemma walk_path_ok:
  assumes "cstr path p (c @ path_str cs)" "\<forall>d \<in> set (c # cs). comp_ok d" "dirs_wf s ino (c # cs)"
  shows "walk_path s path p ino = Some (resolve s ino (c # cs))"
  using assms
proof (induction cs arbitrary: p c ino)
  case Nil
  obtain cur where cur: "split_path path p (replicate 64 0) = Some (None, cur)" "cstr cur 0 c"
    using split_path_comp [of path p c "[]"] Nil by auto
  have c: "comp_ok c" using Nil by simp
  have "cstr [slash, 0] 0 [slash]" by simp
  then have cmp: "strcmp [slash, 0] 0 cur 0 = Some False"
    using strcmp_cstr [OF _ cur(2), of "[slash, 0]" 0 "[slash]"] c by (auto simp: comp_ok_def)
  have fd: "find_dir_entry s (ino2inode s ino) cur 0 = Some (dir_lookup s (ino2inode s ino) c)"
    using Nil c cur(2) by (intro find_dir_entry_ok) (auto simp: comp_ok_def)
  show ?case using cur(1) cmp fd by (simp add: walk_path.simps [of s path] Let_def)
next
  case (Cons d ds)
  obtain cur where cur: "split_path path p (replicate 64 0) = Some (Some (p + length c + 1), cur)" "cstr cur 0 c"
    using split_path_comp [of path p c "d # ds"] Cons.prems by auto
  have c: "comp_ok c" using Cons.prems by simp
  have "cstr [slash, 0] 0 [slash]" by simp
  then have cmp: "strcmp [slash, 0] 0 cur 0 = Some False"
    using strcmp_cstr [OF _ cur(2), of "[slash, 0]" 0 "[slash]"] c by (auto simp: comp_ok_def)
  let ?i = "dir_lookup s (ino2inode s ino) c"
  have fd: "find_dir_entry s (ino2inode s ino) cur 0 = Some ?i"
    using Cons.prems c cur(2) by (intro find_dir_entry_ok) (auto simp: comp_ok_def)
  have "cstr path (p + length c) (slash # d @ path_str ds)"
    using Cons.prems(1) unfolding cstr_drop by simp
  then have "cstr path (p + length c + 1) (d @ path_str ds)" by simp
  then have "walk_path s path (p + length c + 1) ?i = Some (resolve s ?i (d # ds))"
    using Cons.prems by (intro Cons.IH) auto
  then show ?case using cur(1) cmp fd by (simp add: walk_path.simps [of s path p] Let_def)
qed

lemma dir_is_exists_ok:
  assumes "cstr path 0 (path_str comps)" "comps \<noteq> []" "\<forall>d \<in> set comps. comp_ok d"
    "dirs_wf s (root_inode_no (sb_data s)) comps"
  shows "dir_is_exists s path = Some (resolve s (root_inode_no (sb_data s)) comps)"
proof -
  obtain c cs where cs: "comps = c # cs" using assms(2) by (cases comps) auto
  let ?r = "root_inode_no (sb_data s)"
  have p1: "cstr path 1 (c @ path_str cs)" and l0: "load path 0 = Some slash"
    using assms(1) by (auto simp: cs load_def)
  have l1: "load path 1 = Some (hd c)" "hd c \<noteq> 0"
    using p1 assms(3) by (cases c; auto simp: cs load_def comp_ok_def)+
  have sp: "split_path path 0 (replicate 64 0) = Some (Some 1, (replicate 64 0)[0 := slash, 1 := 0])"
    using l0 by (simp add: split_path_def mem_simps)
  have "cstr ((replicate 64 0)[0 := slash, 1 := 0]) 0 [slash]" by (simp add: nth_list_update)
  moreover have "cstr [slash, 0] 0 [slash]" by simp
  ultimately have cmp: "strcmp [slash, 0] 0 ((replicate 64 0)[0 := slash, 1 := 0]) 0 = Some True"
    using strcmp_cstr [of "[slash, 0]" 0 "[slash]" "(replicate 64 0)[0 := slash, 1 := 0]" 0 "[slash]"] by simp
  have "walk_path s path 0 ?r = walk_path s path 1 ?r"
    using sp cmp by (simp add: walk_path.simps [of s path 0])
  then show ?thesis
    using walk_path_ok [OF p1, of s ?r] assms(3,4) l0 l1 by (simp add: dir_is_exists_def cs)
qed

section \<open>Splitting a path\<close>

lemma count_slashes_cstr: "cstr path p str \<Longrightarrow> count_slashes (drop p path) = Some (count_list str slash)"
proof (induction str arbitrary: p)
  case Nil
  then have "drop p path = 0 # drop (Suc p) path" by (simp add: Cons_nth_drop_Suc [symmetric])
  then show ?case by simp
next
  case (Cons c str)
  then have "drop p path = c # drop (Suc p) path" by (auto simp: Cons_nth_drop_Suc [symmetric])
  then show ?case using Cons by auto
qed

lemma copy_parent_ok:
  assumes "p + length xs \<le> length path" "\<forall>i < length xs. path ! (p + i) = xs ! i" "p + length xs \<le> length parent"
    "i + count_list xs slash = l - 1" "xs = [] \<or> last xs = slash"
  shows "copy_parent path p parent i l = Some (p + length xs, put parent p xs)"
  using assms
proof (induction xs arbitrary: p parent i)
  case Nil
  then show ?case by (simp add: copy_parent.simps)
next
  case (Cons x xs)
  have "count_list (x # xs) slash \<noteq> 0" using Cons.prems(5) last_in_set [of "x # xs"] by (metis count_list_0_iff list.distinct(1))
  then have lt: "i < l - 1" using Cons.prems(4) by simp
  have x: "load path p = Some x" "p < length parent" using Cons.prems by (auto simp: load_def)
  have "copy_parent path p parent i l = copy_parent path (Suc p) (parent[p := x]) (if x = slash then Suc i else i) l"
    using lt x by (simp add: copy_parent.simps [of path p] mem_simps)
  also have "\<dots> = Some (Suc p + length xs, put (parent[p := x]) (Suc p) xs)"
    using Cons.prems by (intro Cons.IH) (auto split: if_splits)
  finally show ?case using put_Cons [OF x(2)] by simp
qed

lemma count_path_str: "\<forall>c \<in> set cs. slash \<notin> set c \<Longrightarrow> count_list (path_str cs) slash = length cs"
  by (induction cs) (auto simp: count_list_0_iff)

lemma path_str_append: "path_str (as @ bs) = path_str as @ path_str bs"
  by (induction as) auto

lemma path_str_last: "as \<noteq> [] \<Longrightarrow> \<forall>c \<in> set as. comp_ok c \<Longrightarrow> last (path_str as) \<noteq> slash \<and> path_str as \<noteq> []"
proof (induction as rule: rev_induct)
  case (snoc c as)
  then have "c \<noteq> []" "slash \<notin> set c" by (auto simp: comp_ok_def)
  then have "last c \<noteq> slash" using last_in_set [of c] by metis
  then show ?case using \<open>c \<noteq> []\<close> by (simp add: path_str_append)
qed simp

lemma split_path_2parts_ok:
  assumes path: "cstr path 0 (path_str (as @ [c]))" and ok: "\<forall>d \<in> set (as @ [c]). comp_ok d"
    and len: "length (path_str as) < 64"
  shows "\<exists>parent. split_path_2parts path (replicate 64 0) = Some (Some (length (path_str as) + 1), parent)
    \<and> cstr parent 0 (if as = [] then [slash] else path_str as) \<and> cstr path (length (path_str as) + 1) c"
proof -
  let ?pre = "path_str as @ [slash]" and ?z = "replicate 64 (0 :: u8)"
  have str: "path_str (as @ [c]) = ?pre @ c" by (simp add: path_str_append)
  have ns: "\<forall>d \<in> set (as @ [c]). slash \<notin> set d" and cok: "comp_ok c" using ok by (auto simp: comp_ok_def)
  have pc: "cstr path (length (path_str as) + 1) c"
    and pp: "length ?pre \<le> length path" "\<forall>i < length ?pre. path ! i = ?pre ! i" "\<forall>i < length ?pre. ?pre ! i \<noteq> 0"
    using path unfolding str cstr_drop by auto
  have l0: "load path 0 = Some slash" using path by (cases as) (auto simp: load_def)
  have cnt: "count_slashes path = Some (length (as @ [c]))"
    using count_slashes_cstr [OF path] count_path_str [OF ns] by simp
  have "count_list ?pre slash = length as + 1"
    using count_path_str [of "as @ [c]"] ns count_list_0_iff [of c slash] unfolding str by simp
  then have cp: "copy_parent path 0 ?z 0 (1 + length (as @ [c])) = Some (length ?pre, put ?z 0 ?pre)"
    using copy_parent_ok [of 0 ?pre path ?z 0 "1 + length (as @ [c])"] pp len by simp
  show ?thesis
  proof (cases "as = []")
    case True
    have pz: "put ?z 0 ?pre = slash # replicate 63 0" using True by (simp add: put_def eval_nat_numeral)
    then have "load (put ?z 0 ?pre) 1 = Some 0" "cstr (put ?z 0 ?pre) 0 [slash]" by (simp_all add: load_def)
    then show ?thesis
      using True l0 cnt cp pc by (intro exI [of _ "put ?z 0 ?pre"]) (simp add: split_path_2parts_def del: cstr_Cons)
  next
    case False
    have lp: "last (path_str as) \<noteq> slash" "path_str as \<noteq> []" using path_str_last [OF False] ok by auto
    have z0: "0 \<notin> set (path_str as)"
    proof
      assume "0 \<in> set (path_str as)"
      then obtain i where "i < length (path_str as)" "path_str as ! i = 0" by (auto simp: in_set_conv_nth)
      then show False using pp(3) by (auto simp: nth_append dest: spec [of _ i])
    qed
    have len2: "2 \<le> length (path_str as)" using False ok by (cases as; cases "hd as") (auto simp: comp_ok_def)
    have one: "load (put ?z 0 ?pre) 1 = Some (path_str as ! 1)" "path_str as ! 1 \<noteq> 0"
      using len len2 z0 nth_mem [of 1 "path_str as"] by (auto simp: load_def nth_put nth_append simp del: nth_mem)
    have st: "store (put ?z 0 ?pre) (length ?pre - 1) 0 = Some (put ?z 0 (path_str as))"
    proof -
      have "(put ?z 0 ?pre)[length (path_str as) := 0] = put ?z 0 (path_str as)"
        using len by (intro nth_equalityI) (auto simp: nth_put nth_append nth_list_update)
      then show ?thesis using len by (simp add: mem_simps)
    qed
    have cs: "cstr (put ?z 0 (path_str as)) 0 (path_str as)" using len z0 by (intro cstr_put) auto
    have "put ?z 0 (path_str as) ! (length (path_str as) - 1) = last (path_str as)"
      using len len2 lp(2) by (simp add: nth_put last_conv_nth)
    then have sk: "skip_last_slash (put ?z 0 (path_str as)) = Some (put ?z 0 (path_str as))"
      using strlen_cstr [OF cs] lp len by (simp add: skip_last_slash_def load_def)
    show ?thesis using False l0 cnt cp one st sk cs pc by (simp add: split_path_2parts_def)
  qed
qed

section \<open>Creating an entry\<close>

text \<open>The first free slot of a directory, as the code finds it.\<close>

definition free_slot :: "fs_state \<Rightarrow> (u32 \<times> nat) list \<Rightarrow> u32 \<times> nat \<Rightarrow> u32 \<times> nat" where
  "free_slot s xs d = (if fst d = 0 \<and> snd d = 0
     then (case find (\<lambda>x. slot_name s x = []) xs of None \<Rightarrow> (0, 0) | Some x \<Rightarrow> x) else d)"

lemma free_slot_append:
  "(\<And>x. x \<in> set xs \<Longrightarrow> fst x \<noteq> 0) \<Longrightarrow> free_slot s (xs @ ys) d = free_slot s ys (free_slot s xs d)"
proof (cases "d = (0, 0)")
  assume nz: "\<And>x. x \<in> set xs \<Longrightarrow> fst x \<noteq> 0"
  case True
  then show ?thesis
  proof (cases "find (\<lambda>x. slot_name s x = []) xs")
    case (Some x)
    then have "fst x \<noteq> 0" using nz by (metis find_Some_iff nth_mem)
    then show ?thesis using True Some by (simp add: free_slot_def find_append)
  qed (simp add: free_slot_def find_append)
next
  case False
  then show ?thesis by (cases d) (auto simp: free_slot_def)
qed

lemma scan_sector_ok:
  assumes wf: "sector_wf (fdisk s lba)" and l0: "lba \<noteq> 0" and nm: "cstr child 0 nm" "nm \<noteq> []"
    and new: "\<forall>k < entries_per_sector. ename (fdisk s lba) k \<noteq> nm"
  shows "scan_sector (fdisk s lba) lba child j (fst d) (snd d)
    = Some (Some (free_slot s (map (Pair lba) [j ..< entries_per_sector]) d))"
proof (induction "entries_per_sector - j" arbitrary: j d)
  case 0
  then show ?case by (cases d) (simp add: scan_sector.simps [of _ lba] free_slot_def)
next
  case (Suc n)
  then have j: "j < entries_per_sector" by simp
  have up: "[j ..< entries_per_sector] = j # [Suc j ..< entries_per_sector]" using j by (simp add: upt_conv_Cons)
  note e = ename_cstr [OF wf j]
  have cmp: "strcmp (fdisk s lba) (sizeof_dir_entry * j) child 0 = Some False"
    using strcmp_cstr [OF e(1) nm(1)] new j by simp
  have IH: "scan_sector (fdisk s lba) lba child (Suc j) (fst d') (snd d')
      = Some (Some (free_slot s (map (Pair lba) [Suc j ..< entries_per_sector]) d'))" for d'
    using Suc by (intro Suc.hyps(1)) simp
  show ?case
  proof (cases "ename (fdisk s lba) j = [] \<and> fst d = 0 \<and> snd d = 0")
    case True
    then show ?thesis
      using j e(3,4) IH [of "(lba, j)"] l0 unfolding scan_sector.simps [of _ lba child j] up
      by (simp add: mem_simps free_slot_def slot_name_def)
  next
    case False
    then have "free_slot s (map (Pair lba) (j # [Suc j ..< entries_per_sector])) d
        = free_slot s (map (Pair lba) [Suc j ..< entries_per_sector]) d"
      by (auto simp: free_slot_def slot_name_def)
    then show ?thesis
      using False j e(3,4) cmp IH [of d] unfolding scan_sector.simps [of _ lba child j] up
      by (auto simp: mem_simps)
  qed
qed

lemma scan_dir_ok:
  assumes "\<forall>lba \<in> set lbas. lba \<noteq> 0 \<longrightarrow> sector_wf (fdisk s lba)" and nm: "cstr child 0 nm" "nm \<noteq> []"
    and new: "\<forall>x \<in> set (dir_slots lbas). slot_name s x \<noteq> nm"
  shows "scan_dir s lbas child (fst d) (snd d) = Some (Some (free_slot s (dir_slots lbas) d))"
  using assms(1) new
proof (induction lbas arbitrary: d)
  case Nil
  then show ?case by (cases d) (simp add: free_slot_def dir_slots_def)
next
  case (Cons lba lbas)
  show ?case
  proof (cases "lba = 0")
    case True
    then show ?thesis using Cons by (simp add: dir_slots_def)
  next
    case False
    have sl: "dir_slots (lba # lbas) = map (Pair lba) [0 ..< entries_per_sector] @ dir_slots lbas"
      using False by (simp add: dir_slots_def del: upt_Suc)
    have "(lba, k) \<in> set (dir_slots (lba # lbas))" if "k < entries_per_sector" for k
      using that unfolding sl by (auto simp del: upt_Suc)
    then have "\<forall>k < entries_per_sector. ename (fdisk s lba) k \<noteq> nm"
      using Cons.prems(2) unfolding slot_name_def by (metis fst_conv snd_conv)
    then have sc: "scan_sector (fdisk s lba) lba child 0 (fst d) (snd d)
        = Some (Some (free_slot s (map (Pair lba) [0 ..< entries_per_sector]) d))"
      using Cons.prems(1) False nm by (intro scan_sector_ok [where nm = nm]) auto
    have IH: "scan_dir s lbas child (fst d') (snd d') = Some (Some (free_slot s (dir_slots lbas) d'))" for d'
      using Cons.prems unfolding sl by (intro Cons.IH) auto
    obtain a b where ab: "free_slot s (map (Pair lba) [0 ..< entries_per_sector]) d = (a, b)" by (rule prod.exhaust)
    have "free_slot s (map (Pair lba) [0 ..< entries_per_sector] @ dir_slots lbas) d = free_slot s (dir_slots lbas) (a, b)"
      unfolding ab [symmetric] by (rule free_slot_append) (use False in auto)
    then show ?thesis
      using False sc IH [of "(a, b)"] unfolding sl ab by (simp add: read_disk_def del: upt_Suc)
  qed
qed

text \<open>Writing an entry into a slot, or clearing its name, changes this slot only.\<close>

lemma takeWhile_of_cstr: "cstr buf p nm \<Longrightarrow> takeWhile (\<lambda>c. c \<noteq> 0) (drop p buf) = nm"
proof (induction nm arbitrary: p)
  case Nil
  then show ?case by (simp add: Cons_nth_drop_Suc [symmetric])
next
  case (Cons c nm)
  then have "drop p buf = c # drop (Suc p) buf" by (auto simp: Cons_nth_drop_Suc [symmetric])
  then show ?case using Cons by auto
qed

lemma ename_eqI: "cstr buf (sizeof_dir_entry * j) nm \<Longrightarrow> ename buf j = nm"
  by (simp add: ename_def takeWhile_of_cstr)

lemma slot_kept:
  assumes wf: "sector_wf buf" and l: "length buf' = sector_size" and j: "j < entries_per_sector"
    and eq: "\<And>k. k < 68 \<Longrightarrow> buf' ! (sizeof_dir_entry * j + k) = buf ! (sizeof_dir_entry * j + k)"
  shows "ename buf' j = ename buf j" "eino buf' j = eino buf j"
proof -
  note e = ename_cstr [OF wf j]
  have "cstr buf' (sizeof_dir_entry * j) (ename buf j)"
    using e(1,2) eq l j by (auto simp: cstr_def)
  then show "ename buf' j = ename buf j" by (rule ename_eqI)
  have "dec32 (drop p xs) = dec32 (map (\<lambda>k. xs ! (p + k)) [0 ..< 4])" if "p + 4 \<le> length xs" for p and xs :: "u8 list"
    using that by (simp add: dec32_def eval_nat_numeral)
  moreover have "sizeof_dir_entry * j + 64 + 4 \<le> length buf" "length buf = sector_size" using wf j by (auto simp: sector_wf_def)
  moreover have "map (\<lambda>k. buf' ! (sizeof_dir_entry * j + 64 + k)) [0 ..< 4]
      = map (\<lambda>k. buf ! (sizeof_dir_entry * j + 64 + k)) [0 ..< 4]"
  proof (rule map_cong [OF refl])
    fix k
    assume "k \<in> set [0 ..< 4]"
    then show "buf' ! (sizeof_dir_entry * j + 64 + k) = buf ! (sizeof_dir_entry * j + 64 + k)"
      using eq [of "64 + k"] by (simp add: add.assoc)
  qed
  ultimately show "eino buf' j = eino buf j" using l by (simp add: eino_def del: map_eq_conv)
qed

lemma sector_wfI:
  "length buf = sector_size \<Longrightarrow>
   (\<And>j. j < entries_per_sector \<Longrightarrow> \<exists>nm. length nm < 64 \<and> cstr buf (sizeof_dir_entry * j) nm) \<Longrightarrow> sector_wf buf"
  unfolding sector_wf_def cstr_def by metis

text \<open>Two slots do not overlap.\<close>

lemma slots_disjoint: "j \<noteq> k \<Longrightarrow> n < sizeof_dir_entry \<Longrightarrow>
   sizeof_dir_entry * k + n < sizeof_dir_entry * j \<or> sizeof_dir_entry * j + sizeof_dir_entry \<le> sizeof_dir_entry * k + n"
  for j k n :: nat
proof -
  assume "j \<noteq> k" "n < sizeof_dir_entry"
  then consider "k + 1 \<le> j" | "j + 1 \<le> k" by linarith
  then show ?thesis using \<open>n < sizeof_dir_entry\<close> by cases linarith+
qed

lemma write_slot:
  assumes wf: "sector_wf buf" and j: "j < entries_per_sector" and e: "length e = sizeof_dir_entry"
    and nm: "cstr e 0 nm" "length nm < 64"
  shows "sector_wf (put buf (sizeof_dir_entry * j) e)"
    "k < entries_per_sector \<Longrightarrow> ename (put buf (sizeof_dir_entry * j) e) k = (if k = j then nm else ename buf k)"
    "k < entries_per_sector \<Longrightarrow> eino (put buf (sizeof_dir_entry * j) e) k = (if k = j then dec32 (drop 64 e) else eino buf k)"
proof -
  let ?b = "put buf (sizeof_dir_entry * j) e"
  have lb: "length buf = sector_size" using wf by (simp add: sector_wf_def)
  have fit: "sizeof_dir_entry * j + length e \<le> length buf" using lb j e by simp
  then have l: "length ?b = sector_size" using lb by simp
  have same: "?b ! (sizeof_dir_entry * k + n) = buf ! (sizeof_dir_entry * k + n)"
    if "k \<noteq> j" "k < entries_per_sector" "n < 68" for k n
    using slots_disjoint [of j k n] that e lb by (subst nth_put [OF fit]) auto
  have here: "cstr ?b (sizeof_dir_entry * j) nm"
    using nm fit e by (auto simp: cstr_def nth_put)
  have others: "ename ?b k = ename buf k" "eino ?b k = eino buf k" if "k \<noteq> j" "k < entries_per_sector" for k
    using slot_kept [OF wf l that(2)] same [OF that] by auto
  have at_j: "ename ?b j = nm" "eino ?b j = dec32 (drop 64 e)"
  proof -
    show "ename ?b j = nm" by (rule ename_eqI [OF here])
    have "drop (sizeof_dir_entry * j + 64) ?b = drop 64 e @ drop (sizeof_dir_entry * j + length e) buf"
      using fit e by (simp add: drop_put drop_drop [symmetric] add.commute del: drop_drop)
    then show "eino ?b j = dec32 (drop 64 e)" using e by (simp add: eino_def dec32_def nth_append)
  qed
  show "sector_wf ?b"
  proof (rule sector_wfI [OF l])
    fix k
    assume k: "k < entries_per_sector"
    show "\<exists>nm. length nm < 64 \<and> cstr ?b (sizeof_dir_entry * k) nm"
    proof (cases "k = j")
      case True
      then show ?thesis using here nm(2) by blast
    next
      case False
      note e' = ename_cstr [OF wf k]
      have "cstr ?b (sizeof_dir_entry * k) (ename buf k)"
        using e'(1,2) same [OF False k] l k by (auto simp: cstr_def)
      then show ?thesis using e'(2) by blast
    qed
  qed
  show "k < entries_per_sector \<Longrightarrow> ename ?b k = (if k = j then nm else ename buf k)"
    "k < entries_per_sector \<Longrightarrow> eino ?b k = (if k = j then dec32 (drop 64 e) else eino buf k)"
    using others at_j by auto
qed

lemma find_only: "x \<in> set xs \<Longrightarrow> (\<And>y. y \<in> set xs \<Longrightarrow> P y \<longleftrightarrow> y = x) \<Longrightarrow> find P xs = Some x"
  by (induction xs) auto

lemma find_pred_cong: "(\<And>y. y \<in> set xs \<Longrightarrow> P y = Q y) \<Longrightarrow> find P xs = find Q xs"
  by (induction xs) auto

lemma find_mem: "find P xs = Some x \<Longrightarrow> x \<in> set xs \<and> P x"
  by (induction xs) (auto split: if_splits)

lemma dir_slots_mem: "(lba, j) \<in> set (dir_slots lbas) \<longleftrightarrow> lba \<in> set lbas \<and> lba \<noteq> 0 \<and> j < entries_per_sector"
  by (induction lbas) (auto simp: dir_slots_def simp del: upt_Suc)

text \<open>How the table of a directory changes when its slots do.\<close>

lemma lookup_slots_update:
  assumes x: "x \<in> set xs" "slot_name s x = []" and nm: "nm \<noteq> []" "\<forall>y \<in> set xs. slot_name s y \<noteq> nm"
    and names: "\<And>y. y \<in> set xs \<Longrightarrow> slot_name s' y = (if y = x then nm else slot_name s y)"
    and inos: "\<And>y. y \<in> set xs \<Longrightarrow> slot_ino s' y = (if y = x then ino else slot_ino s y)"
  shows "lookup_slots s' xs nm = ino" "other \<noteq> nm \<Longrightarrow> other \<noteq> [] \<Longrightarrow> lookup_slots s' xs other = lookup_slots s xs other"
proof -
  have "find (\<lambda>y. slot_name s' y = nm) xs = Some x"
    using x(1) nm(2) names by (intro find_only) auto
  then show "lookup_slots s' xs nm = ino" using inos [OF x(1)] by (simp add: lookup_slots_def)
  assume o: "other \<noteq> nm" "other \<noteq> []"
  have "find (\<lambda>y. slot_name s' y = other) xs = find (\<lambda>y. slot_name s y = other) xs"
    using o names x(2) by (intro find_pred_cong) auto
  moreover have "slot_ino s' y = slot_ino s y" if "find (\<lambda>y. slot_name s y = other) xs = Some y" for y
    using find_mem [OF that] inos [of y] x(2) o by auto
  ultimately show "lookup_slots s' xs other = lookup_slots s xs other"
    by (auto simp: lookup_slots_def split: option.splits)
qed


lemma create_dir_entry_ok:
  assumes wf: "dir_wf s i" and e: "length child = sizeof_dir_entry" "cstr child 0 nm" "nm \<noteq> []" "length nm < 64"
    and new: "\<forall>x \<in> set (dir_slots (sectors i)). slot_name s x \<noteq> nm"
    and free: "find (\<lambda>x. slot_name s x = []) (dir_slots (sectors i)) = Some (lba, j)"
  shows "\<exists>s'. create_dir_entry s i child = Some s' \<and> dir_wf s' i \<and> dir_lookup s' i nm = dec32 (drop 64 child)
    \<and> (\<forall>other. other \<noteq> nm \<longrightarrow> dir_lookup s' i other = dir_lookup s i other)"
proof -
  let ?xs = "dir_slots (sectors i)" and ?buf = "put (fdisk s lba) (sizeof_dir_entry * j) child"
  let ?s = "s\<lparr>fdisk := (fdisk s)(lba := ?buf)\<rparr>"
  have m: "(lba, j) \<in> set ?xs" "slot_name s (lba, j) = []" using find_mem [OF free] by auto
  then have lba: "lba \<in> set (sectors i)" "lba \<noteq> 0" "j < entries_per_sector" using dir_slots_mem by auto
  then have swf: "sector_wf (fdisk s lba)" using wf by (simp add: dir_wf_def)
  have "scan_dir s (sectors i) child 0 0 = Some (Some (free_slot s ?xs (0, 0)))"
    using scan_dir_ok [OF _ e(2,3) new, of "(0, 0)"] wf by (simp add: dir_wf_def)
  then have sc: "scan_dir s (sectors i) child 0 0 = Some (Some (lba, j))" using free by (simp add: free_slot_def)
  note w = write_slot [OF swf lba(3) e(1,2,4)]
  have "length ?buf = sector_size" using w(1) by (simp add: sector_wf_def)
  then have cr: "create_dir_entry s i child = Some ?s"
    using sc lba(2) by (simp add: create_dir_entry_def write_disk_def read_disk_def)
  have names: "slot_name ?s y = (if y = (lba, j) then nm else slot_name s y)"
    and inos: "slot_ino ?s y = (if y = (lba, j) then dec32 (drop 64 child) else slot_ino s y)" if "y \<in> set ?xs" for y
  proof -
    obtain a b where y: "y = (a, b)" by (rule prod.exhaust)
    then have "b < entries_per_sector" using that dir_slots_mem by simp
    then show "slot_name ?s y = (if y = (lba, j) then nm else slot_name s y)"
      "slot_ino ?s y = (if y = (lba, j) then dec32 (drop 64 child) else slot_ino s y)"
      using w(2,3) [of b] by (auto simp: y slot_name_def slot_ino_def)
  qed
  have up: "lookup_slots ?s ?xs nm = dec32 (drop 64 child)"
    by (rule lookup_slots_update(1) [OF m e(3) new names inos])
  have keep: "lookup_slots ?s ?xs other = lookup_slots s ?xs other" if "other \<noteq> nm" "other \<noteq> []" for other
    by (rule lookup_slots_update(2) [OF m e(3) new names inos that])
  have "dir_wf ?s i" using wf w(1) by (simp add: dir_wf_def)
  moreover have "dir_lookup ?s i other = dir_lookup s i other" if "other \<noteq> nm" for other
    using keep [OF that] by (simp add: dir_lookup_def del: fun_upd_apply)
  moreover have "dir_lookup ?s i nm = dec32 (drop 64 child)" using up e(3) by (simp add: dir_lookup_def del: fun_upd_apply)
  ultimately show ?thesis using cr by blast
qed

section \<open>Removing an entry\<close>









section \<open>Properties\<close>

text \<open>C28: looking up an absolute path follows its components from the root directory, each
  one by the table of names of the directory that the components before it lead to; the result is
  \<open>-1\<close> as soon as a component is not found.\<close>

theorem dir_is_exists_resolves:
  assumes "cstr path 0 (path_str comps)" and "comps \<noteq> []" and "\<forall>d \<in> set comps. comp_ok d"
    and "dirs_wf s (root_inode_no (sb_data s)) comps"
  shows "dir_is_exists s path = Some (resolve s (root_inode_no (sb_data s)) comps)"
  using assms by (rule dir_is_exists_ok)

text \<open>An absolute path is cut into its last component and the path of its parent, which is
  the root for a path of one component.\<close>

lemma split_path_2parts_cuts:
  assumes "cstr path 0 (path_str (as @ [c]))" and "\<forall>d \<in> set (as @ [c]). comp_ok d" and "length (path_str as) < 64"
  shows "\<exists>q parent. split_path_2parts path (replicate 64 0) = Some (Some q, parent)
    \<and> cstr path q c \<and> cstr parent 0 (if as = [] then [slash] else path_str as)"
  using split_path_2parts_ok [OF assms] by blast

text \<open>C30: an entry that was created in a directory with a free slot is found under its name
  with its inode number, and every other name is found as before.\<close>

theorem created_entry_is_found:
  assumes "dir_wf s i" and "length child = sizeof_dir_entry" and "cstr child 0 nm" and "nm \<noteq> []" and "length nm < 64"
    and "\<forall>x \<in> set (dir_slots (sectors i)). slot_name s x \<noteq> nm"
    and "find (\<lambda>x. slot_name s x = []) (dir_slots (sectors i)) = Some (lba, j)"
  shows "\<exists>s'. create_dir_entry s i child = Some s' \<and> find_dir_entry s' i child 0 = Some (dec32 (drop 64 child))
    \<and> (\<forall>other q str. cstr other q str \<and> str \<noteq> [] \<and> str \<noteq> nm \<longrightarrow> find_dir_entry s' i other q = find_dir_entry s i other q)"
proof -
  obtain s' where s': "create_dir_entry s i child = Some s'" "dir_wf s' i" "dir_lookup s' i nm = dec32 (drop 64 child)"
    "\<forall>other. other \<noteq> nm \<longrightarrow> dir_lookup s' i other = dir_lookup s i other"
    using create_dir_entry_ok [OF assms] by blast
  then show ?thesis
    using find_dir_entry_ok [OF s'(2)] find_dir_entry_ok [OF assms(1)] assms(3,4) by auto
qed


section \<open>Witnesses\<close>

text \<open>A root directory with the entries \<open>a\<close> (inode 7) and \<open>b\<close> (inode 8) in sector 12.\<close>

definition entry :: "u8 \<Rightarrow> u32 \<Rightarrow> u8 list" where
  "entry c ino = (c # replicate 63 0) @ enc32 ino @ replicate 4 0"

definition root_dir :: inode where
  "root_dir = empty_inode\<lparr>sectors := 12 # replicate 8 0\<rparr>"

definition root_sector :: "u8 list" where
  "root_sector = put (put (replicate 512 0) 0 (entry 97 7)) 72 (entry 98 8)"

definition dir_fs :: fs_state where
  "dir_fs = sync_inode (small_fs\<lparr>fdisk := (fdisk small_fs)(12 := root_sector)\<rparr>) root_dir"

lemma entry_ok: "length (entry c ino) = sizeof_dir_entry" "c \<noteq> 0 \<Longrightarrow> cstr (entry c ino) 0 [c]"
  "dec32 (drop 64 (entry c ino)) = ino"
  by (simp_all add: entry_def nth_append)

lemma zero_sector: "sector_wf (replicate sector_size 0)" "ename (replicate sector_size 0) k = []"
proof -
  have "\<exists>k < 64. replicate sector_size (0 :: u8) ! (sizeof_dir_entry * j + k) = 0" if "j < entries_per_sector" for j
    using that by (intro exI [of _ 0]) simp
  then show "sector_wf (replicate sector_size 0)" by (simp add: sector_wf_def)
  show "ename (replicate sector_size 0) k = []" by (cases "sector_size - sizeof_dir_entry * k") (simp_all add: ename_def)
qed

lemma put_entry:
  assumes "sector_wf buf" "j < entries_per_sector" "c \<noteq> 0" "k < entries_per_sector"
  shows "sector_wf (put buf (sizeof_dir_entry * j) (entry c ino))"
    "ename (put buf (sizeof_dir_entry * j) (entry c ino)) k = (if k = j then [c] else ename buf k)"
    "eino (put buf (sizeof_dir_entry * j) (entry c ino)) k = (if k = j then ino else eino buf k)"
  using write_slot [OF assms(1,2) entry_ok(1) entry_ok(2) [OF assms(3)]] assms(4) by (simp_all add: entry_ok(3))

lemma root_sector_ok:
  "sector_wf root_sector" "k < entries_per_sector \<Longrightarrow> ename root_sector k = (if k = 1 then [98] else if k = 0 then [97] else [])"
  "eino root_sector 0 = 7" "eino root_sector 1 = 8"
proof -
  let ?a = "put (replicate sector_size 0) 0 (entry 97 7)"
  have wa: "sector_wf ?a" and na: "k < entries_per_sector \<Longrightarrow> ename ?a k = (if k = 0 then [97] else [])"
    and ia: "eino ?a 0 = 7" for k
    using put_entry [OF zero_sector(1), of 0 97 k 7] put_entry [OF zero_sector(1), of 0 97 0 7]
    by (simp_all add: zero_sector(2))
  show "sector_wf root_sector" using put_entry(1) [OF wa, of 1 98 0 8] by (simp add: root_sector_def)
  show "ename root_sector k = (if k = 1 then [98] else if k = 0 then [97] else [])" if "k < entries_per_sector"
    using put_entry(2) [OF wa, of 1 98 k 8] na [OF that] that by (simp add: root_sector_def)
  show "eino root_sector 0 = 7" "eino root_sector 1 = 8"
    using put_entry(3) [OF wa, of 1 98 0 8] put_entry(3) [OF wa, of 1 98 1 8] ia by (simp_all add: root_sector_def)
qed

lemma root_slots: "dir_slots (sectors root_dir) = [(12, 0), (12, 1), (12, 2), (12, 3), (12, 4), (12, 5), (12, 6)]"
  by (simp add: root_dir_def dir_slots_def upt_rec)

lemma dir_fs_ok: "ino2inode dir_fs 0 = root_dir" "fdisk dir_fs 12 = root_sector" "sb_data dir_fs = small_sb"
proof -
  let ?s = "small_fs\<lparr>fdisk := (fdisk small_fs)(12 := root_sector)\<rparr>"
  have "disk_wf ?s" using root_sector_ok(1) by (simp add: disk_wf_def small_fs_def sector_wf_def)
  then show "ino2inode dir_fs 0 = root_dir"
    using ino2inode_sync [of ?s root_dir 0] by (simp add: dir_fs_def root_dir_def empty_inode_def)
  show "fdisk dir_fs 12 = root_sector" "sb_data dir_fs = small_sb"
    by (simp_all add: dir_fs_def sync_inode_def write_disk_def Let_def small_fs_def small_sb_def root_dir_def empty_inode_def)
qed

lemma dir_fs_dir: "dir_wf dir_fs root_dir" "dir_lookup dir_fs root_dir [98] = 8"
proof -
  show "dir_wf dir_fs root_dir"
    using root_sector_ok(1) dir_fs_ok(2) by (simp add: dir_wf_def root_dir_def)
  have "find (\<lambda>x. slot_name dir_fs x = [98]) (dir_slots (sectors root_dir)) = Some (12, 1)"
    using root_sector_ok(2) by (simp add: root_slots slot_name_def dir_fs_ok(2))
  then show "dir_lookup dir_fs root_dir [98] = 8"
    by (simp add: dir_lookup_def lookup_slots_def slot_ino_def dir_fs_ok(2) root_sector_ok(4) [unfolded One_nat_def])
qed

theorem dir_is_exists_resolves_witness: "dir_is_exists dir_fs [47, 98, 0] = Some 8"
proof -
  have "dirs_wf dir_fs (root_inode_no (sb_data dir_fs)) [[98]]" "resolve dir_fs (root_inode_no (sb_data dir_fs)) [[98]] = 8"
    using dir_fs_dir by (simp_all add: dir_fs_ok small_sb_def NOT_FOUND_def)
  then show ?thesis using dir_is_exists_resolves [of "[47, 98, 0]" "[[98]]" dir_fs] by (simp add: comp_ok_def)
qed

theorem created_entry_is_found_witness:
  "\<exists>s'. create_dir_entry dir_fs root_dir (entry 99 5) = Some s' \<and> find_dir_entry s' root_dir (entry 99 5) 0 = Some 5"
proof -
  have new: "\<forall>x \<in> set (dir_slots (sectors root_dir)). slot_name dir_fs x \<noteq> [99]"
    using root_sector_ok(2) by (simp add: root_slots slot_name_def dir_fs_ok(2))
  have free: "find (\<lambda>x. slot_name dir_fs x = []) (dir_slots (sectors root_dir)) = Some (12, 2)"
    using root_sector_ok(2) by (simp add: root_slots slot_name_def dir_fs_ok(2))
  show ?thesis
    using created_entry_is_found [OF dir_fs_dir(1) entry_ok(1) entry_ok(2) _ _ new free, of 5] by (auto simp: entry_ok(3))
qed


end
