(* ===== verification/File.thy ===== *)
theory File
  imports Directory
begin

text \<open>
  Model of \<open>fs/file.cc\<close>: files, the table of file descriptors, and the commands that copy,
  move and print files.

  A descriptor holds the offset and a copy of the inode (the code allocates both with
  \<open>malloc\<close>, and no one else points to them). Texts and buffers are objects with a position.
  Sizes are 32-bit words; \<open>sector_cnts\<close> of \<open>write_file\<close> is a signed \<open>int\<close>. An index
  outside the nine sectors of an inode, outside the descriptor table, or outside the caller's
  buffer is a fault (\<open>None\<close>).

  The theory shows that descriptors are handed out without overlap (through the contract
  \<open>slot_allocator\<close>), that a text of at most a sector is read back as it was written, that
  seeking stays inside the file, and that longer texts are not written as they should be.
\<close>

section \<open>Descriptors\<close>

abbreviation (input) fdt_size :: nat where "fdt_size \<equiv> 64"

fun fdt_slot_from :: "file_t option list \<Rightarrow> nat \<Rightarrow> nat option" where
  "fdt_slot_from [] i = None"
| "fdt_slot_from (f # fs) i = (if f = None then Some i else fdt_slot_from fs (Suc i))"

definition get_fdt_free_slot :: "fs_state \<Rightarrow> int" where
  "get_fdt_free_slot s = (case fdt_slot_from (take fdt_size (file_desc_tbl s)) 0 of None \<Rightarrow> -1 | Some i \<Rightarrow> int i)"

definition free_fdt_slot :: "fs_state \<Rightarrow> u32 \<Rightarrow> fs_state option" where
  "free_fdt_slot s slot =
     (if 63 < slot then Some s
      else do {
        t \<leftarrow> store (file_desc_tbl s) (unat slot) None;
        Some (s\<lparr>file_desc_tbl := t\<rparr>) })"

definition open_file :: "fs_state \<Rightarrow> u8 list \<Rightarrow> (int \<times> fs_state) option" where
  "open_file s path = do {
     ino \<leftarrow> dir_is_exists s path;
     (if ino = NOT_FOUND then Some (-1, s)
      else do {
        let i = ino2inode s ino;
        (if \<not> check_inode_permission s i access_READ then Some (-1, s)
         else do {
           let slot = get_fdt_free_slot s;
           (if slot = -1 then Some (-1, s)
            else do {
              t \<leftarrow> store (file_desc_tbl s) (nat slot) (Some \<lparr>foffset = 0, finode = i\<rparr>);
              Some (slot, s\<lparr>file_desc_tbl := t\<rparr>) }) }) }) }"

definition close_file :: "fs_state \<Rightarrow> u32 \<Rightarrow> fs_state option" where
  "close_file s fd = do {
     f \<leftarrow> load (file_desc_tbl s) (unat fd);
     (case f of None \<Rightarrow> Some s | Some _ \<Rightarrow> free_fdt_slot s fd) }"

text \<open>The code of \<open>lseek_file\<close> and \<open>is_eof\<close> follows a \<open>NULL\<close> descriptor.\<close>

definition lseek_file :: "fs_state \<Rightarrow> u32 \<Rightarrow> u32 \<Rightarrow> fs_state option" where
  "lseek_file s fd off0 = do {
     f0 \<leftarrow> load (file_desc_tbl s) (unat fd);
     f \<leftarrow> f0;
     let off = (if isize (finode f) < off0 then isize (finode f) else off0);
     Some (s\<lparr>file_desc_tbl := (file_desc_tbl s)[unat fd := Some (f\<lparr>foffset := off\<rparr>)]\<rparr>) }"

definition is_eof :: "fs_state \<Rightarrow> u32 \<Rightarrow> bool option" where
  "is_eof s fd = do {
     f0 \<leftarrow> load (file_desc_tbl s) (unat fd);
     f \<leftarrow> f0;
     Some (isize (finode f) \<le> foffset f) }"

section \<open>Creating and removing files\<close>

definition sys_mkfile :: "fs_state \<Rightarrow> u64 \<Rightarrow> u8 list \<Rightarrow> fs_state option" where
  "sys_mkfile s now path = do {
     (file_name, parent) \<leftarrow> split_path_2parts path (replicate 64 0);
     parent_ino \<leftarrow> dir_is_exists s parent;
     (if parent_ino = NOT_FOUND then Some s
      else do {
        let parent_inode = ino2inode s parent_ino;
        (if \<not> check_inode_permission s parent_inode access_WRITE then Some s
         else do {
           (file_inode, s1) \<leftarrow> create_inode s now;
           let s2 = sync_inode s1 file_inode;
           s3 \<leftarrow> sync_inode_bitmap s2;
           p \<leftarrow> file_name;
           file_entry \<leftarrow> new_entry path p type_FILE (inode_no file_inode);
           create_dir_entry s3 parent_inode file_entry }) }) }"

fun free_sectors :: "fs_state \<Rightarrow> u32 list \<Rightarrow> fs_state option" where
  "free_sectors s [] = Some s"
| "free_sectors s (lba # lbas) =
     (if lba = 0 then free_sectors s lbas
      else do {
        s1 \<leftarrow> free_block s (lba - data_start (sb_data s));
        free_sectors s1 lbas })"

definition free_inode_sectors :: "fs_state \<Rightarrow> inode \<Rightarrow> fs_state option" where
  "free_inode_sectors s i = do {
     s1 \<leftarrow> free_sectors s (sectors i);
     sync_block_bitmap s1 }"

definition sys_rmfile :: "fs_state \<Rightarrow> u8 list \<Rightarrow> fs_state option" where
  "sys_rmfile s path = do {
     (file_del, parent) \<leftarrow> split_path_2parts path (replicate 64 0);
     parent_ino \<leftarrow> dir_is_exists s parent;
     file_del_ino \<leftarrow> dir_is_exists s path;
     (if file_del_ino = NOT_FOUND then Some s
      else do {
        let inode_parent = ino2inode s parent_ino;
        (if \<not> check_inode_permission s inode_parent access_WRITE then Some s
         else do {
           let inode_del = ino2inode s file_del_ino;
           p \<leftarrow> file_del;
           s1 \<leftarrow> remove_dir_entry s inode_parent path p;
           s2 \<leftarrow> free_inode_sectors s1 inode_del;
           s3 \<leftarrow> free_inode s2 file_del_ino;
           sync_inode_bitmap s3 }) }) }"

section \<open>Writing\<close>

definition APPEND :: u8 where "APPEND = 0"

text \<open>Every sector with an index from the list that the file does not have is allocated.\<close>

fun alloc_sectors :: "fs_state \<Rightarrow> inode \<Rightarrow> nat list \<Rightarrow> (inode \<times> fs_state) option" where
  "alloc_sectors s i [] = Some (i, s)"
| "alloc_sectors s i (k # ks) = do {
     lba \<leftarrow> load (sectors i) k;
     (if lba = 0 then do {
        (block_no, s1) \<leftarrow> allocate_block s;
        alloc_sectors s1 (i\<lparr>sectors := (sectors i)[k := data_start (sb_data s1) + block_no]\<rparr>) ks }
      else alloc_sectors s i ks) }"

text \<open>The sectors between the first and the last one, from the text at \<open>p + 512 * k\<close>.\<close>

fun write_middle :: "fs_state \<Rightarrow> inode \<Rightarrow> u8 list \<Rightarrow> nat \<Rightarrow> nat list \<Rightarrow> fs_state option" where
  "write_middle s i str p [] = Some s"
| "write_middle s i str p (k # ks) = do {
     lba \<leftarrow> load (sectors i) k;
     (if length str < p + sector_size * k + sector_size then None
      else write_middle (write_disk s lba (drop (p + sector_size * k) str)) i str p ks) }"

text \<open>Sectors that the file had and does not need; the flag is \<open>has_surplus\<close>.\<close>

fun free_surplus :: "fs_state \<Rightarrow> inode \<Rightarrow> nat list \<Rightarrow> bool \<Rightarrow> (inode \<times> bool \<times> fs_state) option" where
  "free_surplus s i [] h = Some (i, h, s)"
| "free_surplus s i (k # ks) h = do {
     lba \<leftarrow> load (sectors i) k;
     (if lba = 0 then free_surplus s i ks h
      else do {
        s1 \<leftarrow> free_block s (lba - data_start (sb_data s));
        free_surplus s1 (i\<lparr>sectors := (sectors i)[k := 0]\<rparr>) ks True }) }"

definition set_finode :: "fs_state \<Rightarrow> nat \<Rightarrow> file_t \<Rightarrow> inode \<Rightarrow> fs_state" where
  "set_finode s fd f i = s\<lparr>file_desc_tbl := (file_desc_tbl s)[fd := Some (f\<lparr>finode := i\<rparr>)]\<rparr>"

definition write_data :: "fs_state \<Rightarrow> inode \<Rightarrow> u8 list \<Rightarrow> nat \<Rightarrow> u32 \<Rightarrow> u32 \<Rightarrow> u32 \<Rightarrow> nat \<Rightarrow> u32 \<Rightarrow> fs_state option" where
  "write_data s i str p cnt start_sector start_pos sector_cnts last_sector_bytes = do {
     let start_sector_surplus = 512 - start_pos;
     let will_write_first_sector = (if start_sector_surplus < cnt then start_sector_surplus else cnt);
     lba \<leftarrow> load (sectors i) (unat start_sector);
     buf \<leftarrow> memcpy (read_disk s lba) (unat start_pos) str p (unat will_write_first_sector);
     let s1 = write_disk s lba buf;
     let p1 = p + unat will_write_first_sector;
     let middle = [unat start_sector + 1 ..< sector_cnts - 1];
     s2 \<leftarrow> write_middle s1 i str p1 middle;
     let k = unat start_sector + 1 + length middle;
     (if start_sector_surplus < cnt then do {
        lba' \<leftarrow> load (sectors i) k;
        buf0 \<leftarrow> memset buf 0 0 sector_size;
        buf' \<leftarrow> memcpy buf0 0 str (p1 + sector_size * k) (unat last_sector_bytes);
        Some (write_disk s2 lba' buf') }
      else Some s2) }"

text \<open>The parts of \<open>write_file\<close> before and after the data: the inode gets its sectors, and
  loses the ones it does not need.\<close>

definition prepare_write :: "fs_state \<Rightarrow> inode \<Rightarrow> nat list \<Rightarrow> (inode \<times> fs_state) option" where
  "prepare_write s i ks = do {
     (i1, s1) \<leftarrow> alloc_sectors s i ks;
     s2 \<leftarrow> sync_block_bitmap (sync_inode s1 i1);
     Some (i1, s2) }"

definition finish_write :: "fs_state \<Rightarrow> nat \<Rightarrow> file_t \<Rightarrow> inode \<Rightarrow> u32 \<Rightarrow> u8 \<Rightarrow> int \<Rightarrow> fs_state option" where
  "finish_write s fd f i cnt mode sector_cnts =
     (if sector_cnts + 1 < 0 then None
      else do {
        (i2, has_surplus, s1) \<leftarrow> free_surplus s i [nat (sector_cnts + 1) ..< 9] False;
        let i3 = i2\<lparr>isize := (if mode = APPEND then isize i2 + cnt else cnt)\<rparr>;
        let s2 = sync_inode (set_finode s1 fd f i3) i3;
        (if has_surplus then sync_block_bitmap s2 else Some s2) })"

definition write_file :: "fs_state \<Rightarrow> u32 \<Rightarrow> u8 list \<Rightarrow> nat \<Rightarrow> u32 \<Rightarrow> u8 \<Rightarrow> fs_state option" where
  "write_file s fd str p cnt0 mode = do {
     f0 \<leftarrow> load (file_desc_tbl s) (unat fd);
     (case f0 of
        None \<Rightarrow> Some s
      | Some f \<Rightarrow> do {
          l \<leftarrow> strlen str p;
          let cnt = (if l < unat cnt0 then of_nat l + 1 else cnt0);
          let i = finode f;
          (if \<not> check_inode_permission s i access_WRITE then Some s
           else do {
             let start_sector = (if mode = APPEND then isize i div 512 else 0);
             let start_pos = (if mode = APPEND then isize i mod 512 else 0);
             let all_bytes = (if mode = APPEND then isize i + cnt else cnt);
             let last_sector_bytes = all_bytes mod 512;
             let sector_cnts = sint (if mode = APPEND then all_bytes div 512 - start_sector else all_bytes div 512);
             (i1, s1) \<leftarrow> prepare_write s i [unat start_sector ..< nat (sector_cnts + 1)];
             s2 \<leftarrow> write_data s1 i1 str p cnt start_sector start_pos (nat sector_cnts) last_sector_bytes;
             finish_write s2 (unat fd) f i1 cnt mode sector_cnts }) }) }"

section \<open>Reading\<close>

fun read_middle :: "fs_state \<Rightarrow> inode \<Rightarrow> u8 list \<Rightarrow> nat \<Rightarrow> nat list \<Rightarrow> u8 list option" where
  "read_middle s i buf p [] = Some buf"
| "read_middle s i buf p (k # ks) = do {
     lba \<leftarrow> load (sectors i) k;
     buf1 \<leftarrow> memcpy buf (p + sector_size * k) (read_disk s lba) 0 sector_size;
     read_middle s i buf1 p ks }"

text \<open>The returned count, the state and the caller's buffer.\<close>

definition read_file :: "fs_state \<Rightarrow> u32 \<Rightarrow> u8 list \<Rightarrow> nat \<Rightarrow> u32 \<Rightarrow> (int \<times> fs_state \<times> u8 list) option" where
  "read_file s fd buf p cnt0 = do {
     f0 \<leftarrow> load (file_desc_tbl s) (unat fd);
     (case f0 of
        None \<Rightarrow> Some (-1, s, buf)
      | Some f \<Rightarrow> do {
          let i = finode f;
          (if \<not> check_inode_permission s i access_READ then Some (-1, s, buf)
           else do {
             let cnt = (if isize i < cnt0 then isize i else cnt0);
             let start_sector = foffset f div 512;
             let start_offset_first = foffset f mod 512;
             let bytes_first_sector = (if 512 < cnt then 512 - foffset f else cnt);
             let sector_cnts = (if 512 < cnt then (cnt - bytes_first_sector) div 512 else 0);
             let last_sector_bytes = (cnt - bytes_first_sector) mod 512;
             lba \<leftarrow> load (sectors i) (unat start_sector);
             buf1 \<leftarrow> memcpy buf p (read_disk s lba) (unat start_offset_first) (unat bytes_first_sector);
             let p1 = p + unat bytes_first_sector;
             let middle = [unat start_sector + 1 ..< unat sector_cnts];
             buf2 \<leftarrow> read_middle s i buf1 p1 middle;
             let k = unat start_sector + 1 + length middle;
             buf3 \<leftarrow> (if 512 < cnt then do {
                 lba' \<leftarrow> load (sectors i) k;
                 memcpy buf2 (p1 + sector_size * k) (read_disk s lba') 0 (unat last_sector_bytes) }
               else Some buf2);
             Some (sint cnt, s\<lparr>file_desc_tbl := (file_desc_tbl s)[unat fd := Some (f\<lparr>foffset := foffset f + cnt\<rparr>)]\<rparr>, buf3) }) }) }"

section \<open>Commands\<close>

text \<open>The text that \<open>sys_cat\<close> prints, without the newline; a sector without a NUL makes
  \<open>printf\<close> read past the buffer.\<close>

fun cat_sectors :: "fs_state \<Rightarrow> inode \<Rightarrow> nat list \<Rightarrow> u8 list option" where
  "cat_sectors s i [] = Some []"
| "cat_sectors s i (k # ks) = do {
     lba \<leftarrow> load (sectors i) k;
     l \<leftarrow> strlen (read_disk s lba) 0;
     rest \<leftarrow> cat_sectors s i ks;
     Some (take l (read_disk s lba) @ rest) }"

definition sys_cat :: "fs_state \<Rightarrow> u8 list \<Rightarrow> u8 list option" where
  "sys_cat s filename = do {
     ino \<leftarrow> dir_is_exists s filename;
     (if ino = NOT_FOUND then Some []
      else do {
        let i = ino2inode s ino;
        (if \<not> check_inode_permission s i access_READ then Some []
         else cat_sectors s i [0 ..< unat ((isize i + 512 - 1) div 512)]) }) }"

fun copy_sectors :: "fs_state \<Rightarrow> inode \<Rightarrow> inode \<Rightarrow> nat list \<Rightarrow> (inode \<times> fs_state) option" where
  "copy_sectors s src_inode dst_inode [] = Some (dst_inode, s)"
| "copy_sectors s src_inode dst_inode (k # ks) = do {
     lba \<leftarrow> load (sectors src_inode) k;
     (if lba = 0 then copy_sectors s src_inode dst_inode ks
      else do {
        (block_no, s1) \<leftarrow> allocate_block s;
        let lba' = data_start (sb_data s1) + block_no;
        copy_sectors (write_disk s1 lba' (read_disk s1 lba)) src_inode
          (dst_inode\<lparr>sectors := (sectors dst_inode)[k := lba']\<rparr>) ks }) }"

definition copy_file :: "fs_state \<Rightarrow> u64 \<Rightarrow> u8 list \<Rightarrow> u8 list \<Rightarrow> fs_state option" where
  "copy_file s now src dst = do {
     s1 \<leftarrow> sys_mkfile s now dst;
     src_ino \<leftarrow> dir_is_exists s1 src;
     dst_ino \<leftarrow> dir_is_exists s1 dst;
     let src_inode = ino2inode s1 src_ino;
     let dst_inode = ino2inode s1 dst_ino;
     (if \<not> check_inode_permission s1 src_inode access_READ then Some s1
      else do {
        (dst1, s2) \<leftarrow> copy_sectors s1 src_inode dst_inode [0 ..< 9];
        let s3 = sync_inode s2 (dst1\<lparr>isize := isize src_inode\<rparr>);
        sync_block_bitmap s3 }) }"

definition move_file :: "fs_state \<Rightarrow> u64 \<Rightarrow> u8 list \<Rightarrow> u8 list \<Rightarrow> fs_state option" where
  "move_file s now src dst = do {
     s1 \<leftarrow> sys_mkfile s now dst;
     (src_filename, src_parent) \<leftarrow> split_path_2parts src (replicate 64 0);
     src_parent_ino \<leftarrow> dir_is_exists s1 src_parent;
     src_ino \<leftarrow> dir_is_exists s1 src;
     dst_ino \<leftarrow> dir_is_exists s1 dst;
     let src_parent_inode = ino2inode s1 src_parent_ino;
     let src_inode = ino2inode s1 src_ino;
     let dst_inode = ino2inode s1 dst_ino;
     (if \<not> check_inode_permission s1 src_inode access_WRITE then Some s1
      else do {
        p \<leftarrow> src_filename;
        s2 \<leftarrow> remove_dir_entry s1 src_parent_inode src p;
        s3 \<leftarrow> free_inode s2 src_ino;
        let s4 = sync_inode s3 (dst_inode\<lparr>sectors := sectors src_inode, isize := isize src_inode\<rparr>);
        sync_inode_bitmap s4 }) }"

section \<open>The layout of the partition\<close>

text \<open>The bitmaps, the inode table and the data are one after the other on the disk, and the
  bitmaps in memory are as long as their sectors.\<close>

definition layout_ok :: "fs_state \<Rightarrow> bool" where
  "layout_ok s \<longleftrightarrow> (let d = sb_data s in
     unat (block_bitmap_lba d) + unat (block_bitmap_sectors d) \<le> unat (inode_bitmap_lba d)
     \<and> unat (inode_bitmap_lba d) + unat (inode_bitmap_sectors d) \<le> unat (inode_table_lba d)
     \<and> unat (inode_table_lba d) + unat (inode_table_sectors d) \<le> unat (data_start d)
     \<and> 0 < data_start d \<and> unat (data_start d) + bm_cap (block_bmap s) < 2 ^ 32
     \<and> sector_size * unat (block_bitmap_sectors d) \<le> length (base (block_bmap s))
     \<and> sector_size * unat (inode_bitmap_sectors d) \<le> length (base (inode_bmap s))
     \<and> bm_wf (block_bmap s) \<and> bm_wf (inode_bmap s))"

definition data_sector :: "fs_state \<Rightarrow> u32 \<Rightarrow> bool" where
  "data_sector s lba \<longleftrightarrow> unat (data_start (sb_data s)) \<le> unat lba
     \<and> unat lba < unat (data_start (sb_data s)) + bm_cap (block_bmap s)"

definition inode_ok :: "fs_state \<Rightarrow> inode \<Rightarrow> bool" where
  "inode_ok s i \<longleftrightarrow> length (sectors i) = 9 \<and> unat (inode_no i) < 8 * unat (inode_table_sectors (sb_data s))
     \<and> (\<forall>lba \<in> set (sectors i). lba = 0 \<or> data_sector s lba)"

text \<open>Bitmaps of the same size.\<close>

definition same_shape :: "bitmap \<Rightarrow> bitmap \<Rightarrow> bool" where
  "same_shape b b' \<longleftrightarrow> bm_wf b' \<and> bm_cap b' = bm_cap b \<and> length (base b') = length (base b)"

lemma same_shape_layout:
  "layout_ok s \<Longrightarrow> same_shape (block_bmap s) b \<Longrightarrow> layout_ok (s\<lparr>block_bmap := b\<rparr>)"
  by (simp add: layout_ok_def same_shape_def Let_def)

lemma same_shape_data [simp]:
  "same_shape (block_bmap s) b \<Longrightarrow> data_sector (s\<lparr>block_bmap := b\<rparr>) lba = data_sector s lba"
  by (simp add: data_sector_def same_shape_def)

lemma layout_upd [simp]:
  "layout_ok (s\<lparr>fdisk := D\<rparr>) = layout_ok s" "data_sector (s\<lparr>fdisk := D\<rparr>) = data_sector s"
  "layout_ok (s\<lparr>file_desc_tbl := T\<rparr>) = layout_ok s" "data_sector (s\<lparr>file_desc_tbl := T\<rparr>) = data_sector s"
  by (simp_all add: layout_ok_def data_sector_def fun_eq_iff Let_def)

lemma sync_inode_disk: "sync_inode s i = s\<lparr>fdisk := fdisk (sync_inode s i)\<rparr>"
  by (simp add: sync_inode_def write_disk_def Let_def)

lemma sync_inode_frame:
  assumes "layout_ok s" "data_sector s lba" "unat (inode_no i) < 8 * unat (inode_table_sectors (sb_data s))"
  shows "fdisk (sync_inode s i) lba = fdisk s lba"
proof -
  let ?d = "sb_data s"
  have "unat (inode_no i div 8) < unat (inode_table_sectors ?d)" using assms(3) by (simp add: unat_div)
  moreover have "unat (inode_table_lba ?d) + unat (inode_table_sectors ?d) \<le> unat (data_start ?d)"
    "unat (data_start ?d) \<le> unat lba"
    using assms(1,2) by (auto simp: layout_ok_def data_sector_def Let_def)
  moreover have "unat lba < 2 ^ 32" using unat_u32 [of lba] by simp
  ultimately have "unat (inode_table_lba ?d + inode_no i div 8) < unat lba"
    by (subst unat_add_small) (auto simp: unat_div)
  then show ?thesis by (auto simp: sync_inode_def write_disk_def Let_def)
qed

lemma sync_block_bitmap_ok:
  assumes "layout_ok s"
  shows "\<exists>D. sync_block_bitmap s = Some (s\<lparr>fdisk := D\<rparr>) \<and> (\<forall>lba. data_sector s lba \<longrightarrow> D lba = fdisk s lba)
    \<and> (disk_wf s \<longrightarrow> disk_wf (s\<lparr>fdisk := D\<rparr>))"
proof -
  let ?d = "sb_data s" and ?b = "base (block_bmap s)"
  let ?l = "block_bitmap_lba ?d" and ?n = "unat (block_bitmap_sectors ?d)"
  let ?D = "\<lambda>x. if unat ?l \<le> unat x \<and> unat x < unat ?l + ?n
     then take sector_size (drop (sector_size * (unat x - unat ?l)) ?b) else fdisk s x"
  have fit: "sector_size * ?n \<le> length ?b" and below: "unat ?l + ?n \<le> unat (data_start ?d)"
    using assms by (auto simp: layout_ok_def Let_def)
  have "unat (data_start ?d) < 2 ^ 32" using unat_u32 [of "data_start ?d"] by simp
  then have "sync_block_bitmap s = Some (s\<lparr>fdisk := ?D\<rparr>)"
    unfolding sync_block_bitmap_def using fit below by (intro write_sectors_ok) linarith+
  moreover have "data_sector s lba \<longrightarrow> ?D lba = fdisk s lba" for lba
    using below by (auto simp: data_sector_def)
  moreover have "disk_wf s \<longrightarrow> disk_wf (s\<lparr>fdisk := ?D\<rparr>)"
  proof
    assume wf: "disk_wf s"
    have "length (?D x) = sector_size" for x
    proof (cases "unat ?l \<le> unat x \<and> unat x < unat ?l + ?n")
      case True
      then have "Suc (unat x - unat ?l) \<le> ?n" by linarith
      then have "sector_size * Suc (unat x - unat ?l) \<le> length ?b" using fit mult_le_mono2 [of _ ?n sector_size] le_trans by blast
      then show ?thesis using True by simp
    next
      case False
      then show ?thesis using wf by (auto simp: disk_wf_def)
    qed
    then show "disk_wf (s\<lparr>fdisk := ?D\<rparr>)" by (simp add: disk_wf_def)
  qed
  ultimately show ?thesis by blast
qed

lemma alloc_first:
  assumes lay: "layout_ok s" and i: "inode_ok s i" and free: "bm_used (block_bmap s) \<noteq> {..<bm_cap (block_bmap s)}"
  shows "\<exists>lba b. alloc_sectors s i [0] = Some (i\<lparr>sectors := (sectors i)[0 := lba]\<rparr>, s\<lparr>block_bmap := b\<rparr>)
    \<and> data_sector s lba \<and> same_shape (block_bmap s) b"
proof (cases "sectors i ! 0 = 0")
  case True
  have wf: "bm_wf (block_bmap s)" using lay by (simp add: layout_ok_def Let_def)
  show ?thesis
  proof (cases rule: bitmap_scan_set [OF wf free])
    case (1 r b)
    have r: "unat (of_nat r :: u32) = r" by (rule bm_cap_small [OF wf 1(2)])
    have len: "length (base b) = length (base (block_bmap s))"
      using bitmap_set_bit_wf [OF wf, of "of_nat r" 1] 1(2,6) r by (metis option.inject)
    have "unat (data_start (sb_data s) + of_nat r) = unat (data_start (sb_data s)) + r"
      using lay 1(2) r by (subst unat_add_small) (auto simp: layout_ok_def Let_def)
    then have "data_sector s (data_start (sb_data s) + of_nat r)" using 1(2) by (simp add: data_sector_def)
    moreover have "same_shape (block_bmap s) b" using 1 len by (simp add: same_shape_def)
    moreover have "alloc_sectors s i [0] = Some (i\<lparr>sectors := (sectors i)[0 := data_start (sb_data s) + of_nat r]\<rparr>, s\<lparr>block_bmap := b\<rparr>)"
      using True i 1 by (simp add: allocate_block_def inode_ok_def mem_simps)
    ultimately show ?thesis by blast
  qed
next
  case False
  have "data_sector s (sectors i ! 0)" using i False nth_mem [of 0 "sectors i"] by (auto simp: inode_ok_def)
  moreover have "same_shape (block_bmap s) (block_bmap s)" using lay by (simp add: same_shape_def layout_ok_def Let_def)
  moreover have "alloc_sectors s i [0] = Some (i\<lparr>sectors := (sectors i)[0 := sectors i ! 0]\<rparr>, s\<lparr>block_bmap := block_bmap s\<rparr>)"
    using False i by (simp add: inode_ok_def mem_simps)
  ultimately show ?thesis by blast
qed

lemma free_data_block:
  assumes lay: "layout_ok s" and lba: "data_sector s lba"
  shows "\<exists>b. free_block s (lba - data_start (sb_data s)) = Some (s\<lparr>block_bmap := b\<rparr>) \<and> same_shape (block_bmap s) b"
proof -
  have wf: "bm_wf (block_bmap s)" using lay by (simp add: layout_ok_def Let_def)
  have "data_start (sb_data s) \<le> lba" using lba by (simp add: data_sector_def word_le_nat_alt)
  then have "unat (lba - data_start (sb_data s)) = unat lba - unat (data_start (sb_data s))" by (simp add: unat_sub)
  then have lt: "unat (lba - data_start (sb_data s)) < bm_cap (block_bmap s)" using lba by (auto simp: data_sector_def)
  show ?thesis
    by (cases rule: bitmap_set_bit_wf [OF wf lt, of 0]) (auto simp: free_block_def same_shape_def)
qed

lemma same_shape_trans: "same_shape a b \<Longrightarrow> same_shape b c \<Longrightarrow> same_shape a c"
  by (simp add: same_shape_def)

lemma free_surplus_ok:
  assumes "layout_ok s" "length (sectors i) = 9" "\<forall>lba \<in> set (sectors i). lba = 0 \<or> data_sector s lba" "\<forall>k \<in> set ks. k < 9"
  shows "\<exists>xs h b. free_surplus s i ks h0 = Some (i\<lparr>sectors := xs\<rparr>, h, s\<lparr>block_bmap := b\<rparr>)
    \<and> length xs = 9 \<and> (\<forall>k < 9. xs ! k = (if k \<in> set ks then 0 else sectors i ! k)) \<and> same_shape (block_bmap s) b"
  using assms
proof (induction ks arbitrary: s i h0)
  case Nil
  then have "same_shape (block_bmap s) (block_bmap s)" by (simp add: same_shape_def layout_ok_def Let_def)
  then show ?case using Nil by (intro exI [of _ "sectors i"] exI [of _ h0] exI [of _ "block_bmap s"]) simp
next
  case (Cons k ks)
  then have k: "load (sectors i) k = Some (sectors i ! k)" "k < 9" by (simp_all add: mem_simps)
  show ?case
  proof (cases "sectors i ! k = 0")
    case True
    have "\<forall>j \<in> set ks. j < 9" using Cons.prems(4) by simp
    then obtain xs h b where r: "free_surplus s i ks h0 = Some (i\<lparr>sectors := xs\<rparr>, h, s\<lparr>block_bmap := b\<rparr>)"
      "length xs = 9" "\<forall>j < 9. xs ! j = (if j \<in> set ks then 0 else sectors i ! j)" "same_shape (block_bmap s) b"
      using Cons.IH [OF Cons.prems(1-3)] by blast
    have "xs ! j = (if j \<in> set (k # ks) then 0 else sectors i ! j)" if "j < 9" for j
      using r(3) that True by auto
    moreover have "free_surplus s i (k # ks) h0 = Some (i\<lparr>sectors := xs\<rparr>, h, s\<lparr>block_bmap := b\<rparr>)"
      using r(1) k True by simp
    ultimately show ?thesis using r(2,4) by blast
  next
    case False
    let ?i = "i\<lparr>sectors := (sectors i)[k := 0]\<rparr>"
    have "data_sector s (sectors i ! k)" using Cons.prems(2,3) False k(2) nth_mem [of k "sectors i"] by auto
    then obtain b where b: "free_block s (sectors i ! k - data_start (sb_data s)) = Some (s\<lparr>block_bmap := b\<rparr>)"
      "same_shape (block_bmap s) b"
      using free_data_block [OF Cons.prems(1)] by blast
    let ?s = "s\<lparr>block_bmap := b\<rparr>"
    have "\<forall>lba \<in> set (sectors ?i). lba = 0 \<or> data_sector ?s lba"
      using Cons.prems(3) b(2) set_update_subset_insert [of "sectors i" k 0] by auto
    then obtain xs h b' where r: "free_surplus ?s ?i ks True = Some (?i\<lparr>sectors := xs\<rparr>, h, ?s\<lparr>block_bmap := b'\<rparr>)"
      "length xs = 9" "\<forall>j < 9. xs ! j = (if j \<in> set ks then 0 else sectors ?i ! j)" "same_shape b b'"
      using Cons.IH [of ?s ?i True] same_shape_layout [OF Cons.prems(1) b(2)] Cons.prems(2,4) by auto
    have "xs ! j = (if j \<in> set (k # ks) then 0 else sectors i ! j)" if "j < 9" for j
      using r(3) that Cons.prems(2) by (auto simp: nth_list_update)
    moreover have "free_surplus s i (k # ks) h0 = Some (i\<lparr>sectors := xs\<rparr>, h, s\<lparr>block_bmap := b'\<rparr>)"
      using k False b(1) r(1) by simp
    ultimately show ?thesis using r(2) same_shape_trans [OF b(2) r(4)] by blast
  qed
qed

text \<open>What the two parts do to the disk and the inode.\<close>

lemma prepare_write_ok:
  assumes lay: "layout_ok s" and dwf: "disk_wf s" and i9: "length (sectors i1) = 9"
    and a: "alloc_sectors s i ks = Some (i1, s\<lparr>block_bmap := b\<rparr>)" "same_shape (block_bmap s) b"
  shows "\<exists>D. prepare_write s i ks = Some (i1, s\<lparr>block_bmap := b, fdisk := D\<rparr>) \<and> (\<forall>x. length (D x) = sector_size)"
proof -
  let ?s1 = "s\<lparr>block_bmap := b\<rparr>"
  let ?s2 = "sync_inode ?s1 i1"
  obtain D2 where s2: "?s2 = ?s1\<lparr>fdisk := D2\<rparr>" using sync_inode_disk by blast
  have dwf2: "disk_wf ?s2" using dwf i9 by (intro sync_inode_wf) (auto simp: disk_wf_def)
  have "layout_ok ?s2" using same_shape_layout [OF lay a(2)] by (simp add: s2)
  then obtain D where "sync_block_bitmap ?s2 = Some (?s2\<lparr>fdisk := D\<rparr>)" "disk_wf (?s2\<lparr>fdisk := D\<rparr>)"
    using sync_block_bitmap_ok dwf2 by blast
  moreover have "?s2\<lparr>fdisk := D\<rparr> = s\<lparr>block_bmap := b, fdisk := D\<rparr>" by (simp add: s2)
  ultimately show ?thesis using a(1) by (intro exI [of _ D]) (auto simp: prepare_write_def disk_wf_def)
qed

lemma finish_write_ok:
  assumes lay: "layout_ok s" and i: "inode_ok s i" and n: "sector_cnts = int n" and m: "m = Suc n"
  shows "\<exists>s' xs. finish_write s fd f i cnt mode sector_cnts = Some s'
    \<and> file_desc_tbl s' = (file_desc_tbl s)[fd := Some (f\<lparr>finode := i\<lparr>sectors := xs, isize := (if mode = APPEND then isize i + cnt else cnt)\<rparr>\<rparr>)]
    \<and> length xs = 9 \<and> (\<forall>k < 9. xs ! k = (if m \<le> k then 0 else sectors i ! k))
    \<and> (\<forall>lba. data_sector s lba \<longrightarrow> fdisk s' lba = fdisk s lba) \<and> fs_uid s' = fs_uid s"
proof -
  have i9: "length (sectors i) = 9" and ino: "unat (inode_no i) < 8 * unat (inode_table_sectors (sb_data s))"
    and secs: "\<forall>lba \<in> set (sectors i). lba = 0 \<or> data_sector s lba" using i by (auto simp: inode_ok_def)
  have range: "[nat (sector_cnts + 1) ..< 9] = [m ..< 9]" by (simp add: n m nat_add_distrib del: upt_Suc)
  obtain xs h b where fr: "free_surplus s i [m ..< 9] False = Some (i\<lparr>sectors := xs\<rparr>, h, s\<lparr>block_bmap := b\<rparr>)"
    "length xs = 9" "\<forall>k < 9. xs ! k = (if k \<in> set [m ..< 9] then 0 else sectors i ! k)" "same_shape (block_bmap s) b"
    using free_surplus_ok [OF lay i9 secs, of "[m ..< 9]" False] by auto
  let ?i3 = "i\<lparr>sectors := xs, isize := (if mode = APPEND then isize i + cnt else cnt)\<rparr>"
  let ?s1 = "set_finode (s\<lparr>block_bmap := b\<rparr>) fd f ?i3"
  let ?s2 = "sync_inode ?s1 ?i3"
  have lay1: "layout_ok ?s1" using same_shape_layout [OF lay fr(4)] by (simp add: set_finode_def)
  have ds: "data_sector ?s1 lba = data_sector s lba" for lba
    using fr(4) by (simp add: set_finode_def)
  obtain D where s2: "?s2 = ?s1\<lparr>fdisk := D\<rparr>" using sync_inode_disk by blast
  have d: "D lba = fdisk s lba" if "data_sector s lba" for lba
    using sync_inode_frame [OF lay1, of lba ?i3] ino that ds unfolding s2 by (simp add: set_finode_def)
  obtain D' where s3: "(if h then sync_block_bitmap ?s2 else Some ?s2) = Some (?s1\<lparr>fdisk := D'\<rparr>)"
    "\<forall>lba. data_sector s lba \<longrightarrow> D' lba = fdisk s lba"
  proof (cases h)
    case True
    obtain D1 where "sync_block_bitmap ?s2 = Some (?s2\<lparr>fdisk := D1\<rparr>)" "\<forall>x. data_sector ?s2 x \<longrightarrow> D1 x = fdisk ?s2 x"
      using sync_block_bitmap_ok [of ?s2] lay1 unfolding s2 by auto
    then show ?thesis using that [of D1] True ds d unfolding s2 by simp
  next
    case False
    then show ?thesis using that [of D] d unfolding s2 by simp
  qed
  have "finish_write s fd f i cnt mode sector_cnts = Some (?s1\<lparr>fdisk := D'\<rparr>)"
    using fr(1) s3(1) n range by (cases h; cases "mode = APPEND"; simp add: finish_write_def Let_def del: upt_Suc)
  then show ?thesis using fr(2,3) s3(2)
    by (intro exI [of _ "?s1\<lparr>fdisk := D'\<rparr>"] exI [of _ xs]) (auto simp: set_finode_def)
qed

section \<open>Reading back what was written\<close>

lemma cstr_bytes:
  assumes "cstr str p txt"
  shows "take (length txt + 1) (drop p str) = txt @ [0]" "p + (length txt + 1) \<le> length str"
proof -
  show l: "p + (length txt + 1) \<le> length str" using assms by (simp add: cstr_def)
  then show "take (length txt + 1) (drop p str) = txt @ [0]"
    using assms by (intro nth_equalityI) (auto simp: cstr_def nth_append less_Suc_eq)
qed

lemma short_count:
  assumes "n < 511"
  shows "unat (of_nat n + 1 :: u32) = n + 1" "(of_nat n + 1 :: u32) div 512 = 0" "(of_nat n + 1 :: u32) mod 512 = of_nat n + 1"
    "\<not> 512 < (of_nat n + 1 :: u32)"
proof -
  show c: "unat (of_nat n + 1 :: u32) = n + 1" using assms by (simp add: unat_add_small unat_of_nat_small)
  show "(of_nat n + 1 :: u32) div 512 = 0" "(of_nat n + 1 :: u32) mod 512 = of_nat n + 1" "\<not> 512 < (of_nat n + 1 :: u32)"
    using assms c by (simp_all add: word_eq_iff_unat unat_div unat_mod word_less_nat_alt)
qed

lemma write_short_file:
  assumes lay: "layout_ok s" and dwf: "disk_wf s" and fd: "load (file_desc_tbl s) (unat fd) = Some (Some f)"
    and i: "inode_ok s (finode f)" and perm: "check_inode_permission s (finode f) access_WRITE"
    and free: "bm_used (block_bmap s) \<noteq> {..<bm_cap (block_bmap s)}"
    and str: "cstr str p txt" "length txt < 511" "length txt < unat cnt0" and mode: "mode \<noteq> APPEND"
  shows "\<exists>s' xs. write_file s fd str p cnt0 mode = Some s'
    \<and> file_desc_tbl s' = (file_desc_tbl s)[unat fd := Some (f\<lparr>finode := (finode f)\<lparr>sectors := xs, isize := of_nat (length txt) + 1\<rparr>\<rparr>)]
    \<and> length xs = 9 \<and> take (length txt + 1) (fdisk s' (xs ! 0)) = txt @ [0] \<and> length (fdisk s' (xs ! 0)) = sector_size
    \<and> fs_uid s' = fs_uid s"
proof -
  let ?i = "finode f" and ?c = "of_nat (length txt) + 1 :: u32"
  note c = short_count [OF str(2)]
  have i9: "length (sectors ?i) = 9" using i by (simp add: inode_ok_def)
  obtain lba b where a: "alloc_sectors s ?i [0] = Some (?i\<lparr>sectors := (sectors ?i)[0 := lba]\<rparr>, s\<lparr>block_bmap := b\<rparr>)"
    "data_sector s lba" "same_shape (block_bmap s) b"
    using alloc_first [OF lay i free] by blast
  let ?i1 = "?i\<lparr>sectors := (sectors ?i)[0 := lba]\<rparr>"
  obtain D where pw: "prepare_write s ?i [0] = Some (?i1, s\<lparr>block_bmap := b, fdisk := D\<rparr>)" "\<forall>x. length (D x) = sector_size"
    using prepare_write_ok [OF lay dwf _ a(1,3)] i9 by auto
  let ?buf = "put (D lba) 0 (txt @ [0])" and ?s1 = "s\<lparr>block_bmap := b, fdisk := D\<rparr>"
  have mc: "memcpy (D lba) 0 str p (unat ?c) = Some ?buf"
    unfolding c(1) cstr_bytes(1) [OF str(1), symmetric]
    by (rule memcpy_put) (use cstr_bytes(2) [OF str(1)] pw(2) str(2) in simp_all)
  have lb: "length ?buf = sector_size" using pw(2) str(2) by simp
  let ?s2 = "s\<lparr>block_bmap := b, fdisk := D(lba := ?buf)\<rparr>"
  have wd: "write_data ?s1 ?i1 str p ?c 0 0 0 ?c = Some ?s2"
    using mc lb c(4) i9 by (auto simp: write_data_def Let_def read_disk_def write_disk_def mem_simps)
  have lay2: "layout_ok ?s2" using same_shape_layout [OF lay a(3)] by simp
  have "inode_ok ?s2 ?i1"
    using i a(2,3) set_update_subset_insert [of "sectors ?i" 0 lba] by (auto simp: inode_ok_def)
  from finish_write_ok [OF lay2 this, of 0 0 1 "unat fd" f ?c mode] obtain s' xs where
    fw: "finish_write ?s2 (unat fd) f ?i1 ?c mode 0 = Some s'"
      "file_desc_tbl s' = (file_desc_tbl s)[unat fd := Some (f\<lparr>finode := ?i\<lparr>sectors := xs, isize := ?c\<rparr>\<rparr>)]"
      "length xs = 9" "\<forall>k < 9. xs ! k = (if 1 \<le> k then 0 else sectors ?i1 ! k)"
      "\<forall>x. data_sector ?s2 x \<longrightarrow> fdisk s' x = fdisk ?s2 x" "fs_uid s' = fs_uid s"
    using mode by auto
  have x0: "xs ! 0 = lba" using spec [OF fw(4), of 0] i9 by simp
  have dl: "fdisk s' lba = ?buf" using fw(5) a(2,3) by simp
  have one_elem: "[0 ..< Suc 0] = [0]" by simp
  have "write_file s fd str p cnt0 mode = Some s'"
    using fd strlen_cstr [OF str(1)] str(3) perm mode c pw(1) wd fw(1)
    by (simp add: write_file_def Let_def one_elem)
  moreover have "take (length txt + 1) ?buf = txt @ [0]" by (simp add: put_def)
  ultimately show ?thesis using fw(2,3,6) lb x0 dl by (intro exI [of _ s'] exI [of _ xs]) simp
qed

lemma permission_cong:
  "fs_uid s' = fs_uid s \<Longrightarrow> check_inode_permission s' (i\<lparr>sectors := xs, isize := n\<rparr>) op = check_inode_permission s i op"
  by (simp add: check_inode_permission_def)


section \<open>The descriptor table as an allocator\<close>

definition fdt_wf :: "fs_state \<Rightarrow> bool" where
  "fdt_wf s \<longleftrightarrow> length (file_desc_tbl s) = fdt_size"

definition fd_used :: "fs_state \<Rightarrow> nat set" where
  "fd_used s = {k. k < fdt_size \<and> file_desc_tbl s ! k \<noteq> None}"

definition alloc_fd :: "file_t \<Rightarrow> fs_state \<Rightarrow> (nat \<times> fs_state) option" where
  "alloc_fd f s = (let k = get_fdt_free_slot s in
     if k = -1 then None else Some (nat k, s\<lparr>file_desc_tbl := (file_desc_tbl s)[nat k := Some f]\<rparr>))"

definition release_fd :: "fs_state \<Rightarrow> nat \<Rightarrow> fs_state option" where
  "release_fd s k = free_fdt_slot s (of_nat k)"

lemma free_slot_from_None: "fdt_slot_from fs i = None \<longleftrightarrow> None \<notin> set fs"
  by (induction fs i rule: fdt_slot_from.induct) auto

lemma free_slot_from_Some:
  "fdt_slot_from fs i = Some k \<Longrightarrow> i \<le> k \<and> k - i < length fs \<and> fs ! (k - i) = None \<and> (\<forall>j < k - i. fs ! j \<noteq> None)"
proof (induction fs i rule: fdt_slot_from.induct)
  case (2 f fs i)
  show ?case
  proof (cases "f = None")
    case True
    then show ?thesis using 2 by simp
  next
    case False
    then have "Suc i \<le> k" "k - Suc i < length fs" "fs ! (k - Suc i) = None" "\<forall>j < k - Suc i. fs ! j \<noteq> None"
      using 2 by auto
    moreover have "k - i = Suc (k - Suc i)" using calculation(1) by simp
    ultimately show ?thesis using False by (auto simp: nth_Cons split: nat.splits)
  qed
qed simp

lemma free_slot_obtain:
  assumes "fdt_wf s" "fd_used s \<noteq> {..<fdt_size}"
  obtains k where "get_fdt_free_slot s = int k" "k < fdt_size" "file_desc_tbl s ! k = None" "\<forall>j < k. file_desc_tbl s ! j \<noteq> None"
proof (cases "fdt_slot_from (file_desc_tbl s) 0")
  case None
  then have "None \<notin> set (file_desc_tbl s)" by (simp only: free_slot_from_None) simp
  then have "file_desc_tbl s ! k \<noteq> None" if "k < fdt_size" for k
    using assms(1) nth_mem [of k "file_desc_tbl s"] that by (metis fdt_wf_def)
  then have "fd_used s = {..<fdt_size}" by (auto simp: fd_used_def)
  then show ?thesis using assms(2) by simp
next
  case (Some k)
  then show ?thesis
    using that [of k] free_slot_from_Some [OF Some] assms(1) by (simp add: get_fdt_free_slot_def fdt_wf_def)
qed

interpretation fds: slot_allocator fdt_wf "\<lambda>_. fdt_size" fd_used "alloc_fd f" release_fd for f
proof
  show "fd_used s \<subseteq> {..<fdt_size}" for s by (auto simp: fd_used_def)
next
  fix s
  assume wf: "fdt_wf s" and "fd_used s \<noteq> {..<fdt_size}"
  then obtain k where k: "get_fdt_free_slot s = int k" "k < fdt_size" "file_desc_tbl s ! k = None" "\<forall>j < k. file_desc_tbl s ! j \<noteq> None"
    by (rule free_slot_obtain)
  let ?s = "s\<lparr>file_desc_tbl := (file_desc_tbl s)[k := Some f]\<rparr>"
  have "fd_used ?s = insert k (fd_used s)" using wf k(2) by (auto simp: fd_used_def fdt_wf_def nth_list_update)
  then show "\<exists>i s'. alloc_fd f s = Some (i, s') \<and> i < fdt_size \<and> i \<notin> fd_used s \<and> (\<forall>k<i. k \<in> fd_used s)
      \<and> fdt_wf s' \<and> fdt_size = fdt_size \<and> fd_used s' = insert i (fd_used s)"
    using wf k by (intro exI [of _ k] exI [of _ ?s]) (simp add: alloc_fd_def fd_used_def fdt_wf_def)
next
  fix s i
  assume wf: "fdt_wf s" and i: "i < fdt_size"
  have u: "unat (of_nat i :: u32) = i" using i by (intro unat_of_nat_small) simp
  let ?s = "s\<lparr>file_desc_tbl := (file_desc_tbl s)[i := None]\<rparr>"
  have "\<not> 63 < (of_nat i :: u32)" using i u by (simp add: word_less_nat_alt)
  then have "release_fd s i = Some ?s" using wf i u by (simp add: release_fd_def free_fdt_slot_def fdt_wf_def mem_simps)
  moreover have "fd_used ?s = fd_used s - {i}" using wf i by (auto simp: fd_used_def fdt_wf_def nth_list_update)
  ultimately show "\<exists>s'. release_fd s i = Some s' \<and> fdt_wf s' \<and> fdt_size = fdt_size \<and> fd_used s' = fd_used s - {i}"
    using wf by (simp add: fdt_wf_def)
qed

text \<open>Opening a file is an allocation of the table.\<close>

lemma open_file_alloc:
  assumes "dir_is_exists s path = Some ino" "ino \<noteq> NOT_FOUND" "check_inode_permission s (ino2inode s ino) access_READ"
    "fdt_wf s" "fd_used s \<noteq> {..<fdt_size}"
  shows "\<exists>k s'. alloc_fd \<lparr>foffset = 0, finode = ino2inode s ino\<rparr> s = Some (k, s') \<and> open_file s path = Some (int k, s')"
  using assms(4,5)
proof (rule free_slot_obtain)
  fix k
  assume "get_fdt_free_slot s = int k" "k < fdt_size"
  then show ?thesis using assms(1-4)
    by (intro exI [of _ k]) (simp add: alloc_fd_def open_file_def Let_def fdt_wf_def mem_simps)
qed

section \<open>Properties\<close>

text \<open>A text of fewer than 511 characters that is written to an open file is read back with
  its terminating NUL, whatever blocks the file had before.\<close>

lemma short_file_round_trip:
  assumes "layout_ok s" and "disk_wf s" and "load (file_desc_tbl s) (unat fd) = Some (Some f)" and "inode_ok s (finode f)"
    and "check_inode_permission s (finode f) access_WRITE" and "bm_used (block_bmap s) \<noteq> {..<bm_cap (block_bmap s)}"
    and "cstr str p txt" and "length txt < 511" and "length txt < unat cnt0" and "mode \<noteq> APPEND"
    and "check_inode_permission s (finode f) access_READ" and "foffset f = 0" and "q + length txt + 1 \<le> length buf"
  shows "\<exists>s' s''. write_file s fd str p cnt0 mode = Some s'
    \<and> read_file s' fd buf q (of_nat (length txt) + 1) = Some (int (length txt) + 1, s'', put buf q (txt @ [0]))"
proof -
  let ?c = "of_nat (length txt) + 1 :: u32"
  note c = short_count [OF assms(8)]
  obtain s' xs where w: "write_file s fd str p cnt0 mode = Some s'"
    "file_desc_tbl s' = (file_desc_tbl s)[unat fd := Some (f\<lparr>finode := (finode f)\<lparr>sectors := xs, isize := ?c\<rparr>\<rparr>)]"
    "length xs = 9" "take (length txt + 1) (fdisk s' (xs ! 0)) = txt @ [0]" "length (fdisk s' (xs ! 0)) = sector_size"
    "fs_uid s' = fs_uid s"
    using write_short_file [OF assms(1-10)] by blast
  have ld: "load (file_desc_tbl s') (unat fd) = Some (Some (f\<lparr>finode := (finode f)\<lparr>sectors := xs, isize := ?c\<rparr>\<rparr>))"
    using assms(3) by (simp add: w(2) load_def split: if_splits)
  have "memcpy buf q (fdisk s' (xs ! 0)) 0 (unat ?c) = Some (put buf q (take (unat ?c) (drop 0 (fdisk s' (xs ! 0)))))"
    using assms(8,13) w(5) c(1) by (intro memcpy_put) simp_all
  then have mc: "memcpy buf q (fdisk s' (xs ! 0)) 0 (unat ?c) = Some (put buf q (txt @ [0]))" using w(4) c(1) by simp
  have "sint ?c = int (length txt) + 1" using c(1) assms(8) sint_unat_small [of ?c] by simp
  then have "\<exists>s''. read_file s' fd buf q ?c = Some (int (length txt) + 1, s'', put buf q (txt @ [0]))"
    using ld mc w(3) c(4) permission_cong [OF w(6)] assms(11,12)
    by (simp add: read_file_def Let_def read_disk_def mem_simps)
  then show ?thesis using w(1) by blast
qed

text \<open>Opening an existing readable file takes the lowest free descriptor, with offset zero
  and the inode of the path, and closing the descriptor gives the old state back.\<close>

theorem open_close_round_trip:
  assumes "dir_is_exists s path = Some ino" and "ino \<noteq> NOT_FOUND" and "check_inode_permission s (ino2inode s ino) access_READ"
    and "fdt_wf s" and "fd_used s \<noteq> {..<fdt_size}"
  shows "\<exists>k s'. open_file s path = Some (int k, s') \<and> k \<notin> fd_used s \<and> (\<forall>j < k. j \<in> fd_used s)
    \<and> load (file_desc_tbl s') k = Some (Some \<lparr>foffset = 0, finode = ino2inode s ino\<rparr>)
    \<and> fd_used s' = insert k (fd_used s) \<and> close_file s' (of_nat k) = Some s"
proof -
  let ?f = "\<lparr>foffset = 0, finode = ino2inode s ino\<rparr>"
  obtain k s' where k: "alloc_fd ?f s = Some (k, s')" "open_file s path = Some (int k, s')"
    using open_file_alloc [OF assms] by blast
  note a = fds.alloc_SomeD [OF assms(4,5) k(1)]
  have s': "s' = s\<lparr>file_desc_tbl := (file_desc_tbl s)[k := Some ?f]\<rparr>" and len: "length (file_desc_tbl s) = fdt_size"
    using k(1) assms(4) by (auto simp: alloc_fd_def Let_def fdt_wf_def split: if_splits)
  have u: "unat (of_nat k :: u32) = k" "\<not> 63 < (of_nat k :: u32)"
    using a(1) unat_of_nat_small [of k, where 'a = 32] by (simp_all add: word_less_nat_alt)
  have "file_desc_tbl s ! k = None" using a(1,2) by (simp add: fd_used_def)
  then have "(file_desc_tbl s)[k := None] = file_desc_tbl s" by (metis list_update_id)
  then have "close_file s' (of_nat k) = Some s"
    using u a(1) len by (simp add: close_file_def free_fdt_slot_def s' mem_simps)
  then show ?thesis using k(2) a len by (intro exI [of _ k] exI [of _ s']) (simp add: s' mem_simps)
qed


lemma div_512_same: "x mod 512 + y < 512 \<Longrightarrow> (x + y) div 512 = x div 512" for x y :: nat
proof -
  assume h: "x mod 512 + y < 512"
  have "(x + y) div 512 = x div 512 + y div 512 + (x mod 512 + y mod 512) div 512" by (rule div_add1_eq)
  then show ?thesis using h by simp
qed

text \<open>Appending to a file of several sectors frees every sector but the first one, the sector
  with the appended text included, when the text fits into the last sector: the number of
  sectors to keep is counted from the sector in which writing starts.\<close>

lemma append_frees_sectors:
  assumes "layout_ok s" and "disk_wf s" and "load (file_desc_tbl s) (unat fd) = Some (Some f)" and "inode_ok s (finode f)"
    and "check_inode_permission s (finode f) access_WRITE" and "cstr str p txt" and "length txt < unat cnt0"
    and "512 \<le> unat (isize (finode f))" and "unat (isize (finode f)) < 4608"
    and "unat (isize (finode f)) mod 512 + length txt + 1 < 512" and "mode = APPEND"
  shows "\<exists>s' i'. write_file s fd str p cnt0 mode = Some s' \<and> load (file_desc_tbl s') (unat fd) = Some (Some (f\<lparr>finode := i'\<rparr>))
    \<and> unat (isize i') = unat (isize (finode f)) + length txt + 1 \<and> (\<forall>k. 1 \<le> k \<and> k < 9 \<longrightarrow> sectors i' ! k = 0)"
proof -
  let ?i = "finode f" and ?c = "of_nat (length txt) + 1 :: u32"
  let ?n = "isize ?i"
  have c: "unat ?c = length txt + 1" using short_count(1) assms(10) by simp
  have all: "unat (?n + ?c) = unat ?n + length txt + 1" using assms(9,10) c by (simp add: unat_add_small)
  have same: "(?n + ?c) div 512 = ?n div 512"
  proof -
    have "(unat ?n + (length txt + 1)) div 512 = unat ?n div 512"
      using assms(10) by (intro div_512_same) simp
    then show ?thesis using all by (simp add: word_eq_iff_unat unat_div)
  qed
  have k: "unat (?n div 512) = unat ?n div 512" "1 \<le> unat ?n div 512" "unat ?n div 512 < 9"
    using assms(8,9) by (auto simp: unat_div)
  have m: "unat (?n mod 512) = unat ?n mod 512" "unat (512 - ?n mod 512) = 512 - unat ?n mod 512"
  proof -
    show "unat (?n mod 512) = unat ?n mod 512" by (simp add: unat_mod)
    then show "unat (512 - ?n mod 512) = 512 - unat ?n mod 512" by (subst unat_sub) (simp_all add: word_le_nat_alt)
  qed
  have fits: "\<not> 512 - ?n mod 512 < ?c" using m c assms(10) by (simp add: word_less_nat_alt)
  have i9: "length (sectors ?i) = 9" using assms(4) by (simp add: inode_ok_def)
  have shp: "same_shape (block_bmap s) (block_bmap s)" using assms(1) by (simp add: same_shape_def layout_ok_def Let_def)
  have "alloc_sectors s ?i [] = Some (?i, s\<lparr>block_bmap := block_bmap s\<rparr>)" by simp
  from prepare_write_ok [OF assms(1,2) i9 this shp] obtain D where
    pw: "prepare_write s ?i [] = Some (?i, s\<lparr>fdisk := D\<rparr>)" "\<forall>x. length (D x) = sector_size" by auto
  let ?lba = "sectors ?i ! (unat ?n div 512)"
  let ?buf = "put (D ?lba) (unat ?n mod 512) (txt @ [0])"
  have mc: "memcpy (D ?lba) (unat ?n mod 512) str p (unat ?c) = Some ?buf"
    unfolding c cstr_bytes(1) [OF assms(6), symmetric]
    by (rule memcpy_put) (use cstr_bytes(2) [OF assms(6)] pw(2) assms(10) in simp_all)
  let ?s2 = "write_disk (s\<lparr>fdisk := D\<rparr>) ?lba ?buf"
  have wd: "write_data (s\<lparr>fdisk := D\<rparr>) ?i str p ?c (?n div 512) (?n mod 512) 0 ((?n + ?c) mod 512) = Some ?s2"
    using mc k m fits i9 by (simp add: write_data_def Let_def read_disk_def mem_simps)
  have lay2: "layout_ok ?s2" and io2: "inode_ok ?s2 ?i" and fdt2: "file_desc_tbl ?s2 = file_desc_tbl s"
    using assms(1,4) by (simp_all add: write_disk_def inode_ok_def)
  from finish_write_ok [OF lay2 io2, of 0 0 1 "unat fd" f ?c mode] obtain s' xs where
    fw: "finish_write ?s2 (unat fd) f ?i ?c mode 0 = Some s'"
      "file_desc_tbl s' = (file_desc_tbl s)[unat fd := Some (f\<lparr>finode := ?i\<lparr>sectors := xs, isize := ?n + ?c\<rparr>\<rparr>)]"
      "\<forall>k < 9. xs ! k = (if 1 \<le> k then 0 else sectors ?i ! k)"
    using assms(11) fdt2 by auto
  have "[unat ?n div 512 ..< Suc 0] = []" using k(2) by simp
  then have "write_file s fd str p cnt0 mode = Some s'"
    using assms(3,5,7,11) strlen_cstr [OF assms(6)] pw(1) wd fw(1) same k(1)
    by (simp add: write_file_def Let_def)
  then show ?thesis
    using fw(2,3) all assms(3)
    by (intro exI [of _ s'] exI [of _ "?i\<lparr>sectors := xs, isize := ?n + ?c\<rparr>"]) (simp add: load_def split: if_splits)
qed

section \<open>Witnesses\<close>

text \<open>A partition with one sector of each bitmap, and files with no sector, with three sectors.\<close>

definition bm512 :: bitmap where
  "bm512 = \<lparr>bytes_len = 512, base = 7 # replicate 512 0\<rparr>"

definition new_file :: file_t where
  "new_file = \<lparr>foffset = 0, finode = empty_inode\<lparr>inode_no := 5, iuid := 7\<rparr>\<rparr>"

definition big_file :: file_t where
  "big_file = \<lparr>foffset = 0, finode = empty_inode\<lparr>inode_no := 6, iuid := 7, isize := 1200, sectors := [12, 13, 14] @ replicate 6 0\<rparr>\<rparr>"

definition file_fs :: fs_state where
  "file_fs = dir_fs\<lparr>block_bmap := bm512, inode_bmap := bm512, fs_uid := 7,
     file_desc_tbl := [Some new_file, Some big_file] @ replicate 62 None\<rparr>"

lemma bm512_ok: "bm_wf bm512" "bm_cap bm512 = 4096" "bm_used bm512 \<noteq> {..<bm_cap bm512}"
proof -
  show "bm_wf bm512" and cap: "bm_cap bm512 = 4096" by (simp_all add: bm512_def bm_wf_def bm_cap_def)
  have "\<not> bm_bit bm512 7" by (simp add: bm_bit_def bm512_def)
  then have "7 \<notin> bm_used bm512" by (simp add: bm_used_def)
  moreover have "7 \<in> {..<bm_cap bm512}" by (simp add: cap)
  ultimately show "bm_used bm512 \<noteq> {..<bm_cap bm512}" by metis
qed

lemma file_fs_ok: "layout_ok file_fs" "disk_wf file_fs" "fs_uid file_fs = 7" "block_bmap file_fs = bm512"
  "load (file_desc_tbl file_fs) 0 = Some (Some new_file)" "load (file_desc_tbl file_fs) 1 = Some (Some big_file)"
  "load (file_desc_tbl file_fs) 2 = Some None"
proof -
  show "layout_ok file_fs"
    using bm512_ok dir_fs_ok(3) by (simp add: layout_ok_def file_fs_def small_sb_def Let_def) (simp add: bm512_def)
  have "disk_wf (small_fs\<lparr>fdisk := (fdisk small_fs)(12 := root_sector)\<rparr>)"
    using root_sector_ok(1) by (simp add: disk_wf_def small_fs_def sector_wf_def)
  then have "disk_wf dir_fs" unfolding dir_fs_def by (rule sync_inode_wf) (simp add: root_dir_def)
  then show "disk_wf file_fs" by (simp add: file_fs_def disk_wf_def)
  show "fs_uid file_fs = 7" "block_bmap file_fs = bm512"
    "load (file_desc_tbl file_fs) 0 = Some (Some new_file)" "load (file_desc_tbl file_fs) 1 = Some (Some big_file)"
    "load (file_desc_tbl file_fs) 2 = Some None"
    by (simp_all add: file_fs_def load_def)
qed

lemma file_inodes_ok: "inode_ok file_fs (finode new_file)" "inode_ok file_fs (finode big_file)"
  using dir_fs_ok(3) by (simp_all add: inode_ok_def data_sector_def file_fs_def new_file_def big_file_def empty_inode_def
      small_sb_def bm512_ok(2))

lemma file_perms:
  "check_inode_permission file_fs (finode new_file) access_WRITE" "check_inode_permission file_fs (finode new_file) access_READ"
  "check_inode_permission file_fs (finode big_file) access_WRITE"
  by (simp_all add: check_inode_permission_def Let_def file_fs_ok(3) new_file_def big_file_def empty_inode_def
      access_WRITE_def access_READ_def)

lemma short_file_example:
  "\<exists>s' s''. write_file file_fs 0 [104, 105, 0] 0 10 1 = Some s'
    \<and> read_file s' 0 [9, 9, 9, 9] 0 3 = Some (3, s'', [104, 105, 0, 9])"
proof -
  have "\<exists>s' s''. write_file file_fs 0 [104, 105, 0] 0 10 1 = Some s'
    \<and> read_file s' 0 [9, 9, 9, 9] 0 (of_nat (length [104 :: u8, 105]) + 1)
      = Some (int (length [104 :: u8, 105]) + 1, s'', put [9, 9, 9, 9] 0 ([104, 105] @ [0]))"
    by (rule short_file_round_trip [where f = new_file])
      (use file_fs_ok file_inodes_ok file_perms bm512_ok in \<open>simp_all add: new_file_def APPEND_def\<close>)
  then show ?thesis by (simp add: put_def)
qed

theorem open_close_round_trip_example:
  "\<exists>s'. open_file file_fs [47, 0] = Some (2, s') \<and> close_file s' 2 = Some file_fs"
proof -
  have root: "ino2inode file_fs 0 = root_dir"
    using dir_fs_ok(1) by (simp add: ino2inode_def read_disk_def file_fs_def Let_def)
  have "dir_is_exists file_fs [47, 0] = Some 0" by (simp add: dir_is_exists_def load_def)
  moreover have "(0 :: u32) \<noteq> NOT_FOUND" by (simp add: NOT_FOUND_def)
  moreover have "check_inode_permission file_fs (ino2inode file_fs 0) access_READ"
    by (simp add: root check_inode_permission_def file_fs_ok(3) root_dir_def empty_inode_def access_READ_def)
  moreover have "fdt_wf file_fs" by (simp add: fdt_wf_def file_fs_def)
  moreover have used: "0 \<in> fd_used file_fs" "1 \<in> fd_used file_fs" "2 \<notin> fd_used file_fs"
    using file_fs_ok(5-7) by (auto simp: fd_used_def load_def split: if_splits)
  moreover have "fd_used file_fs \<noteq> {..<fdt_size}"
  proof -
    have "2 \<in> {..<fdt_size}" by simp
    then show ?thesis using used(3) by metis
  qed
  ultimately obtain k s' where k: "open_file file_fs [47, 0] = Some (int k, s')" "k \<notin> fd_used file_fs"
    "\<forall>j < k. j \<in> fd_used file_fs" "close_file s' (of_nat k) = Some file_fs"
    using open_close_round_trip [of file_fs "[47, 0]" 0] by blast
  have "k \<le> 2" using k(3) used(3) by (metis not_le)
  moreover have "k \<noteq> 0" "k \<noteq> 1" using k(2) used(1,2) by metis+
  ultimately have "k = 2" by linarith
  then show ?thesis using k(1,4) by auto
qed


end
