(* ===== verification/File_System.thy ===== *)
theory File_System
  imports File
begin

text \<open>
  Model of \<open>fs/fs.cc\<close>: making a file system on a partition, mounting a partition, and the
  start of the file server.

  The partition table belongs to the disk driver and is an argument; the super block, the
  bitmaps and the sectors are those of \<open>fs_state\<close>. A bitmap in memory is the buffer from
  \<open>malloc\<close> followed by what lies behind it in memory (\<open>behind\<close>), because
  \<open>bitmap_scan\<close> looks at the byte behind the map.

  The theory shows that a partition that was made and mounted satisfies the layout that the
  operations on files rely on, with one block and one inode in use and a root directory that
  holds its two entries, and that the start of the server makes a new file system on every
  primary partition each time.
\<close>

section \<open>Data\<close>

datatype partition_type = PRIMARY | EXTEND | LOGIC

record partition =
  part_name :: "u8 list"
  sector_cnt :: u32
  start_lba :: u32
  part_type :: partition_type

record disk_table =
  primary :: "partition list"
  logic :: "partition list"

abbreviation max_file_nr :: u32 where "max_file_nr \<equiv> 1024"
abbreviation min_file_nr :: u32 where "min_file_nr \<equiv> 64"

definition DIV_ROUND_UP :: "u32 \<Rightarrow> u32 \<Rightarrow> u32" where
  "DIV_ROUND_UP x y = (x + y - 1) div y"

text \<open>The packed super block takes 56 bytes; the rest of its sector is padding.\<close>

definition encode_sb :: "super_block_data \<Rightarrow> u8 list" where
  "encode_sb d = magic d @ [if is_sufficient d then 1 else 0]
     @ concat (map enc32 [sectors_nr d, inodes_nr d, sb_start_lba d, block_bitmap_lba d, block_bitmap_sectors d,
         inode_bitmap_lba d, inode_bitmap_sectors d, inode_table_lba d, inode_table_sectors d, data_start d,
         root_inode_no d, dir_entry_size d])"

definition decode_sb :: "u8 list \<Rightarrow> super_block_data" where
  "decode_sb bs =
     (let w = (\<lambda>k. dec32 (drop (8 + 4 * k) bs)) in
      \<lparr>magic = take 7 bs, is_sufficient = (bs ! 7 \<noteq> 0), sectors_nr = w 0, inodes_nr = w 1, sb_start_lba = w 2,
       block_bitmap_lba = w 3, block_bitmap_sectors = w 4, inode_bitmap_lba = w 5, inode_bitmap_sectors = w 6,
       inode_table_lba = w 7, inode_table_sectors = w 8, data_start = w 9, root_inode_no = w 10, dir_entry_size = w 11\<rparr>)"

section \<open>Making a file system\<close>

text \<open>"Shmily".\<close>

definition fs_magic :: "u8 list" where
  "fs_magic = [83, 104, 109, 105, 108, 121]"

definition new_super_block :: "partition \<Rightarrow> super_block_data" where
  "new_super_block part =
     (let enough = 10000 < sector_cnt part;
          i_bmap_sectors = (if enough then DIV_ROUND_UP max_file_nr (8 * 512) else DIV_ROUND_UP min_file_nr 512);
          i_tbl_sectors = (if enough then DIV_ROUND_UP (64 * max_file_nr) 512 else DIV_ROUND_UP (64 * min_file_nr) 512);
          free_sectors = sector_cnt part - i_bmap_sectors - i_tbl_sectors - 2;
          block_bmap_sectors = DIV_ROUND_UP free_sectors (8 * 512);
          bb_lba = start_lba part + 2;
          bb_sectors = DIV_ROUND_UP (free_sectors - block_bmap_sectors) (8 * 512);
          ib_lba = bb_lba + bb_sectors;
          it_lba = ib_lba + i_bmap_sectors
      in \<lparr>magic = fs_magic @ [0], is_sufficient = enough, sectors_nr = sector_cnt part, inodes_nr = 0,
          sb_start_lba = start_lba part, block_bitmap_lba = bb_lba, block_bitmap_sectors = bb_sectors,
          inode_bitmap_lba = ib_lba, inode_bitmap_sectors = i_bmap_sectors, inode_table_lba = it_lba,
          inode_table_sectors = i_tbl_sectors, data_start = it_lba + i_tbl_sectors, root_inode_no = 0,
          dir_entry_size = 72\<rparr>)"

definition root_inode :: "super_block_data \<Rightarrow> inode" where
  "root_inode d = \<lparr>inode_no = 0, isize = 72 * 2, last_modify_time = 0, link_cnt = 0, iuid = 0, igid = 0,
     imode = DEFAULT_PRIVILEGE, sectors = data_start d # replicate 8 0\<rparr>"

definition root_entries :: "u8 list \<Rightarrow> u8 list option" where
  "root_entries buf = do {
     b1 \<leftarrow> memcpy buf 0 [46, 0] 0 1;
     b2 \<leftarrow> store32 b1 64 0;
     b3 \<leftarrow> memcpy b2 sizeof_dir_entry [46, 46, 0] 0 2;
     store32 b3 (sizeof_dir_entry + 64) 0 }"

definition partition_install_fs :: "fs_state \<Rightarrow> partition \<Rightarrow> fs_state option" where
  "partition_install_fs s part = do {
     let d = new_super_block part;
     let s1 = write_disk s (start_lba part + 1) (encode_sb d @ replicate 456 0);
     let buf_size = unat ((if inode_table_sectors d < block_bitmap_sectors d then block_bitmap_sectors d
                           else inode_table_sectors d) * 512);
     b0 \<leftarrow> store (replicate buf_size 0) 0 1;
     s2 \<leftarrow> write_sectors s1 (block_bitmap_lba d) b0 (unat (block_bitmap_sectors d));
     s3 \<leftarrow> write_sectors s2 (inode_bitmap_lba d) b0 (unat (inode_bitmap_sectors d));
     let tbl = put (replicate buf_size 0) 0 (encode_inode (root_inode d));
     s4 \<leftarrow> write_sectors s3 (inode_table_lba d) tbl (unat (inode_table_sectors d));
     e \<leftarrow> root_entries (replicate buf_size 0);
     write_sectors s4 (data_start d) e 3 }"

section \<open>Mounting\<close>

text \<open>The last partition with the name, among the four primary and the first four logical ones.\<close>

fun find_part :: "partition list \<Rightarrow> u8 list \<Rightarrow> partition option \<Rightarrow> partition option option" where
  "find_part [] nm cur = Some cur"
| "find_part (p # ps) nm cur = do {
     e \<leftarrow> strcmp nm 0 (part_name p) 0;
     find_part ps nm (if e then Some p else cur) }"

definition read_sectors :: "fs_state \<Rightarrow> u32 \<Rightarrow> nat \<Rightarrow> u8 list" where
  "read_sectors s lba n = concat (map (\<lambda>k. read_disk s (lba + of_nat k)) [0 ..< n])"

definition mount_at :: "fs_state \<Rightarrow> partition \<Rightarrow> u8 list \<Rightarrow> fs_state option" where
  "mount_at s part behind = do {
     let d = decode_sb (read_disk s (start_lba part + 1));
     let bb = read_sectors s (block_bitmap_lba d) (unat (block_bitmap_sectors d));
     let ib = read_sectors s (inode_bitmap_lba d) (unat (inode_bitmap_sectors d));
     c0 \<leftarrow> memset (cur_dir s) 0 0 64;
     c1 \<leftarrow> strcpy c0 0 [47, 0] 0;
     Some (s\<lparr>sb_data := d, block_bmap := \<lparr>bytes_len = block_bitmap_sectors d * 512, base = bb @ behind\<rparr>,
             inode_bmap := \<lparr>bytes_len = inode_bitmap_sectors d * 512, base = ib @ behind\<rparr>, cur_dir := c1\<rparr>) }"

definition mount_partition :: "fs_state \<Rightarrow> disk_table \<Rightarrow> partition option \<Rightarrow> u8 list \<Rightarrow> u8 list \<Rightarrow> fs_state option" where
  "mount_partition s dsk cur_part nm behind = do {
     cur \<leftarrow> find_part (take 4 (primary dsk) @ take 4 (logic dsk)) nm cur_part;
     part \<leftarrow> cur;
     mount_at s part behind }"

section \<open>The start of the server\<close>

text \<open>The magic that a partition is expected to have is \<open>"hmily"\<close> for the primary and
  \<open>"Shmily"\<close> for the logical partitions.\<close>

fun install_all :: "fs_state \<Rightarrow> partition list \<Rightarrow> bool \<Rightarrow> u8 list \<Rightarrow> fs_state option" where
  "install_all s [] skip_extend mag = Some s"
| "install_all s (p # ps) skip_extend mag =
     (if sector_cnt p = 0 \<or> skip_extend \<and> part_type p = EXTEND then install_all s ps skip_extend mag
      else do {
        e \<leftarrow> strcmp (read_disk s (start_lba p + 1)) 0 mag 0;
        s1 \<leftarrow> (if \<not> e then partition_install_fs s p else Some s);
        install_all s1 ps skip_extend mag })"

definition init_fs :: "fs_state \<Rightarrow> disk_table \<Rightarrow> u8 list \<Rightarrow> fs_state option" where
  "init_fs s dsk behind = do {
     s1 \<leftarrow> install_all s (take 4 (primary dsk)) True [104, 109, 105, 108, 121, 0];
     s2 \<leftarrow> install_all s1 (take 4 (logic dsk)) False (fs_magic @ [0]);
     s3 \<leftarrow> mount_partition s2 dsk None [115, 100, 97, 48, 0] behind;
     Some (s3\<lparr>file_desc_tbl := replicate 64 None, fs_uid := 0\<rparr>) }"

section \<open>The numbers of the super block\<close>

definition part_ok :: "partition \<Rightarrow> bool" where
  "part_ok p \<longleftrightarrow> 16 \<le> unat (sector_cnt p) \<and> unat (sector_cnt p) < 2 ^ 30 \<and> unat (start_lba p) < 2 ^ 31"

lemma unat_DIV_ROUND_UP: "unat x + 4096 < 2 ^ 32 \<Longrightarrow> unat (DIV_ROUND_UP x 4096) = (unat x + 4095) div 4096"
proof -
  assume "unat x + 4096 < 2 ^ 32"
  then have "unat (x + 4096) = unat x + 4096" by (subst unat_add_small) simp_all
  moreover have "(1 :: u32) \<le> x + 4096" using calculation by (simp add: word_le_nat_alt)
  ultimately have "unat (x + 4096 - 1) = unat x + 4095" by (subst unat_sub) simp_all
  then show ?thesis by (simp add: DIV_ROUND_UP_def unat_div)
qed

text \<open>The numbers of the super block, from the number \<open>it\<close> of sectors of the inode table and the number
  \<open>bb\<close> of sectors of the block bitmap.\<close>

lemma new_super_block_nums:
  assumes "part_ok part"
  obtains it bb where "it = 8 \<or> it = 128" "1 \<le> bb" "4096 * bb \<le> unat (sector_cnt part) + 4096"
    "unat (block_bitmap_lba (new_super_block part)) = unat (start_lba part) + 2"
    "unat (block_bitmap_sectors (new_super_block part)) = bb"
    "unat (inode_bitmap_lba (new_super_block part)) = unat (start_lba part) + 2 + bb"
    "inode_bitmap_sectors (new_super_block part) = 1"
    "unat (inode_table_lba (new_super_block part)) = unat (start_lba part) + 3 + bb"
    "unat (inode_table_sectors (new_super_block part)) = it"
    "unat (data_start (new_super_block part)) = unat (start_lba part) + 3 + bb + it"
proof -
  let ?c = "sector_cnt part" and ?s = "start_lba part"
  define it :: u32 where "it = (if 10000 < ?c then 128 else 8)"
  define fr where "fr = ?c - 1 - it - 2"
  define bm where "bm = DIV_ROUND_UP fr 4096"
  define bb where "bb = DIV_ROUND_UP (fr - bm) 4096"
  have c: "16 \<le> unat ?c" "unat ?c < 2 ^ 30" "unat ?s < 2 ^ 31" using assms by (auto simp: part_ok_def)
  have itc: "unat it = 8 \<and> 16 \<le> unat ?c \<or> unat it = 128 \<and> 10000 < unat ?c"
    using c(1) by (auto simp: it_def word_less_nat_alt)
  have "unat (?c - 1) = unat ?c - 1" using c by (subst unat_sub) (auto simp: word_le_nat_alt)
  moreover have "unat (?c - 1 - it) = unat (?c - 1) - unat it"
    using itc calculation by (subst unat_sub) (auto simp: word_le_nat_alt)
  moreover have "unat (?c - 1 - it - 2) = unat (?c - 1 - it) - 2"
    using itc calculation by (subst unat_sub) (auto simp: word_le_nat_alt)
  ultimately have fr: "unat fr = unat ?c - unat it - 3" "1 \<le> unat fr" "unat fr < 2 ^ 30"
    using itc c by (auto simp: fr_def)
  have bm: "unat bm = (unat fr + 4095) div 4096" unfolding bm_def using fr by (intro unat_DIV_ROUND_UP) simp
  have lt: "unat bm < unat fr" using bm fr(2) itc c(1) fr(1) by (auto simp: div_less_iff_less_mult)
  then have sub: "unat (fr - bm) = unat fr - unat bm" by (intro unat_sub) (simp add: word_le_nat_alt)
  then have bb: "unat bb = (unat fr - unat bm + 4095) div 4096" unfolding bb_def using fr by (subst unat_DIV_ROUND_UP) simp_all
  have bb1: "1 \<le> unat bb" using bb lt by (simp add: div_greater_zero_iff)
  have bb2: "4096 * unat bb \<le> unat ?c + 4096"
    using bb fr(1) times_div_less_eq_dividend [of 4096 "unat fr - unat bm + 4095"] by linarith
  have d: "new_super_block part = \<lparr>magic = fs_magic @ [0], is_sufficient = (10000 < ?c), sectors_nr = ?c, inodes_nr = 0,
      sb_start_lba = ?s, block_bitmap_lba = ?s + 2, block_bitmap_sectors = bb, inode_bitmap_lba = ?s + 2 + bb,
      inode_bitmap_sectors = 1, inode_table_lba = ?s + 2 + bb + 1, inode_table_sectors = it,
      data_start = ?s + 2 + bb + 1 + it, root_inode_no = 0, dir_entry_size = 72\<rparr>"
    by (simp add: new_super_block_def Let_def bb_def bm_def fr_def it_def DIV_ROUND_UP_def)
  have u2: "unat (?s + 2) = unat ?s + 2" using c by (subst unat_add_small) simp_all
  have u3: "unat (?s + 2 + bb) = unat ?s + 2 + unat bb" using u2 c bb2 by (subst unat_add_small) simp_all
  have u4: "unat (?s + 2 + bb + 1) = unat ?s + 3 + unat bb" using u3 c bb2 by (subst unat_add_small) simp_all
  have u5: "unat (?s + 2 + bb + 1 + it) = unat ?s + 3 + unat bb + unat it" using u4 c bb2 itc by (subst unat_add_small) auto
  have it2: "unat it = 8 \<or> unat it = 128" using itc by auto
  show ?thesis using that [OF it2 bb1 bb2] u2 u3 u4 u5 by (simp add: d)
qed

lemma decode_encode_sb:
  assumes "length (magic d) = 7"
  shows "decode_sb (encode_sb d @ pad) = d"
proof -
  let ?ws = "[sectors_nr d, inodes_nr d, sb_start_lba d, block_bitmap_lba d, block_bitmap_sectors d,
         inode_bitmap_lba d, inode_bitmap_sectors d, inode_table_lba d, inode_table_sectors d, data_start d,
         root_inode_no d, dir_entry_size d]"
  have w: "dec32 (drop (8 + 4 * k) (encode_sb d @ pad)) = ?ws ! k" if "k < 12" for k
  proof -
    define ws where "ws = ?ws"
    have len: "length ws = 12" by (simp add: ws_def)
    have e: "encode_sb d = magic d @ [if is_sufficient d then 1 else 0] @ concat (map enc32 ws)"
      by (simp add: encode_sb_def ws_def)
    have "drop (8 + 4 * k) (encode_sb d @ pad) = drop (4 * k) (concat (map enc32 ws)) @ pad"
      using that assms len by (simp add: e drop_append)
    moreover have "dec32 (drop (4 * k) (concat (map enc32 ws)) @ pad) = dec32 (drop (4 * k) (concat (map enc32 ws)))"
      using that len by (simp add: dec32_def nth_append)
    ultimately show ?thesis using concat_enc32_drop [of k ws] that len by (simp add: ws_def [symmetric])
  qed
  have "take 7 (encode_sb d @ pad) = magic d" "(encode_sb d @ pad) ! 7 = (if is_sufficient d then 1 else 0)"
    using assms by (simp_all add: encode_sb_def nth_append)
  then show ?thesis
    using w [of 0] w [of 1] w [of 2] w [of 3] w [of 4] w [of 5] w [of 6] w [of 7] w [of 8] w [of 9] w [of 10] w [of 11]
    by (simp add: decode_sb_def Let_def)
qed

lemma length_encode_sb: "length (magic d) = 7 \<Longrightarrow> length (encode_sb d) = 56"
  by (simp add: encode_sb_def)

text \<open>A run of sectors that was written is read back.\<close>

lemma concat_chunks: "sector_size * n \<le> length buf \<Longrightarrow>
   concat (map (\<lambda>k. take sector_size (drop (sector_size * k) buf)) [0 ..< n]) = take (sector_size * n) buf"
proof (induction n)
  case (Suc n)
  then have "concat (map (\<lambda>k. take sector_size (drop (sector_size * k) buf)) [0 ..< n]) = take (sector_size * n) buf" by simp
  moreover have "take (sector_size * Suc n) buf = take (sector_size * n) buf @ take sector_size (drop (sector_size * n) buf)"
    by (simp only: mult_Suc_right take_add add.commute [of sector_size])
  ultimately show ?case by simp
qed simp

lemma read_written:
  assumes "sector_size * n \<le> length buf" "unat lba + n \<le> 2 ^ 32"
    and "\<And>x. unat lba \<le> unat x \<Longrightarrow> unat x < unat lba + n \<Longrightarrow> fdisk s x = take sector_size (drop (sector_size * (unat x - unat lba)) buf)"
  shows "read_sectors s lba n = take (sector_size * n) buf"
proof -
  have "read_disk s (lba + of_nat k) = take sector_size (drop (sector_size * k) buf)" if "k < n" for k
  proof -
    have k: "unat (of_nat k :: u32) = k" using that assms(2) unat_u32 [of lba] by (intro unat_of_nat_small) simp
    have "unat (lba + of_nat k) = unat lba + k" using k that assms(2) by (subst unat_add_small) simp_all
    then show ?thesis using assms(3) [of "lba + of_nat k"] that by (simp add: read_disk_def)
  qed
  then have "map (\<lambda>k. read_disk s (lba + of_nat k)) [0 ..< n] = map (\<lambda>k. take sector_size (drop (sector_size * k) buf)) [0 ..< n]"
    by simp
  then show ?thesis unfolding read_sectors_def using concat_chunks [OF assms(1)] by (rule trans [OF arg_cong])
qed

text \<open>The sectors of a new file system.\<close>

definition part_buf :: "super_block_data \<Rightarrow> nat" where
  "part_buf d = unat ((if inode_table_sectors d < block_bitmap_sectors d then block_bitmap_sectors d else inode_table_sectors d) * 512)"

definition new_root :: "nat \<Rightarrow> u8 list" where
  "new_root n = put (put (replicate n 0) 0 [46]) sizeof_dir_entry [46, 46]"

lemma root_entries_ok: "512 \<le> n \<Longrightarrow> root_entries (replicate n 0) = Some (new_root n)"
proof -
  assume n: "512 \<le> n"
  have z: "put b p (enc32 0) = b" if "p + 4 \<le> length b" "\<forall>k < 4. b ! (p + k) = 0" for b p
  proof (rule nth_equalityI)
    fix i
    assume "i < length (put b p (enc32 0))"
    then have i: "i < length b" using that(1) by simp
    have "enc32 0 ! j = 0" if "j < 4" for j
      using that by (simp add: enc32_def nth_Cons split: nat.splits)
    moreover have "b ! i = 0" if "p \<le> i" "i < p + 4"
      using \<open>\<forall>k < 4. b ! (p + k) = 0\<close> that by (metis add_less_cancel_left le_add_diff_inverse)
    ultimately show "put b p (enc32 0) ! i = b ! i" using i that(1) by (auto simp: nth_put)
  qed (use that in simp)
  let ?b1 = "put (replicate n 0) 0 [46 :: u8]"
  have m1: "memcpy (replicate n 0) 0 [46, 0] 0 1 = Some ?b1" using n by (subst memcpy_put) simp_all
  have s1: "store32 ?b1 64 0 = Some ?b1" using n by (simp add: store32_def z nth_put)
  have m2: "memcpy ?b1 sizeof_dir_entry [46, 46, 0] 0 2 = Some (new_root n)"
    using n by (subst memcpy_put) (simp_all add: new_root_def)
  have s2: "store32 (new_root n) (sizeof_dir_entry + 64) 0 = Some (new_root n)"
    using n by (simp add: store32_def z nth_put new_root_def)
  show ?thesis unfolding root_entries_def using m1 s1 m2 s2 by simp
qed

abbreviation chunk :: "u8 list \<Rightarrow> nat \<Rightarrow> u8 list" where
  "chunk buf k \<equiv> take sector_size (drop (sector_size * k) buf)"

lemma part_buf_eq:
  assumes "unat (inode_table_sectors d) = it" "unat (block_bitmap_sectors d) = bb" "it < 2 ^ 20" "bb < 2 ^ 20"
  shows "part_buf d = sector_size * max it bb"
proof -
  let ?m = "if inode_table_sectors d < block_bitmap_sectors d then block_bitmap_sectors d else inode_table_sectors d"
  have m: "unat ?m = max it bb" using assms(1,2) by (auto simp: word_less_nat_alt)
  have "unat (?m * 512) = unat ?m * 512" using m assms(3,4) by (subst unat_mult_small) auto
  then show ?thesis unfolding part_buf_def using m by simp
qed

text \<open>The disk after a run of sectors was written, and after a file system was made.\<close>

definition region :: "u32 \<Rightarrow> nat \<Rightarrow> u8 list \<Rightarrow> (u32 \<Rightarrow> u8 list) \<Rightarrow> u32 \<Rightarrow> u8 list" where
  "region lba n buf D x = (if unat lba \<le> unat x \<and> unat x < unat lba + n then chunk buf (unat x - unat lba) else D x)"

definition map_buf :: "nat \<Rightarrow> u8 list" where
  "map_buf B = (replicate B 0)[0 := 1]"

definition table_buf :: "super_block_data \<Rightarrow> nat \<Rightarrow> u8 list" where
  "table_buf d B = put (replicate B 0) 0 (encode_inode (root_inode d))"

definition new_disk :: "partition \<Rightarrow> (u32 \<Rightarrow> u8 list) \<Rightarrow> u32 \<Rightarrow> u8 list" where
  "new_disk part D =
     (let d = new_super_block part; B = part_buf d;
          D1 = D(start_lba part + 1 := encode_sb d @ replicate 456 0);
          D2 = region (block_bitmap_lba d) (unat (block_bitmap_sectors d)) (map_buf B) D1;
          D3 = region (inode_bitmap_lba d) (unat (inode_bitmap_sectors d)) (map_buf B) D2;
          D4 = region (inode_table_lba d) (unat (inode_table_sectors d)) (table_buf d B) D3
      in region (data_start d) 3 (new_root B) D4)"

lemma write_region:
  "sector_size * k \<le> length buf \<Longrightarrow> unat lba + k \<le> 2 ^ 32 \<Longrightarrow>
   write_sectors (s\<lparr>fdisk := D\<rparr>) lba buf k = Some (s\<lparr>fdisk := region lba k buf D\<rparr>)"
proof -
  assume h: "sector_size * k \<le> length buf" "unat lba + k \<le> 2 ^ 32"
  have "(\<lambda>x. if unat lba \<le> unat x \<and> unat x < unat lba + k then chunk buf (unat x - unat lba) else fdisk (s\<lparr>fdisk := D\<rparr>) x)
      = region lba k buf D" by (simp add: region_def fun_eq_iff)
  then show ?thesis using write_sectors_ok [OF h, of "s\<lparr>fdisk := D\<rparr>"] by simp
qed

lemma root_inode_length: "length (encode_inode (root_inode d)) = 64"
  by (rule length_encode_inode) (simp add: root_inode_def)

text \<open>All numbers of a new file system, with the size of the buffer.\<close>

lemma install_nums:
  assumes "part_ok part"
  defines "d \<equiv> new_super_block part" and "B \<equiv> part_buf (new_super_block part)"
  obtains it bb where "it = 8 \<or> it = 128" "1 \<le> bb" "4096 * bb \<le> unat (sector_cnt part) + 4096" "bb \<le> 2 ^ 18 + 1"
    "unat (block_bitmap_lba d) = unat (start_lba part) + 2" "unat (block_bitmap_sectors d) = bb"
    "unat (inode_bitmap_lba d) = unat (start_lba part) + 2 + bb" "unat (inode_bitmap_sectors d) = 1"
    "unat (inode_table_lba d) = unat (start_lba part) + 3 + bb" "unat (inode_table_sectors d) = it"
    "unat (data_start d) = unat (start_lba part) + 3 + bb + it" "unat (start_lba part + 1) = unat (start_lba part) + 1"
    "4096 \<le> B" "sector_size * bb \<le> B" "sector_size * it \<le> B" "unat (start_lba part) < 2 ^ 31"
proof -
  have c: "unat (sector_cnt part) < 2 ^ 30" "unat (start_lba part) < 2 ^ 31" using assms(1) by (auto simp: part_ok_def)
  have st1: "unat (start_lba part + 1) = unat (start_lba part) + 1" using c(2) by (subst unat_add_small) simp_all
  show ?thesis
  proof (rule new_super_block_nums [OF assms(1)], fold d_def)
    fix it bb
    assume n: "it = 8 \<or> it = 128" "1 \<le> bb" "4096 * bb \<le> unat (sector_cnt part) + 4096"
      "unat (block_bitmap_lba d) = unat (start_lba part) + 2" "unat (block_bitmap_sectors d) = bb"
      "unat (inode_bitmap_lba d) = unat (start_lba part) + 2 + bb" "inode_bitmap_sectors d = 1"
      "unat (inode_table_lba d) = unat (start_lba part) + 3 + bb" "unat (inode_table_sectors d) = it"
      "unat (data_start d) = unat (start_lba part) + 3 + bb + it"
    have bb: "bb \<le> 2 ^ 18 + 1" using n(3) c(1) by simp
    have B: "B = sector_size * max it bb" unfolding B_def d_def [symmetric] using n(1,5,9) bb by (intro part_buf_eq) auto
    have "4096 \<le> B" "sector_size * bb \<le> B" "sector_size * it \<le> B" using B n(1) by auto
    moreover have "unat (inode_bitmap_sectors d) = 1" by (simp add: n(7))
    ultimately show ?thesis using that n bb st1 c(2) by blast
  qed
qed

lemma install_writes:
  assumes "part_ok part"
  shows "partition_install_fs s part = Some (s\<lparr>fdisk := new_disk part (fdisk s)\<rparr>)"
proof (rule install_nums [OF assms])
  define d where "d = new_super_block part"
  define B where "B = part_buf d"
  fix it bb
  assume "it = 8 \<or> it = 128" "1 \<le> bb" "4096 * bb \<le> unat (sector_cnt part) + 4096" "bb \<le> 2 ^ 18 + 1"
    "unat (block_bitmap_lba (new_super_block part)) = unat (start_lba part) + 2" "unat (block_bitmap_sectors (new_super_block part)) = bb"
    "unat (inode_bitmap_lba (new_super_block part)) = unat (start_lba part) + 2 + bb" "unat (inode_bitmap_sectors (new_super_block part)) = 1"
    "unat (inode_table_lba (new_super_block part)) = unat (start_lba part) + 3 + bb" "unat (inode_table_sectors (new_super_block part)) = it"
    "unat (data_start (new_super_block part)) = unat (start_lba part) + 3 + bb + it"
    "4096 \<le> part_buf (new_super_block part)" "sector_size * bb \<le> part_buf (new_super_block part)"
    "sector_size * it \<le> part_buf (new_super_block part)" "unat (start_lba part) < 2 ^ 31"
  note n = this [folded d_def, folded B_def]
  have "length (magic d) = 7" by (simp add: d_def new_super_block_def Let_def fs_magic_def)
  then have sec: "write_disk s (start_lba part + 1) (encode_sb d @ replicate 456 0)
      = s\<lparr>fdisk := (fdisk s)(start_lba part + 1 := encode_sb d @ replicate 456 0)\<rparr>"
    by (simp add: write_disk_def length_encode_sb)
  have len: "length (map_buf B) = B" "length (table_buf d B) = B" "length (new_root B) = B"
    using n(12) root_inode_length [of d] by (simp_all add: map_buf_def table_buf_def new_root_def)
  have w: "write_sectors (s\<lparr>fdisk := D\<rparr>) (block_bitmap_lba d) (map_buf B) bb = Some (s\<lparr>fdisk := region (block_bitmap_lba d) bb (map_buf B) D\<rparr>)"
    "write_sectors (s\<lparr>fdisk := D\<rparr>) (inode_bitmap_lba d) (map_buf B) 1 = Some (s\<lparr>fdisk := region (inode_bitmap_lba d) 1 (map_buf B) D\<rparr>)"
    "write_sectors (s\<lparr>fdisk := D\<rparr>) (inode_table_lba d) (table_buf d B) it = Some (s\<lparr>fdisk := region (inode_table_lba d) it (table_buf d B) D\<rparr>)"
    "write_sectors (s\<lparr>fdisk := D\<rparr>) (data_start d) (new_root B) 3 = Some (s\<lparr>fdisk := region (data_start d) 3 (new_root B) D\<rparr>)" for D
    by (rule write_region; use len n in auto)+
  have st: "store (replicate B 0) 0 1 = Some (map_buf B)" using n(12) by (simp add: mem_simps map_buf_def)
  have re: "root_entries (replicate B 0) = Some (new_root B)" using n(12) by (intro root_entries_ok) simp
  show ?thesis
    unfolding partition_install_fs_def new_disk_def Let_def d_def [symmetric] part_buf_def [symmetric]
    unfolding B_def [symmetric] n(6,8,10) sec using w st re by (simp add: table_buf_def)
qed

lemma new_disk_reads:
  assumes "part_ok part"
  defines "d \<equiv> new_super_block part" and "B \<equiv> part_buf (new_super_block part)"
  shows "new_disk part D (start_lba part + 1) = encode_sb d @ replicate 456 0"
    "unat (block_bitmap_lba d) \<le> unat x \<Longrightarrow> unat x < unat (block_bitmap_lba d) + unat (block_bitmap_sectors d)
       \<Longrightarrow> new_disk part D x = chunk (map_buf B) (unat x - unat (block_bitmap_lba d))"
    "new_disk part D (inode_bitmap_lba d) = chunk (map_buf B) 0"
    "new_disk part D (inode_table_lba d) = chunk (table_buf d B) 0"
    "new_disk part D (data_start d) = chunk (new_root B) 0"
proof -
  have "new_disk part D (start_lba part + 1) = encode_sb d @ replicate 456 0
    \<and> (unat (block_bitmap_lba d) \<le> unat x \<longrightarrow> unat x < unat (block_bitmap_lba d) + unat (block_bitmap_sectors d)
       \<longrightarrow> new_disk part D x = chunk (map_buf B) (unat x - unat (block_bitmap_lba d)))
    \<and> new_disk part D (inode_bitmap_lba d) = chunk (map_buf B) 0
    \<and> new_disk part D (inode_table_lba d) = chunk (table_buf d B) 0
    \<and> new_disk part D (data_start d) = chunk (new_root B) 0"
  proof (rule install_nums [OF assms(1)], fold d_def B_def)
    fix it bb
    assume "it = 8 \<or> it = 128" "1 \<le> bb"
      "unat (block_bitmap_lba d) = unat (start_lba part) + 2" "unat (block_bitmap_sectors d) = bb"
      "unat (inode_bitmap_lba d) = unat (start_lba part) + 2 + bb" "unat (inode_bitmap_sectors d) = 1"
      "unat (inode_table_lba d) = unat (start_lba part) + 3 + bb" "unat (inode_table_sectors d) = it"
      "unat (data_start d) = unat (start_lba part) + 3 + bb + it" "unat (start_lba part + 1) = unat (start_lba part) + 1"
    note n = this
    have neq: "x \<noteq> start_lba part + 1" if "unat (start_lba part) + 2 \<le> unat x" for x
      using that n(10) by auto
    show ?thesis
      unfolding new_disk_def Let_def d_def [symmetric] B_def [symmetric, folded d_def] n(4,6,8)
      using n neq by (auto simp: region_def)
  qed
  then show "new_disk part D (start_lba part + 1) = encode_sb d @ replicate 456 0"
    "unat (block_bitmap_lba d) \<le> unat x \<Longrightarrow> unat x < unat (block_bitmap_lba d) + unat (block_bitmap_sectors d)
       \<Longrightarrow> new_disk part D x = chunk (map_buf B) (unat x - unat (block_bitmap_lba d))"
    "new_disk part D (inode_bitmap_lba d) = chunk (map_buf B) 0"
    "new_disk part D (inode_table_lba d) = chunk (table_buf d B) 0"
    "new_disk part D (data_start d) = chunk (new_root B) 0" by blast+
qed

lemma first_bit_used:
  assumes "\<And>i. i < unat (bytes_len b) \<Longrightarrow> base b ! i = (if i = 0 then 1 else 0)" "0 < unat (bytes_len b)"
  shows "bm_used b = {0}"
proof -
  have "bm_bit b i \<longleftrightarrow> i = 0" if "i < bm_cap b" for i
  proof -
    have "i div 8 < unat (bytes_len b)" using that by (simp add: bm_cap_def)
    then have "bm_bit b i \<longleftrightarrow> bit (if i div 8 = 0 then 1 else 0 :: u8) (i mod 8)" using assms(1) by (simp add: bm_bit_def)
    then show ?thesis by (auto simp: bit_1_iff)
  qed
  moreover have "0 < bm_cap b" using assms(2) by (simp add: bm_cap_def)
  ultimately show ?thesis by (auto simp: bm_used_def)
qed

text \<open>The root directory of a new file system.\<close>

lemma new_root_sector: "512 \<le> n \<Longrightarrow> chunk (new_root n) 0 = new_root 512"
  by (intro nth_equalityI) (auto simp: new_root_def nth_put)

lemma new_root_names:
  "sector_wf (new_root 512)" "ename (new_root 512) 0 = [46]" "ename (new_root 512) 1 = [46, 46]"
  "eino (new_root 512) 0 = 0" "eino (new_root 512) 1 = 0"
proof -
  have nth: "new_root 512 ! i = (if i = 0 \<or> i = 72 \<or> i = 73 then 46 else 0)" if "i < 512" for i
    using that by (auto simp: new_root_def nth_put nth_Cons split: nat.splits)
  have len: "length (new_root 512) = 512" by (simp add: new_root_def)
  show "ename (new_root 512) 0 = [46]" "ename (new_root 512) 1 = [46, 46]"
    using nth len by (auto intro!: ename_eqI)
  show "sector_wf (new_root 512)"
  proof (rule sector_wfI)
    fix j :: nat
    assume j: "j < entries_per_sector"
    have "cstr (new_root 512) (sizeof_dir_entry * j) (if j = 0 then [46] else if j = 1 then [46, 46] else [])"
      using j nth len by auto
    then show "\<exists>nm. length nm < 64 \<and> cstr (new_root 512) (sizeof_dir_entry * j) nm" by (intro exI) auto
  qed (use len in simp)
  have "dec32 (drop p (new_root 512)) = 0" if "74 \<le> p \<or> p = 64" "p + 4 \<le> 512" for p
    using that nth len by (auto simp: dec32_def)
  then show "eino (new_root 512) 0 = 0" "eino (new_root 512) 1 = 0" by (simp_all add: eino_def)
qed

lemma root_lookup:
  assumes "sectors i = lba # replicate 8 0" "lba \<noteq> 0" "fdisk s lba = new_root 512"
  shows "dir_wf s i" "dir_lookup s i [46] = 0" "dir_lookup s i [46, 46] = 0"
proof -
  show "dir_wf s i" using assms new_root_names(1) by (simp add: dir_wf_def)
  have sl: "dir_slots (sectors i) = (lba, 0) # (lba, 1) # map (Pair lba) [2 ..< 7]"
    using assms(2) by (simp add: assms(1) dir_slots_def upt_rec)
  show "dir_lookup s i [46] = 0" "dir_lookup s i [46, 46] = 0"
    using new_root_names unfolding dir_lookup_def lookup_slots_def sl by (simp_all add: slot_name_def slot_ino_def assms(3))
qed

lemma mounted_layout:
  assumes "part_ok part" "behind \<noteq> []" "sb_data s = new_super_block part"
    "block_bmap s = \<lparr>bytes_len = block_bitmap_sectors (sb_data s) * 512,
       base = take (sector_size * unat (block_bitmap_sectors (sb_data s))) (map_buf (part_buf (sb_data s))) @ behind\<rparr>"
    "inode_bmap s = \<lparr>bytes_len = inode_bitmap_sectors (sb_data s) * 512,
       base = take (sector_size * unat (inode_bitmap_sectors (sb_data s))) (map_buf (part_buf (sb_data s))) @ behind\<rparr>"
  shows "layout_ok s \<and> bm_used (block_bmap s) = {0} \<and> bm_used (inode_bmap s) = {0}"
proof (rule install_nums [OF assms(1)], fold assms(3))
  let ?d = "sb_data s" and ?m = "map_buf (part_buf (sb_data s))"
  fix it bb
  assume "it = 8 \<or> it = 128" "1 \<le> bb" "4096 * bb \<le> unat (sector_cnt part) + 4096" "bb \<le> 2 ^ 18 + 1"
    "unat (block_bitmap_lba ?d) = unat (start_lba part) + 2" "unat (block_bitmap_sectors ?d) = bb"
    "unat (inode_bitmap_lba ?d) = unat (start_lba part) + 2 + bb" "unat (inode_bitmap_sectors ?d) = 1"
    "unat (inode_table_lba ?d) = unat (start_lba part) + 3 + bb" "unat (inode_table_sectors ?d) = it"
    "unat (data_start ?d) = unat (start_lba part) + 3 + bb + it"
    "4096 \<le> part_buf ?d" "sector_size * bb \<le> part_buf ?d" "unat (start_lba part) < 2 ^ 31"
  note n = this
  have bl: "unat (block_bitmap_sectors ?d * 512) = sector_size * bb" "unat (inode_bitmap_sectors ?d * 512) = sector_size"
    using n(4,6,8) by (simp_all add: unat_mult_small)
  have len: "length ?m = part_buf ?d" by (simp add: map_buf_def)
  have nth: "?m ! i = (if i = 0 then 1 else 0)" if "i < part_buf ?d" for i using that by (simp add: map_buf_def nth_list_update)
  have used: "bm_used (block_bmap s) = {0}" "bm_used (inode_bmap s) = {0}"
    using assms(4,5) bl n(2,6,8,12,13) len nth by (auto intro!: first_bit_used simp: nth_append)
  have b: "length (base (block_bmap s)) = sector_size * bb + length behind" "unat (bytes_len (block_bmap s)) = sector_size * bb"
    "length (base (inode_bmap s)) = sector_size + length behind" "unat (bytes_len (inode_bmap s)) = sector_size"
    using assms(4,5) bl n(6,8,12,13) len by simp_all
  have "0 < length behind" using assms(2) by simp
  then have wf: "bm_wf (block_bmap s)" "bm_wf (inode_bmap s)" using b n(4) unfolding bm_wf_def by auto
  have "0 < unat (data_start ?d)" using n(11) by simp
  then have "0 < data_start ?d" by (simp add: word_less_nat_alt)
  moreover have "unat (data_start ?d) + bm_cap (block_bmap s) < 2 ^ 32" unfolding bm_cap_def b(2) using n(1,4,11,14) by auto
  ultimately show ?thesis using used wf b n unfolding layout_ok_def Let_def by simp
qed

text \<open>C19: making a file system on a partition and mounting it gives a file system with the layout
  that the operations on files rely on, in which only the first block and the first inode are in
  use and the root directory has the entries \<open>.\<close> and \<open>..\<close>, which are the root itself.\<close>

theorem fresh_file_system:
  assumes "part_ok part" and "length (cur_dir s) = 64" and "behind \<noteq> []"
  shows "\<exists>s1 s2. partition_install_fs s part = Some s1 \<and> mount_at s1 part behind = Some s2
    \<and> layout_ok s2 \<and> bm_used (block_bmap s2) = {0} \<and> bm_used (inode_bmap s2) = {0}
    \<and> dir_is_exists s2 [47, 46, 0] = Some 0 \<and> dir_is_exists s2 [47, 46, 46, 0] = Some 0"
proof -
  define d where "d = new_super_block part"
  define B where "B = part_buf d"
  define D where "D = new_disk part (fdisk s)"
  let ?s1 = "s\<lparr>fdisk := D\<rparr>"
  have inst: "partition_install_fs s part = Some ?s1" unfolding D_def by (rule install_writes [OF assms(1)])
  note R = new_disk_reads [OF assms(1), where D = "fdisk s", folded D_def d_def, folded B_def]
  have "length (magic d) = 7" by (simp add: d_def new_super_block_def Let_def fs_magic_def)
  then have sb: "decode_sb (read_disk ?s1 (start_lba part + 1)) = d" by (simp add: read_disk_def R(1) decode_encode_sb)
  have nums: "sector_size * unat (block_bitmap_sectors d) \<le> B \<and> unat (inode_bitmap_sectors d) = 1 \<and> 4096 \<le> B
    \<and> unat (block_bitmap_lba d) + unat (block_bitmap_sectors d) \<le> 2 ^ 32 \<and> unat (inode_bitmap_lba d) + 1 \<le> 2 ^ 32 \<and> data_start d \<noteq> 0"
    by (rule install_nums [OF assms(1)], fold d_def, fold B_def) auto
  have len: "length (map_buf B) = B" by (simp add: map_buf_def)
  have bb: "read_sectors ?s1 (block_bitmap_lba d) (unat (block_bitmap_sectors d)) = take (sector_size * unat (block_bitmap_sectors d)) (map_buf B)"
    using nums len by (intro read_written) (auto simp: R(2))
  have ib: "read_sectors ?s1 (inode_bitmap_lba d) (unat (inode_bitmap_sectors d)) = take (sector_size * unat (inode_bitmap_sectors d)) (map_buf B)"
  proof (rule read_written)
    fix x :: u32
    assume "unat (inode_bitmap_lba d) \<le> unat x" "unat x < unat (inode_bitmap_lba d) + unat (inode_bitmap_sectors d)"
    then have "x = inode_bitmap_lba d" using nums by (simp add: word_eq_iff_unat)
    then show "fdisk ?s1 x = chunk (map_buf B) (unat x - unat (inode_bitmap_lba d))" by (simp add: R(3))
  qed (use nums len in auto)
  have c0: "memset (cur_dir s) 0 0 64 = Some (put (cur_dir s) 0 (replicate 64 0))" using assms(2) by (intro memset_put) simp
  obtain c1 where c1: "strcpy (put (cur_dir s) 0 (replicate 64 0)) 0 [47, 0] 0 = Some c1"
    using strcpy_cstr [of "[47, 0]" 0 "[47]" 0 "put (cur_dir s) 0 (replicate 64 0)"] assms(2) by auto
  define s2 where "s2 = ?s1\<lparr>sb_data := d,
      block_bmap := \<lparr>bytes_len = block_bitmap_sectors d * 512, base = take (sector_size * unat (block_bitmap_sectors d)) (map_buf B) @ behind\<rparr>,
      inode_bmap := \<lparr>bytes_len = inode_bitmap_sectors d * 512, base = take (sector_size * unat (inode_bitmap_sectors d)) (map_buf B) @ behind\<rparr>,
      cur_dir := c1\<rparr>"
  have mnt: "mount_at ?s1 part behind = Some s2" using sb bb ib c0 c1 by (simp add: mount_at_def Let_def s2_def)
  have lay: "layout_ok s2 \<and> bm_used (block_bmap s2) = {0} \<and> bm_used (inode_bmap s2) = {0}"
    by (rule mounted_layout [OF assms(1,3)]) (simp_all add: s2_def d_def B_def)
  have "take 64 (chunk (table_buf d B) 0) = encode_inode (root_inode d)"
    using nums root_inode_length [of d] by (simp add: table_buf_def put_def)
  then have ino: "ino2inode s2 0 = root_inode d"
    by (simp add: ino2inode_def Let_def read_disk_def s2_def R(4) decode_encode_inode root_inode_def)
  have "fdisk s2 (data_start d) = new_root 512" using nums new_root_sector [of B] by (simp add: s2_def R(5))
  then have rl: "dir_wf s2 (ino2inode s2 0)" "dir_lookup s2 (ino2inode s2 0) [46] = 0" "dir_lookup s2 (ino2inode s2 0) [46, 46] = 0"
    using root_lookup [of "root_inode d" "data_start d" s2] nums by (simp_all add: ino root_inode_def)
  have r0: "root_inode_no (sb_data s2) = 0" by (simp add: s2_def d_def new_super_block_def Let_def)
  have "dir_is_exists s2 [47, 46, 0] = Some 0" "dir_is_exists s2 [47, 46, 46, 0] = Some 0"
    using dir_is_exists_ok [of "[47, 46, 0]" "[[46]]" s2] dir_is_exists_ok [of "[47, 46, 46, 0]" "[[46, 46]]" s2] rl
    by (simp_all add: r0 comp_ok_def NOT_FOUND_def)
  then show ?thesis using inst mnt lay by blast
qed

text \<open>When the server starts, a partition that holds a file system keeps it only if it is a
  logical one; on a primary partition a new file system is made, because its magic is compared with
  \<open>"hmily"\<close>.\<close>

lemma primary_partition_remade:
  assumes "fdisk s (start_lba p + 1) = encode_sb d @ pad" and "magic d = fs_magic @ [0]" and "sector_cnt p \<noteq> 0"
    and "part_type p \<noteq> EXTEND"
  shows "install_all s [p] True [104, 109, 105, 108, 121, 0] = partition_install_fs s p
    \<and> install_all s [p] False (fs_magic @ [0]) = Some s"
proof -
  have e: "\<exists>rest. encode_sb d @ pad = fs_magic @ 0 # rest" using assms(2) by (simp add: encode_sb_def)
  then obtain rest where "encode_sb d @ pad = fs_magic @ 0 # rest" by blast
  then have c: "cstr (read_disk s (start_lba p + 1)) 0 fs_magic"
    using assms(1) by (simp add: read_disk_def fs_magic_def)
  have m: "cstr [104, 109, 105, 108, 121, 0] 0 [104, 109, 105, 108, 121]" "cstr (fs_magic @ [0]) 0 fs_magic"
    by (simp_all add: fs_magic_def)
  have "strcmp (read_disk s (start_lba p + 1)) 0 [104, 109, 105, 108, 121, 0] 0 = Some False"
    "strcmp (read_disk s (start_lba p + 1)) 0 (fs_magic @ [0]) 0 = Some True"
    using strcmp_cstr [OF c m(1)] strcmp_cstr [OF c m(2)] by (simp_all add: fs_magic_def)
  then show ?thesis using assms(3,4) by (cases "partition_install_fs s p") simp_all
qed

text \<open>The bitmap of blocks of a small partition has more blocks than the partition has sectors.\<close>

lemma block_bitmap_too_large:
  assumes "part_ok part" "unat (sector_cnt part) < 4096"
  shows "unat (start_lba part) + unat (sector_cnt part)
    < unat (data_start (new_super_block part)) + 8 * (unat (block_bitmap_sectors (new_super_block part)) * 512)"
  by (rule install_nums [OF assms(1)]) (use assms(2) in linarith)

section \<open>Witnesses\<close>

definition small_part :: partition where
  "small_part = \<lparr>part_name = [115, 100, 97, 48] @ replicate 12 0, sector_cnt = 2000, start_lba = 63, part_type = PRIMARY\<rparr>"

lemma small_part_ok: "part_ok small_part"
  by (simp add: part_ok_def small_part_def)

theorem fresh_file_system_witness:
  "\<exists>s1 s2. partition_install_fs small_fs small_part = Some s1 \<and> mount_at s1 small_part [0] = Some s2
    \<and> layout_ok s2 \<and> bm_used (block_bmap s2) = {0} \<and> dir_is_exists s2 [47, 46, 46, 0] = Some 0"
  using fresh_file_system [OF small_part_ok, of small_fs "[0]"] by (auto simp: small_fs_def)

end
