(* ===== verification/Doublebit_Map.thy ===== *)
theory Doublebit_Map
  imports Lib_String
begin

text \<open>
  Model of \<open>mm/doublebit_map.cc\<close>, the map of the virtual pages with two bits per page: free,
  used on its own (or inside a sequence), first and last page of a sequence.

  A page map is an object of bytes; an access outside it is \<open>None\<close>. \<open>initialize\<close> passes
  the arguments of \<open>memset\<close> in the wrong order and so writes nothing. The loops of
  \<open>get_free_slots\<close> and \<open>sync\<close> are recursive functions; the loop of \<open>free_slots\<close> runs
  until it finds the end of a sequence and is a partial function.

  The theory shows that reading a slot after writing one behaves like an array of two-bit
  values, that an allocation takes the first run of free slots and marks it as one sequence,
  and that freeing what was allocated frees exactly that run and returns its length.
\<close>

section \<open>Operations\<close>

record doublebit_map =
  db_bytes_len :: u32
  db_base :: "u8 list"

definition SLOT_FREE :: u8 where "SLOT_FREE = 0"
definition SLOT_USED_SINGLE :: u8 where "SLOT_USED_SINGLE = 1"
definition SLOT_SEQ_START :: u8 where "SLOT_SEQ_START = 2"
definition SLOT_SEQ_END :: u8 where "SLOT_SEQ_END = 3"

lemmas slot_consts = SLOT_FREE_def SLOT_USED_SINGLE_def SLOT_SEQ_START_def SLOT_SEQ_END_def

text \<open>The length is passed as the value to write, and zero as the count.\<close>

definition db_initialize :: "u32 \<Rightarrow> u8 list \<Rightarrow> doublebit_map option" where
  "db_initialize len obj = do {
     b \<leftarrow> memset obj 0 (ucast len) 0;
     Some \<lparr>db_bytes_len = len, db_base = b\<rparr> }"

definition get_slot_status :: "doublebit_map \<Rightarrow> u32 \<Rightarrow> u8 option" where
  "get_slot_status d idx0 = do {
     let idx = idx0 * 2;
     let byte_idx = unat (idx div 8);
     let bit_idx = unat (idx mod 8);
     c \<leftarrow> load (db_base d) byte_idx;
     Some (drop_bit bit_idx (c AND push_bit bit_idx 3)) }"

definition set_slot_value :: "doublebit_map \<Rightarrow> u32 \<Rightarrow> u8 \<Rightarrow> doublebit_map option" where
  "set_slot_value d idx0 val = do {
     let idx = idx0 * 2;
     let byte_idx = unat (idx div 8);
     let bit_idx = unat (idx mod 8);
     c \<leftarrow> load (db_base d) byte_idx;
     b1 \<leftarrow> store (db_base d) byte_idx (c AND NOT (push_bit bit_idx 3));
     c1 \<leftarrow> load b1 byte_idx;
     b2 \<leftarrow> store b1 byte_idx (c1 OR push_bit bit_idx val);
     Some (d\<lparr>db_base := b2\<rparr>) }"

function sync_middle :: "doublebit_map \<Rightarrow> u32 \<Rightarrow> u32 \<Rightarrow> u32 \<Rightarrow> doublebit_map option" where
  "sync_middle d start cnt i =
     (if i < cnt - 1 then
        (case set_slot_value d (start + i) SLOT_USED_SINGLE of
           None \<Rightarrow> None
         | Some d' \<Rightarrow> sync_middle d' start cnt (i + 1))
      else Some d)"
  by pat_completeness auto
termination
proof (relation "measure (\<lambda>(d, start, cnt, i). unat (cnt - 1) - unat i)")
  fix d d' and start cnt i :: u32
  assume "i < cnt - 1"
  then show "((d', start, cnt, i + 1), d, start, cnt, i) \<in> measure (\<lambda>(d, start, cnt, i). unat (cnt - 1) - unat i)"
    using unat_inc [of i "cnt - 1"] by (simp add: word_less_nat_alt)
qed simp

declare sync_middle.simps [simp del]

definition db_sync :: "doublebit_map \<Rightarrow> u32 \<Rightarrow> u32 \<Rightarrow> doublebit_map option" where
  "db_sync d start cnt =
     (if cnt = 1 then set_slot_value d start SLOT_USED_SINGLE
      else do {
        d1 \<leftarrow> set_slot_value d start SLOT_SEQ_START;
        d2 \<leftarrow> sync_middle d1 start cnt 1;
        set_slot_value d2 (start + cnt - 1) SLOT_SEQ_END })"

function scan_slots :: "doublebit_map \<Rightarrow> u32 \<Rightarrow> u32 \<Rightarrow> u32 \<Rightarrow> (int \<times> doublebit_map) option" where
  "scan_slots d cnt idx found_cnt =
     (if idx < db_bytes_len d * 8 then
        (case get_slot_status d idx of
           None \<Rightarrow> None
         | Some st \<Rightarrow>
             if st = SLOT_FREE \<and> cnt = 1 then
               (case db_sync d idx cnt of None \<Rightarrow> None | Some d' \<Rightarrow> Some (sint idx, d'))
             else if st = SLOT_FREE then
               (if found_cnt + 1 = cnt then
                  (case db_sync d (idx - cnt + 1) cnt of None \<Rightarrow> None | Some d' \<Rightarrow> Some (sint (idx - cnt + 1), d'))
                else scan_slots d cnt (idx + 1) (found_cnt + 1))
             else scan_slots d cnt (idx + 1) 0)
      else Some (-1, d))"
  by pat_completeness auto
termination
proof (relation "measure (\<lambda>(d, cnt, idx, f). unat (db_bytes_len d * 8) - unat idx)")
  fix d :: doublebit_map and cnt idx f :: u32
  assume "idx < db_bytes_len d * 8"
  then have "unat (idx + 1) = Suc (unat idx)" "unat idx < unat (db_bytes_len d * 8)"
    using unat_inc [of idx "db_bytes_len d * 8"] by (simp_all add: word_less_nat_alt)
  then show "((d, cnt, idx + 1, f + 1), d, cnt, idx, f) \<in> measure (\<lambda>(d, cnt, idx, f). unat (db_bytes_len d * 8) - unat idx)"
    and "((d, cnt, idx + 1, 0), d, cnt, idx, f) \<in> measure (\<lambda>(d, cnt, idx, f). unat (db_bytes_len d * 8) - unat idx)"
    by simp_all
qed simp

declare scan_slots.simps [simp del]

definition get_free_slots :: "doublebit_map \<Rightarrow> u32 \<Rightarrow> (int \<times> doublebit_map) option" where
  "get_free_slots d cnt = scan_slots d cnt 0 0"

partial_function (option) free_until_end :: "doublebit_map \<Rightarrow> u32 \<Rightarrow> u32 \<Rightarrow> (u32 \<times> doublebit_map) option" where
  "free_until_end d idx cnt =
     (case get_slot_status d idx of
        None \<Rightarrow> None
      | Some st \<Rightarrow>
          if st \<noteq> SLOT_SEQ_END then
            (case set_slot_value d idx SLOT_FREE of
               None \<Rightarrow> None
             | Some d' \<Rightarrow> free_until_end d' (idx + 1) (cnt + 1))
          else
            (case set_slot_value d idx SLOT_FREE of
               None \<Rightarrow> None
             | Some d' \<Rightarrow> Some (cnt + 1, d')))"

declare free_until_end.simps [code]

definition free_slots :: "doublebit_map \<Rightarrow> u32 \<Rightarrow> (u32 \<times> doublebit_map) option" where
  "free_slots d idx = do {
     st \<leftarrow> get_slot_status d idx;
     (if st = SLOT_USED_SINGLE then do {
        d' \<leftarrow> set_slot_value d idx SLOT_FREE;
        Some (1, d') }
      else if st \<noteq> SLOT_SEQ_START then Some (0, d)
      else free_until_end d idx 0) }"

section \<open>An array of two-bit values\<close>

definition slot :: "doublebit_map \<Rightarrow> nat \<Rightarrow> u8" where
  "slot d i = take_bit 2 (drop_bit (2 * (i mod 4)) (db_base d ! (i div 4)))"

definition db_slots :: "doublebit_map \<Rightarrow> nat" where
  "db_slots d = 4 * length (db_base d)"

lemma slot_index:
  fixes idx :: u32
  assumes "unat idx < 2 ^ 31"
  shows "unat (idx * 2 div 8) = unat idx div 4" "unat (idx * 2 mod 8) = 2 * (unat idx mod 4)"
proof -
  have "unat (idx * 2) = unat idx * 2" using assms by (simp add: word_conv)
  then show "unat (idx * 2 div 8) = unat idx div 4" "unat (idx * 2 mod 8) = 2 * (unat idx mod 4)"
    using mult_mod_right [of 2 "unat idx" 4] by (simp_all add: unat_div unat_mod mult.commute)
qed

lemma bit_three [simp]: "bit (3 :: int) n \<longleftrightarrow> n < 2"
proof -
  have "(3 :: int) = mask 2" by (simp add: mask_eq_exp_minus_1)
  then show ?thesis by (simp only: bit_mask_iff) auto
qed

lemma get_slot_status_in:
  assumes "unat idx < 2 ^ 31" "unat idx < db_slots d"
  shows "get_slot_status d idx = Some (slot d (unat idx))"
proof -
  have "drop_bit b (c AND push_bit b 3) = take_bit 2 (drop_bit b c)" if "b \<le> 6" for b and c :: u8
    by (rule bit_eqI) (use that in \<open>auto simp: bit_simps\<close>)
  moreover have "2 * (unat idx mod 4) \<le> 6" by simp
  moreover have "unat idx div 4 < length (db_base d)" using assms(2) by (simp add: db_slots_def)
  ultimately show ?thesis
    using slot_index [OF assms(1)] by (simp add: get_slot_status_def slot_def mem_simps Let_def)
qed

lemma two_bits: "val < 4 \<Longrightarrow> bit (val :: u8) n \<Longrightarrow> n < 2"
proof -
  assume "val < 4" "bit val n"
  then have "take_bit 2 val = val" 
    by (simp add: word_unat_eq_iff unsigned_take_bit_eq take_bit_nat_eq_self word_less_nat_alt)
  with \<open>bit val n\<close> show "n < 2" by (metis bit_take_bit_iff)
qed

lemma set_slot_value_in:
  assumes "unat idx < 2 ^ 31" "unat idx < db_slots d" "val < 4"
  obtains d' where "set_slot_value d idx val = Some d'" "db_bytes_len d' = db_bytes_len d"
    "db_slots d' = db_slots d" "\<And>j. slot d' j = (if j = unat idx then val else slot d j)"
proof -
  define b where "b = 2 * (unat idx mod 4)"
  define k where "k = unat idx div 4"
  have k: "k < length (db_base d)" using assms(2) by (simp add: db_slots_def k_def)
  define c where "c = db_base d ! k"
  define d' where "d' = d\<lparr>db_base := (db_base d)[k := (c AND NOT (push_bit b 3)) OR push_bit b val]\<rparr>"
  have set: "set_slot_value d idx val = Some d'"
    using slot_index [OF assms(1)] k by (simp add: set_slot_value_def mem_simps Let_def d'_def b_def k_def c_def)
  have same: "take_bit 2 (drop_bit b ((c AND NOT (push_bit b 3)) OR push_bit b val)) = val"
  proof (rule bit_eqI)
    fix n
    have "b + n < 8" if "n < 2" using that unfolding b_def by linarith
    then show "bit (take_bit 2 (drop_bit b ((c AND NOT (push_bit b 3)) OR push_bit b val))) n = bit val n"
      using two_bits [OF assms(3)] by (auto simp: bit_simps)
  qed
  have other: "take_bit 2 (drop_bit b' ((c AND NOT (push_bit b 3)) OR push_bit b val)) = take_bit 2 (drop_bit b' c)"
    if "b' = 2 * i" "b' \<noteq> b" for b' i
  proof (rule bit_eqI)
    fix n
    have "i < unat idx mod 4 \<or> unat idx mod 4 < i" using \<open>b' = 2 * i\<close> \<open>b' \<noteq> b\<close> b_def by auto
    then have "\<not> (b \<le> b' + n \<and> b' + n - b < 2)" if "n < 2"
      using \<open>b' = 2 * i\<close> \<open>n < 2\<close> unfolding b_def by (elim disjE) linarith+
    then show "bit (take_bit 2 (drop_bit b' ((c AND NOT (push_bit b 3)) OR push_bit b val))) n
        = bit (take_bit 2 (drop_bit b' c)) n"
      using two_bits [OF assms(3)] by (auto simp: bit_simps dest: bit_imp_le_length)
  qed
  have "slot d' j = (if j = unat idx then val else slot d j)" for j
  proof (cases "j div 4 = k")
    case True
    have "j mod 4 = unat idx mod 4 \<longleftrightarrow> j = unat idx"
      using True unfolding k_def by (metis div_mult_mod_eq)
    then show ?thesis
      using True same other [of "2 * (j mod 4)" "j mod 4"] k
      by (auto simp: slot_def d'_def b_def k_def c_def)
  next
    case False
    then show ?thesis by (auto simp: slot_def d'_def k_def)
  qed
  then show ?thesis using that set by (simp add: d'_def db_slots_def)
qed

section \<open>Marking, finding and freeing runs\<close>

definition seq_mark :: "nat \<Rightarrow> nat \<Rightarrow> u8" where
  "seq_mark n k = (if n = 1 then SLOT_USED_SINGLE else if k = 0 then SLOT_SEQ_START
     else if k = n - 1 then SLOT_SEQ_END else SLOT_USED_SINGLE)"

definition run :: "doublebit_map \<Rightarrow> nat \<Rightarrow> nat \<Rightarrow> bool" where
  "run d n r \<longleftrightarrow> r + n \<le> unat (db_bytes_len d * 8) \<and> (\<forall>k. r \<le> k \<and> k < r + n \<longrightarrow> slot d k = SLOT_FREE)"

text \<open>The object of the map holds two bits for each of the \<open>bytes_len * 8\<close> slots that are
  searched.\<close>

definition db_wf :: "doublebit_map \<Rightarrow> bool" where
  "db_wf d \<longleftrightarrow> unat (db_bytes_len d * 8) \<le> db_slots d \<and> unat (db_bytes_len d * 8) < 2 ^ 31"

lemma sync_middle_in:
  assumes "unat start + unat cnt \<le> db_slots d" "unat start + unat cnt < 2 ^ 31" "2 \<le> unat cnt"
  shows "\<exists>d'. sync_middle d start cnt i = Some d' \<and> db_bytes_len d' = db_bytes_len d \<and> db_slots d' = db_slots d
    \<and> (\<forall>j. slot d' j = (if unat start + unat i \<le> j \<and> j < unat start + unat cnt - 1 then SLOT_USED_SINGLE else slot d j))"
  using assms
proof (induction d start cnt i rule: sync_middle.induct)
  case (1 d start cnt i)
  have c1: "unat (cnt - 1) = unat cnt - 1" using "1.prems"(3) by (simp add: unat_sub word_le_nat_alt)
  show ?case
  proof (cases "i < cnt - 1")
    case True
    then have i: "unat i < unat cnt - 1" "unat (i + 1) = Suc (unat i)"
      using c1 unat_inc [of i "cnt - 1"] by (simp_all add: word_less_nat_alt)
    have si: "unat (start + i) = unat start + unat i" using i "1.prems"(2) by (intro unat_add_small) simp
    have bnd: "unat (start + i) < 2 ^ 31" "unat (start + i) < db_slots d" "SLOT_USED_SINGLE < 4"
      using si i "1.prems" by (auto simp: slot_consts)
    obtain d1 where d1: "set_slot_value d (start + i) SLOT_USED_SINGLE = Some d1"
        "db_bytes_len d1 = db_bytes_len d" "db_slots d1 = db_slots d"
        "\<And>j. slot d1 j = (if j = unat (start + i) then SLOT_USED_SINGLE else slot d j)"
      using set_slot_value_in [OF bnd] by blast
    from "1.IH" [OF True d1(1)] obtain d' where d': "sync_middle d1 start cnt (i + 1) = Some d'"
        "db_bytes_len d' = db_bytes_len d1" "db_slots d' = db_slots d1"
        "\<forall>j. slot d' j = (if unat start + unat (i + 1) \<le> j \<and> j < unat start + unat cnt - 1 then SLOT_USED_SINGLE else slot d1 j)"
      using "1.prems" d1(3) by auto
    have "slot d' j = (if unat start + unat i \<le> j \<and> j < unat start + unat cnt - 1 then SLOT_USED_SINGLE else slot d j)" for j
      using d'(4) d1(4) si i by auto
    then show ?thesis using True d1(1) d'(1-3) d1(2,3) by (auto simp: sync_middle.simps [of d])
  next
    case False
    then have "unat cnt - 1 \<le> unat i" using c1 by (simp add: word_less_nat_alt not_less)
    then show ?thesis using False by (auto simp: sync_middle.simps [of d])
  qed
qed

lemma db_sync_in:
  assumes "unat start + unat cnt \<le> db_slots d" "unat start + unat cnt < 2 ^ 31" "cnt \<noteq> 0"
  obtains d' where "db_sync d start cnt = Some d'" "db_bytes_len d' = db_bytes_len d" "db_slots d' = db_slots d"
    "\<And>j. slot d' j = (if unat start \<le> j \<and> j < unat start + unat cnt then seq_mark (unat cnt) (j - unat start) else slot d j)"
proof -
  have c0: "0 < unat cnt" using assms(3) by (simp add: unat_gt_0)
  have st: "unat start < 2 ^ 31" "unat start < db_slots d" using assms c0 by auto
  have ok: "SLOT_USED_SINGLE < 4" "SLOT_SEQ_START < 4" "SLOT_SEQ_END < 4" by (simp_all add: slot_consts)
  show ?thesis
  proof (cases "cnt = 1")
    case True
    obtain d' where d': "set_slot_value d start SLOT_USED_SINGLE = Some d'" "db_bytes_len d' = db_bytes_len d"
        "db_slots d' = db_slots d" "\<And>j. slot d' j = (if j = unat start then SLOT_USED_SINGLE else slot d j)"
      using set_slot_value_in [OF st ok(1)] by blast
    show ?thesis by (rule that [of d']) (use True d' in \<open>auto simp: db_sync_def seq_mark_def\<close>)
  next
    case False
    then have "unat cnt \<noteq> 1" using word_eq_iff_unat [of cnt 1] by simp
    then have c2: "2 \<le> unat cnt" using c0 by linarith
    obtain d1 where d1: "set_slot_value d start SLOT_SEQ_START = Some d1" "db_bytes_len d1 = db_bytes_len d"
        "db_slots d1 = db_slots d" "\<And>j. slot d1 j = (if j = unat start then SLOT_SEQ_START else slot d j)"
      using set_slot_value_in [OF st ok(2)] by blast
    obtain d2 where d2: "sync_middle d1 start cnt 1 = Some d2" "db_bytes_len d2 = db_bytes_len d1"
        "db_slots d2 = db_slots d1"
        "\<forall>j. slot d2 j = (if unat start + unat (1 :: u32) \<le> j \<and> j < unat start + unat cnt - 1 then SLOT_USED_SINGLE else slot d1 j)"
      using sync_middle_in [of start cnt d1 1] assms(1,2) c2 d1(3) by auto
    have e: "unat (start + cnt - 1) = unat start + unat cnt - 1"
      using assms(2) c0 by (simp add: unat_sub word_le_nat_alt word_conv)
    have eb: "unat (start + cnt - 1) < 2 ^ 31" "unat (start + cnt - 1) < db_slots d2"
      using e assms(1,2) d1(3) d2(3) c0 by auto
    obtain d' where d': "set_slot_value d2 (start + cnt - 1) SLOT_SEQ_END = Some d'" "db_bytes_len d' = db_bytes_len d2"
        "db_slots d' = db_slots d2" "\<And>j. slot d' j = (if j = unat (start + cnt - 1) then SLOT_SEQ_END else slot d2 j)"
      using set_slot_value_in [OF eb ok(3)] by blast
    show ?thesis
      by (rule that [of d']) (use False c2 d1 d2 d' e in \<open>auto simp: db_sync_def seq_mark_def\<close>)
  qed
qed

text \<open>The scan ends at an index with which a run of free slots becomes long enough, with the start of the run.\<close>

lemma scan_slots_hit:
  assumes "db_wf d" "cnt \<noteq> 0" "idx < db_bytes_len d * 8" "unat f \<le> unat idx" "Suc (unat f) = unat cnt"
    "\<forall>k. unat idx - unat f \<le> k \<and> k < unat idx \<longrightarrow> slot d k = SLOT_FREE" "slot d (unat idx) = SLOT_FREE"
  defines "r \<equiv> unat idx - unat f"
  shows "\<exists>d'. run d (unat cnt) r \<and> db_sync d (of_nat r) cnt = Some d' \<and> scan_slots d cnt idx f = Some (int r, d')"
proof -
  have n: "unat (db_bytes_len d * 8) \<le> db_slots d" "unat (db_bytes_len d * 8) < 2 ^ 31" using assms(1) by (auto simp: db_wf_def)
  have i: "unat idx < unat (db_bytes_len d * 8)" "unat (idx + 1) = Suc (unat idx)"
    using unat_inc [OF assms(3)] assms(3) by (simp_all add: word_less_nat_alt)
  have st: "get_slot_status d idx = Some (slot d (unat idx))" using i n by (intro get_slot_status_in) auto
  have r: "r + unat cnt = Suc (unat idx)" using assms(4,5) by (simp add: r_def)
  have ru: "unat (of_nat r :: u32) = r" using r i n by (intro unat_of_nat_small) simp
  have "unat ((of_nat r :: u32) + cnt) = unat (idx + 1)" using r ru i n unat_add_small [of "of_nat r :: u32" cnt] by simp
  then have "(of_nat r :: u32) + cnt = idx + 1" by (simp add: word_eq_iff_unat)
  then have wr: "idx - cnt + 1 = of_nat r" by (simp add: algebra_simps)
  have sr: "sint (of_nat r :: u32) = int r" using ru r i n sint_unat_small [of "of_nat r"] by simp
  have "run d (unat cnt) r" unfolding run_def using r i assms(6,7) r_def by (auto simp: less_Suc_eq)
  moreover obtain d' where d': "db_sync d (of_nat r) cnt = Some d'" using db_sync_in [of "of_nat r" cnt d] ru r i n assms(2) by auto
  moreover have "scan_slots d cnt idx f = Some (int r, d')"
  proof (cases "cnt = 1")
    case True
    then have "of_nat r = idx" using assms(5) r by (simp add: r_def)
    then show ?thesis using assms(3,7) st True d' sr by (simp add: scan_slots.simps [of d])
  next
    case False
    have "unat (f + 1) = Suc (unat f)" using assms(4) i n by (simp add: word_conv)
    then have "f + 1 = cnt" using assms(5) word_eq_iff_unat by metis
    then show ?thesis using assms(3,7) st False d' sr wr by (simp add: scan_slots.simps [of d])
  qed
  ultimately show ?thesis by blast
qed

lemma scan_slots_in:
  assumes "db_wf d" "cnt \<noteq> 0" "unat idx \<le> unat (db_bytes_len d * 8)"
    "unat f \<le> unat idx" "unat f < unat cnt"
    "\<forall>k. unat idx - unat f \<le> k \<and> k < unat idx \<longrightarrow> slot d k = SLOT_FREE"
    "\<forall>r < unat idx - unat f. \<not> run d (unat cnt) r"
  shows "(\<exists>r d'. run d (unat cnt) r \<and> (\<forall>q < r. \<not> run d (unat cnt) q) \<and> db_sync d (of_nat r) cnt = Some d'
            \<and> scan_slots d cnt idx f = Some (int r, d'))
       \<or> ((\<forall>r. \<not> run d (unat cnt) r) \<and> scan_slots d cnt idx f = Some (-1, d))"
  using assms
proof (induction d cnt idx f rule: scan_slots.induct)
  case (1 d cnt idx f)
  let ?n = "unat (db_bytes_len d * 8)"
  have n: "?n \<le> db_slots d" "?n < 2 ^ 31" using "1.prems"(1) by (auto simp: db_wf_def)
  show ?case
  proof (cases "idx < db_bytes_len d * 8")
    case False
    then have "unat idx = ?n" using "1.prems"(3) by (simp add: word_less_nat_alt)
    then have "\<not> run d (unat cnt) r" for r
      using "1.prems"(4,5,7) by (cases "r < unat idx - unat f") (auto simp: run_def)
    then show ?thesis using False by (simp add: scan_slots.simps [of d])
  next
    case True
    then have i: "unat idx < ?n" "unat (idx + 1) = Suc (unat idx)"
      using unat_inc [OF True] by (simp_all add: word_less_nat_alt)
    have st: "get_slot_status d idx = Some (slot d (unat idx))"
      using i n by (intro get_slot_status_in) auto
    have f1: "unat (f + 1) = Suc (unat f)" using "1.prems"(4) i n by (simp add: word_conv)
    show ?thesis
    proof (cases "slot d (unat idx) = SLOT_FREE")
      case free: True
      show ?thesis
      proof (cases "Suc (unat f) = unat cnt")
        case hit: True
        then show ?thesis
          using scan_slots_hit [OF "1.prems"(1,2) True "1.prems"(4) hit "1.prems"(6) free] "1.prems"(7) by blast
      next
        case miss: False
        then have ne: "f + 1 \<noteq> cnt" "cnt \<noteq> 1" using f1 "1.prems"(5) by auto
        have "scan_slots d cnt idx f = scan_slots d cnt (idx + 1) (f + 1)"
          using True st free ne by (simp add: scan_slots.simps [of d cnt idx])
        moreover have "\<forall>k. Suc (unat idx) - Suc (unat f) \<le> k \<and> k < Suc (unat idx) \<longrightarrow> slot d k = SLOT_FREE"
          using "1.prems"(6) free by (auto simp: less_Suc_eq)
        ultimately show ?thesis
          using "1.IH"(1) [OF True st] free ne "1.prems" i f1 miss by simp
      qed
    next
      case used: False
      have "scan_slots d cnt idx f = scan_slots d cnt (idx + 1) 0"
        using True st used by (simp add: scan_slots.simps [of d cnt idx])
      moreover have "\<not> run d (unat cnt) r" if "r < Suc (unat idx)" for r
      proof (cases "r < unat idx - unat f")
        case False
        then have "r \<le> unat idx \<and> unat idx < r + unat cnt" using that "1.prems"(4,5) by linarith
        then show ?thesis using used unfolding run_def by blast
      qed (use "1.prems"(7) in blast)
      ultimately show ?thesis
        using "1.IH"(2) [OF True st] used "1.prems" i by simp
    qed
  qed
qed

lemma free_until_end_in:
  assumes "unat idx + m < 2 ^ 31" "unat idx + m < db_slots d"
    and "\<forall>k < m. slot d (unat idx + k) \<noteq> SLOT_SEQ_END" "slot d (unat idx + m) = SLOT_SEQ_END"
  shows "\<exists>d'. free_until_end d idx c = Some (c + of_nat (Suc m), d') \<and> db_bytes_len d' = db_bytes_len d
    \<and> db_slots d' = db_slots d
    \<and> (\<forall>j. slot d' j = (if unat idx \<le> j \<and> j \<le> unat idx + m then SLOT_FREE else slot d j))"
  using assms
proof (induction m arbitrary: d idx c)
  case 0
  have st: "get_slot_status d idx = Some (slot d (unat idx))" using 0 by (intro get_slot_status_in) auto
  have ok: "unat idx < 2 ^ 31" "unat idx < db_slots d" "SLOT_FREE < 4" using 0 by (auto simp: slot_consts)
  obtain d' where d': "set_slot_value d idx SLOT_FREE = Some d'" "db_bytes_len d' = db_bytes_len d"
      "db_slots d' = db_slots d" "\<And>j. slot d' j = (if j = unat idx then SLOT_FREE else slot d j)"
    using set_slot_value_in [OF ok] by blast
  then show ?case using 0 st by (auto simp: free_until_end.simps [of d])
next
  case (Suc m)
  have st: "get_slot_status d idx = Some (slot d (unat idx))" using Suc by (intro get_slot_status_in) auto
  have ok: "unat idx < 2 ^ 31" "unat idx < db_slots d" "SLOT_FREE < 4" using Suc by (auto simp: slot_consts)
  have ne: "slot d (unat idx) \<noteq> SLOT_SEQ_END" using Suc.prems(3) by auto
  have i: "unat (idx + 1) = Suc (unat idx)" using Suc.prems(1) by (simp add: word_conv)
  obtain d1 where d1: "set_slot_value d idx SLOT_FREE = Some d1" "db_bytes_len d1 = db_bytes_len d"
      "db_slots d1 = db_slots d" "\<And>j. slot d1 j = (if j = unat idx then SLOT_FREE else slot d j)"
    using set_slot_value_in [OF ok] by blast
  have "\<forall>k < m. slot d1 (unat (idx + 1) + k) \<noteq> SLOT_SEQ_END"
    using Suc.prems(3) d1(4) i by (metis Suc_less_eq add_Suc_right add_Suc_shift less_add_Suc1 nat_neq_iff)
  then obtain d' where d': "free_until_end d1 (idx + 1) (c + 1) = Some (c + 1 + of_nat (Suc m), d')"
      "db_bytes_len d' = db_bytes_len d1" "db_slots d' = db_slots d1"
      "\<forall>j. slot d' j = (if unat (idx + 1) \<le> j \<and> j \<le> unat (idx + 1) + m then SLOT_FREE else slot d1 j)"
    using Suc.IH [of "idx + 1" d1 "c + 1"] Suc.prems i d1(3,4) by auto
  have "slot d' j = (if unat idx \<le> j \<and> j \<le> unat idx + Suc m then SLOT_FREE else slot d j)" for j
    using d'(4) d1(4) i by auto
  then show ?case
    using st ne d1 d'(1-3) by (intro exI [of _ d']) (simp add: free_until_end.simps [of d])
qed

text \<open>Freeing a marked run.\<close>

lemma free_slots_run:
  assumes "unat r + n < 2 ^ 31" "unat r + n \<le> db_slots d" "0 < n"
    and mark: "\<And>k. k < n \<Longrightarrow> slot d (unat r + k) = seq_mark n k"
  shows "\<exists>d'. free_slots d r = Some (of_nat n, d') \<and> db_bytes_len d' = db_bytes_len d \<and> db_slots d' = db_slots d
    \<and> (\<forall>j. slot d' j = (if unat r \<le> j \<and> j < unat r + n then SLOT_FREE else slot d j))"
proof -
  have st: "get_slot_status d r = Some (slot d (unat r))" using assms by (intro get_slot_status_in) auto
  have s0: "slot d (unat r) = seq_mark n 0" using mark [of 0] assms(3) by simp
  show ?thesis
  proof (cases "n = 1")
    case True
    have ok: "unat r < 2 ^ 31" "unat r < db_slots d" "SLOT_FREE < 4" using assms by (auto simp: slot_consts)
    obtain d' where "set_slot_value d r SLOT_FREE = Some d'" "db_bytes_len d' = db_bytes_len d"
        "db_slots d' = db_slots d" "\<And>j. slot d' j = (if j = unat r then SLOT_FREE else slot d j)"
      using set_slot_value_in [OF ok] by blast
    then show ?thesis using True st s0 by (auto simp: free_slots_def seq_mark_def)
  next
    case False
    obtain m where m: "n = Suc m" using assms(3) by (cases n) auto
    have e: "\<forall>k < m. slot d (unat r + k) \<noteq> SLOT_SEQ_END" "slot d (unat r + m) = SLOT_SEQ_END"
      using mark False m by (auto simp: seq_mark_def slot_consts)
    have bnd: "unat r + m < 2 ^ 31" "unat r + m < db_slots d" using assms(1,2) m by simp_all
    obtain d' where d': "free_until_end d r 0 = Some (0 + of_nat (Suc m), d')"
        "db_bytes_len d' = db_bytes_len d" "db_slots d' = db_slots d"
        "\<forall>j. slot d' j = (if unat r \<le> j \<and> j \<le> unat r + m then SLOT_FREE else slot d j)"
      using free_until_end_in [OF bnd e, of 0] by blast
    have "slot d (unat r) = SLOT_SEQ_START" using s0 False by (simp add: seq_mark_def)
    then have "free_slots d r = Some (of_nat n, d')"
      using st d'(1) m by (simp add: free_slots_def slot_consts)
    moreover have "\<forall>j. slot d' j = (if unat r \<le> j \<and> j < unat r + n then SLOT_FREE else slot d j)"
      using d'(4) m by auto
    ultimately show ?thesis using d'(2,3) by blast
  qed
qed

lemma get_free_slots_in:
  assumes "db_wf d" and "cnt \<noteq> 0"
  shows "(\<exists>r d'. get_free_slots d cnt = Some (int r, d') \<and> run d (unat cnt) r \<and> (\<forall>q < r. \<not> run d (unat cnt) q)
            \<and> db_wf d' \<and> db_slots d' = db_slots d
            \<and> (\<forall>j. slot d' j = (if r \<le> j \<and> j < r + unat cnt then seq_mark (unat cnt) (j - r) else slot d j)))
       \<or> ((\<forall>r. \<not> run d (unat cnt) r) \<and> get_free_slots d cnt = Some (-1, d))"
proof -
  have "0 < unat cnt" using assms(2) by (simp add: unat_gt_0)
  from scan_slots_in [OF assms, of 0 0] this consider
      (hit) r d' where "run d (unat cnt) r" "\<forall>q < r. \<not> run d (unat cnt) q" "db_sync d (of_nat r) cnt = Some d'"
        "get_free_slots d cnt = Some (int r, d')"
    | (miss) "\<forall>r. \<not> run d (unat cnt) r" "get_free_slots d cnt = Some (-1, d)"
    by (auto simp: get_free_slots_def)
  then show ?thesis
  proof cases
    case hit
    have b: "r + unat cnt \<le> db_slots d" "r + unat cnt < 2 ^ 31" using hit(1) assms(1) by (auto simp: run_def db_wf_def)
    then have ru: "unat (of_nat r :: u32) = r" by (intro unat_of_nat_small) simp
    have "\<exists>d''. db_sync d (of_nat r) cnt = Some d'' \<and> db_bytes_len d'' = db_bytes_len d \<and> db_slots d'' = db_slots d
      \<and> (\<forall>j. slot d'' j = (if r \<le> j \<and> j < r + unat cnt then seq_mark (unat cnt) (j - r) else slot d j))"
      using db_sync_in [of "of_nat r" cnt d] b assms(2) ru by metis
    then show ?thesis using hit assms(1) by (auto simp: db_wf_def)
  qed blast
qed

section \<open>Properties\<close>

text \<open>C29: asking for \<open>cnt\<close> virtual pages takes the first run of \<open>cnt\<close> free pages, marks it
  as one sequence and touches no other page; when there is no such run the answer is \<open>-1\<close>
  and nothing changes.\<close>

theorem get_free_slots_first_run:
  assumes "db_wf d" and "cnt \<noteq> 0"
  shows "(\<exists>r d'. get_free_slots d cnt = Some (int r, d') \<and> run d (unat cnt) r \<and> (\<forall>q < r. \<not> run d (unat cnt) q)
            \<and> db_wf d'
            \<and> (\<forall>j. slot d' j = (if r \<le> j \<and> j < r + unat cnt then seq_mark (unat cnt) (j - r) else slot d j)))
       \<or> ((\<forall>r. \<not> run d (unat cnt) r) \<and> get_free_slots d cnt = Some (-1, d))"
  using get_free_slots_in [OF assms] by blast

text \<open>C31: freeing an allocated sequence returns its length and makes exactly its pages free
  again, so that the map has the values it had before the allocation.\<close>

theorem alloc_free_slots_round_trip:
  assumes "db_wf d" and "cnt \<noteq> 0" and "get_free_slots d cnt = Some (i, d')" and "i \<noteq> -1"
  shows "\<exists>d''. free_slots d' (word_of_int i) = Some (cnt, d'') \<and> (\<forall>j. slot d'' j = slot d j)"
proof -
  obtain r where r: "i = int r" "run d (unat cnt) r" "db_wf d'" "db_slots d' = db_slots d"
      "\<forall>j. slot d' j = (if r \<le> j \<and> j < r + unat cnt then seq_mark (unat cnt) (j - r) else slot d j)"
    using get_free_slots_in [OF assms(1,2)] assms(3,4) by auto
  have b: "r + unat cnt \<le> db_slots d'" "r + unat cnt < 2 ^ 31"
    using r(2) r(4) assms(1) by (auto simp: run_def db_wf_def)
  have ru: "unat (word_of_int i :: u32) = r" using b r(1) by (simp add: unat_of_nat_small)
  have "0 < unat cnt" using assms(2) by (simp add: unat_gt_0)
  then obtain d'' where "free_slots d' (word_of_int i) = Some (of_nat (unat cnt), d'')"
      "\<forall>j. slot d'' j = (if r \<le> j \<and> j < r + unat cnt then SLOT_FREE else slot d' j)"
    using free_slots_run [of "word_of_int i" "unat cnt" d'] b ru r(5) by auto
  then show ?thesis using r(2,5) by (intro exI [of _ d'']) (auto simp: run_def)
qed

text \<open>Witness: the third page of a map of eight pages with the first two used.\<close>

lemma page_map_example: "db_wf \<lparr>db_bytes_len = 1, db_base = [0x05, 0]\<rparr>"
  by (simp add: db_wf_def db_slots_def)

theorem get_free_slots_first_run_witness:
  "\<exists>d'. get_free_slots \<lparr>db_bytes_len = 1, db_base = [0x05, 0]\<rparr> 3 = Some (2, d')
     \<and> slot d' 2 = SLOT_SEQ_START \<and> slot d' 4 = SLOT_SEQ_END"
proof -
  have "get_free_slots \<lparr>db_bytes_len = 1, db_base = [0x05, 0]\<rparr> 3
      = Some (2, \<lparr>db_bytes_len = 1, db_base = [0x65, 0x03]\<rparr>)" by code_simp
  then show ?thesis
    using get_free_slots_first_run [OF page_map_example, of 3] by (auto simp: seq_mark_def)
qed

theorem alloc_free_slots_round_trip_witness:
  "\<exists>d' d''. get_free_slots \<lparr>db_bytes_len = 1, db_base = [0x05, 0]\<rparr> 3 = Some (2, d')
     \<and> free_slots d' 2 = Some (3, d'') \<and> slot d'' 2 = SLOT_FREE"
proof -
  have g: "get_free_slots \<lparr>db_bytes_len = 1, db_base = [0x05, 0]\<rparr> 3
      = Some (2, \<lparr>db_bytes_len = 1, db_base = [0x65, 0x03]\<rparr>)" by code_simp
  have "slot \<lparr>db_bytes_len = 1, db_base = [0x05, 0]\<rparr> 2 = SLOT_FREE" by code_simp
  then show ?thesis
    using g alloc_free_slots_round_trip [OF page_map_example _ g] by auto
qed

end
