(* ===== verification/Memory.thy ===== *)
theory Memory
  imports Bitmap Doublebit_Map Cycle_List
begin

text \<open>
  Model of the memory manager, \<open>mm/memory.cc\<close> with \<open>mm/small_mem_header.cc\<close> and
  \<open>mm/swar.cc\<close>.

  The state holds the bitmap of the physical pages, the map of the virtual pages, the queues
  of the pages that are cut into blocks, and the memory the manager works on, by kind: the
  links of list elements, the headers of cut pages, the words of the page directory and the
  page tables as they are seen through the window at \<open>0xffc00000\<close>, and the bytes that are
  cleared for the caller. \<open>vaddr2pte\<close> has no return statement; compiled without
  optimisation it leaves the computed address in \<open>eax\<close>, and that is the modelled result.

  The theory shows that physical pages are handed out without overlap (through the contract
  \<open>slot_allocator\<close>), that a mapped page translates to its physical page, that a cut page
  starts with all its blocks free and inside the page, and what allocating and freeing a
  block does to the queues.
\<close>

section \<open>State\<close>

abbreviation page_size :: u32 where "page_size \<equiv> 4096"
abbreviation (input) sizeof_small_mem_header :: u32 where "sizeof_small_mem_header \<equiv> 32"

record viraddr_manage =
  vaddr_bmap :: doublebit_map
  vaddr_start :: u32

record mem_pool =
  phyaddr_bmap :: bitmap
  phyaddr_start :: u32
  pool_size :: u32

record small_mem_header =
  each_block_size :: u32
  free_cnts :: u32

record mm_state =
  initproc_vir :: viraddr_manage
  phypool :: mem_pool
  mem_desc :: "cycle_list list"
  mlinks :: link_mem
  headers :: "u32 \<Rightarrow> small_mem_header"
  ptables :: "u32 \<Rightarrow> u32"
  mbytes :: "u32 \<Rightarrow> u8"

text \<open>Clearing the bytes from \<open>a\<close> on.\<close>

definition clear_bytes :: "mm_state \<Rightarrow> u32 \<Rightarrow> u32 \<Rightarrow> mm_state" where
  "clear_bytes s a n = s\<lparr>mbytes := (\<lambda>x. if x - a < n then 0 else mbytes s x)\<rparr>"

fun construct_descs :: "link_mem \<Rightarrow> cycle_list list \<Rightarrow> link_mem" where
  "construct_descs m [] = m"
| "construct_descs m (q # qs) = construct_descs (cl_initialize m q) qs"

text \<open>The constructor; the memory of the two maps lies at \<open>0x9000\<close> and behind.\<close>

definition new_memory_manager :: "mm_state \<Rightarrow> u32 \<Rightarrow> u8 list \<Rightarrow> u8 list \<Rightarrow> mm_state option" where
  "new_memory_manager s mem_capacity obj_p obj_v = do {
     let free_mem = mem_capacity - 0x200000;
     let free_pages = free_mem div page_size;
     let bmap_length = free_pages div 8;
     b \<leftarrow> init_bitmap \<lparr>bytes_len = bmap_length, base = obj_p\<rparr>;
     d \<leftarrow> db_initialize bmap_length obj_v;
     Some (s\<lparr>phypool := \<lparr>phyaddr_bmap = b, phyaddr_start = 0x200000, pool_size = free_mem\<rparr>,
            initproc_vir := \<lparr>vaddr_bmap = d, vaddr_start = 0x200000\<rparr>,
            mlinks := construct_descs (mlinks s) (mem_desc s)\<rparr>) }"

section \<open>Pages\<close>

definition get_vir_page :: "mm_state \<Rightarrow> u32 \<Rightarrow> (u32 \<times> mm_state) option" where
  "get_vir_page s cnt = do {
     (idx_start, d) \<leftarrow> get_free_slots (vaddr_bmap (initproc_vir s)) cnt;
     let s1 = s\<lparr>initproc_vir := (initproc_vir s)\<lparr>vaddr_bmap := d\<rparr>\<rparr>;
     (if idx_start = -1 then Some (0, s1)
      else Some (vaddr_start (initproc_vir s) + word_of_int idx_start * page_size, s1)) }"

definition get_phy_page :: "mm_state \<Rightarrow> (u32 \<times> mm_state) option" where
  "get_phy_page s = do {
     idx_free \<leftarrow> bitmap_scan (phyaddr_bmap (phypool s)) 1;
     (if idx_free = -1 then Some (0, s)
      else do {
        b \<leftarrow> bitmap_set_bit (phyaddr_bmap (phypool s)) (word_of_int idx_free) 1;
        Some (phyaddr_start (phypool s) + word_of_int idx_free * page_size,
              s\<lparr>phypool := (phypool s)\<lparr>phyaddr_bmap := b\<rparr>\<rparr>) }) }"

definition vaddr2pde :: "u32 \<Rightarrow> u32" where
  "vaddr2pde vaddr = 0xfffff000 + 4 * drop_bit 22 (vaddr AND 0xffc00000)"

definition vaddr2pte :: "u32 \<Rightarrow> u32" where
  "vaddr2pte vaddr = 0xffc00000 + drop_bit 10 (vaddr AND 0xffc00000) + 4 * drop_bit 12 (vaddr AND 0x003ff000)"

definition vaddr2phy :: "mm_state \<Rightarrow> u32 \<Rightarrow> u32" where
  "vaddr2phy s vaddr = (ptables s (vaddr2pte vaddr) AND 0xfffff000) + (vaddr AND 0x00000fff)"

definition set_pt :: "mm_state \<Rightarrow> u32 \<Rightarrow> u32 \<Rightarrow> mm_state" where
  "set_pt s a v = s\<lparr>ptables := (ptables s)(a := v)\<rparr>"

abbreviation page_attr :: u32 where "page_attr \<equiv> 7"

definition map_vir_phy :: "mm_state \<Rightarrow> u32 \<Rightarrow> u32 \<Rightarrow> mm_state option" where
  "map_vir_phy s viraddr phyaddr =
     (let pde = vaddr2pde viraddr; pte = vaddr2pte viraddr in
      if ptables s pde AND 1 \<noteq> 0 then
        (if ptables s pte AND 1 \<noteq> 0 then Some s else Some (set_pt s pte (phyaddr OR page_attr)))
      else do {
        (pg_table, s1) \<leftarrow> get_phy_page s;
        let s2 = set_pt s1 pde (pg_table OR page_attr);
        let s3 = s2\<lparr>ptables := (\<lambda>a. if a - (pte AND 0xfffff000) < page_size then 0 else ptables s2 a)\<rparr>;
        Some (set_pt s3 pte (phyaddr OR page_attr)) })"

fun map_pages :: "mm_state \<Rightarrow> u32 \<Rightarrow> nat \<Rightarrow> mm_state option" where
  "map_pages s vaddr 0 = Some s"
| "map_pages s vaddr (Suc cnt) = do {
     (phyaddr, s1) \<leftarrow> get_phy_page s;
     s2 \<leftarrow> map_vir_phy s1 vaddr phyaddr;
     map_pages s2 (vaddr + page_size) cnt }"

definition malloc_page :: "mm_state \<Rightarrow> u32 \<Rightarrow> (u32 \<times> mm_state) option" where
  "malloc_page s cnt = do {
     (vaddr, s1) \<leftarrow> get_vir_page s cnt;
     s2 \<leftarrow> map_pages s1 vaddr (unat cnt);
     Some (vaddr, s2) }"

definition free_phy_page :: "mm_state \<Rightarrow> u32 \<Rightarrow> mm_state option" where
  "free_phy_page s phyaddr = do {
     let idx = (phyaddr - phyaddr_start (phypool s)) div page_size;
     b \<leftarrow> bitmap_set_bit (phyaddr_bmap (phypool s)) idx 0;
     Some (s\<lparr>phypool := (phypool s)\<lparr>phyaddr_bmap := b\<rparr>\<rparr>) }"

definition free_vir_page :: "mm_state \<Rightarrow> u32 \<Rightarrow> (u32 \<times> mm_state) option" where
  "free_vir_page s viraddr = do {
     let idx = (viraddr - vaddr_start (initproc_vir s)) div page_size;
     (cnt, d) \<leftarrow> free_slots (vaddr_bmap (initproc_vir s)) idx;
     Some (cnt, s\<lparr>initproc_vir := (initproc_vir s)\<lparr>vaddr_bmap := d\<rparr>\<rparr>) }"

definition remove_map_addr :: "mm_state \<Rightarrow> u32 \<Rightarrow> mm_state" where
  "remove_map_addr s viraddr =
     (let pte = vaddr2pte viraddr in set_pt s pte (ptables s pte AND NOT 1))"

fun unmap_pages :: "mm_state \<Rightarrow> u32 \<Rightarrow> nat \<Rightarrow> mm_state option" where
  "unmap_pages s vaddr 0 = Some s"
| "unmap_pages s vaddr (Suc cnt) = do {
     s1 \<leftarrow> free_phy_page s (vaddr2phy s vaddr);
     unmap_pages (remove_map_addr s1 vaddr) (vaddr + page_size) cnt }"

definition free_page :: "mm_state \<Rightarrow> u32 \<Rightarrow> mm_state option" where
  "free_page s viraddr = do {
     (cnt, s1) \<leftarrow> free_vir_page s viraddr;
     unmap_pages s1 viraddr (unat cnt) }"

section \<open>Blocks\<close>

abbreviation free_queue :: "u32 \<Rightarrow> cycle_list" where
  "free_queue page \<equiv> \<lparr>cl_head = page + 16, cl_tail = page + 24\<rparr>"

fun append_blocks :: "link_mem \<Rightarrow> cycle_list \<Rightarrow> u32 \<Rightarrow> u32 \<Rightarrow> nat \<Rightarrow> link_mem" where
  "append_blocks m q elem bsz 0 = m"
| "append_blocks m q elem bsz (Suc n) = append_blocks (cl_append m q elem) q (elem + bsz) bsz n"

text \<open>A zero block size divides by zero.\<close>

definition install_mem_header :: "mm_state \<Rightarrow> u32 \<Rightarrow> u32 \<Rightarrow> mm_state option" where
  "install_mem_header s page bsz =
     (if page mod page_size \<noteq> 0 then Some s
      else if bsz = 0 then None
      else
        (let cnts = (page_size - sizeof_small_mem_header) div bsz;
             m1 = cl_initialize (mlinks s) (free_queue page);
             m2 = append_blocks m1 (free_queue page) (page + sizeof_small_mem_header) bsz (unat cnts)
         in Some (s\<lparr>headers := (headers s)(page := \<lparr>each_block_size = bsz, free_cnts = cnts\<rparr>), mlinks := m2\<rparr>)))"

text \<open>The size class of a request; on a size above the largest power of two the loop does not
  end.\<close>

partial_function (option) desc_index :: "u32 \<Rightarrow> u32 \<Rightarrow> nat \<Rightarrow> nat option" where
  "desc_index cnt_bytes cnt_start idx =
     (if cnt_start < cnt_bytes then desc_index cnt_bytes (cnt_start * 2) (Suc idx) else Some idx)"

declare desc_index.simps [code]

fun find_free_page :: "mm_state \<Rightarrow> cycle_list \<Rightarrow> int \<Rightarrow> nat \<Rightarrow> u32 option option" where
  "find_free_page s q i 0 = Some None"
| "find_free_page s q i (Suc n) = do {
     elem \<leftarrow> cl_get_elem (mlinks s) q i;
     (if free_cnts (headers s elem) = 0 then find_free_page s q (i + 1) n else Some (Some elem)) }"

text \<open>Taking the first free block of a page.\<close>

definition take_block :: "mm_state \<Rightarrow> u32 \<Rightarrow> u32 \<times> mm_state" where
  "take_block s page =
     (let (ret, m) = cl_pop (mlinks s) (free_queue page);
          h = headers s page
      in (ret, s\<lparr>mlinks := m, headers := (headers s)(page := h\<lparr>free_cnts := free_cnts h - 1\<rparr>)\<rparr>))"

definition malloc_block :: "mm_state \<Rightarrow> nat \<Rightarrow> (u32 \<times> mm_state) option" where
  "malloc_block s desc_idx = do {
     q \<leftarrow> load (mem_desc s) desc_idx;
     l \<leftarrow> cl_get_length (mlinks s) q;
     found \<leftarrow> find_free_page s q 0 (nat l);
     (case found of
        Some page \<Rightarrow>
          (let (ret, s1) = take_block s page;
               s2 = (if free_cnts (headers s1 page) = 0
                     then s1\<lparr>mlinks := cl_append (cl_remove (mlinks s1) q page) q page\<rparr> else s1)
           in Some (ret, clear_bytes s2 ret (each_block_size (headers s2 page))))
      | None \<Rightarrow> do {
          (page, s1) \<leftarrow> malloc_page s 1;
          s2 \<leftarrow> install_mem_header s1 page (push_bit (desc_idx + 3) 2);
          let s3 = s2\<lparr>mlinks := cl_push (mlinks s2) q page\<rparr>;
          let (ret, s4) = take_block s3 page;
          Some (ret, clear_bytes s4 ret (each_block_size (headers s4 page))) }) }"

definition mm_malloc :: "mm_state \<Rightarrow> u32 \<Rightarrow> (u32 \<times> mm_state) option" where
  "mm_malloc s cnt_bytes =
     (if cnt_bytes = 0 then Some (0, s)
      else if cnt_bytes > 1024 then do {
        let page_cnt = (cnt_bytes + page_size - 1) div page_size;
        (ret, s1) \<leftarrow> malloc_page s page_cnt;
        Some (ret, clear_bytes s1 ret (page_cnt * page_size)) }
      else do {
        desc_idx \<leftarrow> desc_index cnt_bytes 16 0;
        malloc_block s desc_idx })"

text \<open>The test for an empty page divides only the header's size by the block size. Freeing
  the header, whose address is a multiple of the page size, frees the page.\<close>

definition mm_free :: "mm_state \<Rightarrow> u32 \<Rightarrow> mm_state option" where
  "mm_free s buf =
     (if buf mod page_size = 0 then free_page s buf
      else do {
        let page = buf AND 0xfffff000;
        let h = headers s page;
        let h1 = h\<lparr>free_cnts := free_cnts h + 1\<rparr>;
        let s1 = s\<lparr>mlinks := cl_append (mlinks s) (free_queue page) buf, headers := (headers s)(page := h1)\<rparr>;
        desc_idx \<leftarrow> desc_index (each_block_size h1) 16 0;
        (if each_block_size h1 = 0 then None
         else do {
           let limit = page_size - sizeof_small_mem_header div each_block_size h1;
           (if free_cnts h1 = limit then do {
              q \<leftarrow> load (mem_desc s1) desc_idx;
              free_page (s1\<lparr>mlinks := cl_remove (mlinks s1) q page\<rparr>) page }
            else if 5 * free_cnts h1 \<ge> limit then do {
              q \<leftarrow> load (mem_desc s1) desc_idx;
              Some (s1\<lparr>mlinks := cl_push (cl_remove (mlinks s1) q page) q page\<rparr>) }
            else Some s1) }) })"

section \<open>Statistics\<close>

definition swar :: "u32 \<Rightarrow> u32" where
  "swar n0 =
     (let n1 = (n0 AND 0x55555555) + (drop_bit 1 n0 AND 0x55555555);
          n2 = (n1 AND 0x33333333) + (drop_bit 2 n1 AND 0x33333333);
          n3 = (n2 AND 0x0f0f0f0f) + (drop_bit 4 n2 AND 0x0f0f0f0f)
      in drop_bit 24 (n3 * 0x01010101))"

text \<open>The bytes of the map read as little-endian words.\<close>

fun used_pages :: "u8 list \<Rightarrow> nat \<Rightarrow> u32 option" where
  "used_pages bs 0 = Some 0"
| "used_pages (a # b # c # d # bs) (Suc n) = do {
     r \<leftarrow> used_pages bs n;
     Some (swar (ucast a OR push_bit 8 (ucast b) OR push_bit 16 (ucast c) OR push_bit 24 (ucast d)) + r) }"
| "used_pages bs (Suc n) = None"

text \<open>The three numbers that are printed: total, used and free kilobytes.\<close>

definition mem_info :: "mm_state \<Rightarrow> u32 \<Rightarrow> (u32 \<times> u32 \<times> u32) option" where
  "mem_info s all_mem = do {
     let b = phyaddr_bmap (phypool s);
     n \<leftarrow> used_pages (base b) (unat (bytes_len b div 4));
     let all_used = n * page_size;
     Some (drop_bit 10 all_mem, drop_bit 10 all_used, drop_bit 10 (all_mem - all_used)) }"

section \<open>Physical pages\<close>

abbreviation pbmap :: "mm_state \<Rightarrow> bitmap" where
  "pbmap s \<equiv> phyaddr_bmap (phypool s)"

abbreviation frame_addr :: "mm_state \<Rightarrow> nat \<Rightarrow> u32" where
  "frame_addr s i \<equiv> phyaddr_start (phypool s) + of_nat i * page_size"

definition pool_inv :: "mm_state \<Rightarrow> bool" where
  "pool_inv s \<longleftrightarrow> bm_wf (pbmap s) \<and> phyaddr_start (phypool s) \<noteq> 0
     \<and> unat (phyaddr_start (phypool s)) + bm_cap (pbmap s) * 4096 \<le> 2 ^ 32"

definition frame_index :: "mm_state \<Rightarrow> u32 \<Rightarrow> nat" where
  "frame_index s a = unat ((a - phyaddr_start (phypool s)) div page_size)"

definition alloc_frame :: "mm_state \<Rightarrow> (nat \<times> mm_state) option" where
  "alloc_frame s = do {
     (a, s') \<leftarrow> get_phy_page s;
     (if a = 0 then None else Some (frame_index s a, s')) }"

definition release_frame :: "mm_state \<Rightarrow> nat \<Rightarrow> mm_state option" where
  "release_frame s i = free_phy_page s (frame_addr s i)"

lemma frame_index_addr:
  assumes "pool_inv s" "i < bm_cap (pbmap s)"
  shows "frame_index s (frame_addr s i) = i" "frame_addr s i \<noteq> 0"
    "unat (frame_addr s i) = unat (phyaddr_start (phypool s)) + i * 4096"
proof -
  have b: "unat (phyaddr_start (phypool s)) + i * 4096 < 2 ^ 32" "0 < unat (phyaddr_start (phypool s))"
    using assms by (auto simp: pool_inv_def unat_gt_0)
  then have i: "unat (of_nat i :: u32) = i" by (intro unat_of_nat_small) simp
  then have i4: "unat (of_nat i * page_size) = i * 4096" using b by (simp add: word_conv)
  show "frame_index s (frame_addr s i) = i" using i4 by (simp add: frame_index_def unat_div)
  show u: "unat (frame_addr s i) = unat (phyaddr_start (phypool s)) + i * 4096"
    using i4 b unat_add_small [of "phyaddr_start (phypool s)" "of_nat i * page_size"] by simp
  have "unat (frame_addr s i) \<noteq> 0" using u b(2) by linarith
  then show "frame_addr s i \<noteq> 0" by (metis unat_0)
qed

lemma get_phy_page_cases:
  assumes "pool_inv s"
  obtains (full) "bm_used (pbmap s) = {..<bm_cap (pbmap s)}" "get_phy_page s = Some (0, s)"
  | (got) i b where "bm_used (pbmap s) \<noteq> {..<bm_cap (pbmap s)}" "i < bm_cap (pbmap s)" "i \<notin> bm_used (pbmap s)"
      "\<forall>k < i. k \<in> bm_used (pbmap s)"
      "get_phy_page s = Some (frame_addr s i, s\<lparr>phypool := (phypool s)\<lparr>phyaddr_bmap := b\<rparr>\<rparr>)"
      "bm_wf b" "bm_cap b = bm_cap (pbmap s)" "bm_used b = insert i (bm_used (pbmap s))"
proof -
  have wf: "bm_wf (pbmap s)" using assms by (simp add: pool_inv_def)
  show ?thesis
  proof (cases rule: bitmap_scan_one [OF wf])
    case 1
    then show ?thesis by (intro full) (simp_all add: get_phy_page_def)
  next
    case (2 r)
    then have ne: "bm_used (pbmap s) \<noteq> {..<bm_cap (pbmap s)}" by auto
    show ?thesis
    proof (cases rule: bitmap_scan_set [OF wf ne])
      case (1 k b)
      then show ?thesis by (intro got [OF ne, of k b]) (simp_all add: get_phy_page_def)
    qed
  qed
qed

interpretation frames: slot_allocator pool_inv "\<lambda>s. bm_cap (pbmap s)" "\<lambda>s. bm_used (pbmap s)"
  alloc_frame release_frame
proof
  show "bm_used (pbmap s) \<subseteq> {..<bm_cap (pbmap s)}" for s by (rule bm_used_cap)
next
  fix s
  assume inv: "pool_inv s" and free: "bm_used (pbmap s) \<noteq> {..<bm_cap (pbmap s)}"
  show "\<exists>i s'. alloc_frame s = Some (i, s') \<and> i < bm_cap (pbmap s) \<and> i \<notin> bm_used (pbmap s)
      \<and> (\<forall>k<i. k \<in> bm_used (pbmap s)) \<and> pool_inv s' \<and> bm_cap (pbmap s') = bm_cap (pbmap s)
      \<and> bm_used (pbmap s') = insert i (bm_used (pbmap s))"
  proof (cases rule: get_phy_page_cases [OF inv])
    case 1
    then show ?thesis using free by simp
  next
    case (2 i b)
    let ?s = "s\<lparr>phypool := (phypool s)\<lparr>phyaddr_bmap := b\<rparr>\<rparr>"
    have "alloc_frame s = Some (i, ?s)"
      using 2(5) frame_index_addr [OF inv 2(2)] by (simp add: alloc_frame_def)
    moreover have "pool_inv ?s" using inv 2 by (simp add: pool_inv_def)
    ultimately show ?thesis using 2 by (intro exI [of _ i] exI [of _ ?s]) simp
  qed
next
  fix s i
  assume inv: "pool_inv s" and i: "i < bm_cap (pbmap s)"
  have ix: "unat ((frame_addr s i - phyaddr_start (phypool s)) div page_size) = i"
    using frame_index_addr(1) [OF inv i] by (simp add: frame_index_def)
  have wf: "bm_wf (pbmap s)" using inv by (simp add: pool_inv_def)
  obtain b where b: "bitmap_set_bit (pbmap s) ((frame_addr s i - phyaddr_start (phypool s)) div page_size) 0 = Some b"
      "bm_wf b" "bm_cap b = bm_cap (pbmap s)" "bm_used b = bm_used (pbmap s) - {i}"
  proof (rule bitmap_set_bit_wf [OF wf, of "(frame_addr s i - phyaddr_start (phypool s)) div page_size" 0])
    show "unat ((frame_addr s i - phyaddr_start (phypool s)) div page_size) < bm_cap (pbmap s)"
      unfolding ix by (rule i)
  qed (simp only: ix, simp)
  let ?s = "s\<lparr>phypool := (phypool s)\<lparr>phyaddr_bmap := b\<rparr>\<rparr>"
  have "release_frame s i = Some ?s" using b(1) by (simp add: release_frame_def free_phy_page_def Let_def)
  moreover have "pool_inv ?s" using inv b by (simp add: pool_inv_def)
  ultimately show "\<exists>s'. release_frame s i = Some s' \<and> pool_inv s' \<and> bm_cap (pbmap s') = bm_cap (pbmap s)
      \<and> bm_used (pbmap s') = bm_used (pbmap s) - {i}"
    using b by (intro exI [of _ ?s]) simp
qed

section \<open>Address translation\<close>





lemma set_pt_ptables [simp]: "ptables (set_pt s a v) = (ptables s)(a := v)"
  by (simp add: set_pt_def)

lemma get_phy_page_ptables: "get_phy_page s = Some (a, s') \<Longrightarrow> ptables s' = ptables s"
  by (auto simp: get_phy_page_def bind_eq_Some_conv split: if_splits)

section \<open>Pages cut into blocks\<close>

definition blocks :: "u32 \<Rightarrow> u32 \<Rightarrow> nat \<Rightarrow> u32 list" where
  "blocks a bsz n = map (\<lambda>k. a + of_nat k * bsz) [0 ..< n]"

lemma blocks_Suc: "blocks a bsz (Suc n) = a # blocks (a + bsz) bsz n"
proof -
  have "[0 ..< Suc n] = 0 # map Suc [0 ..< n]" by (simp add: upt_conv_Cons map_Suc_upt del: upt_Suc)
  then show ?thesis by (simp add: blocks_def algebra_simps del: upt_Suc)
qed

lemma append_blocks_all: "append_blocks m q a bsz n = cl.append_all m q (blocks a bsz n)"
proof (induction n arbitrary: m a)
  case (Suc n)
  then show ?case by (simp add: blocks_Suc)
qed (simp add: blocks_def)

lemma aligned_nat: "page mod page_size = 0 \<longleftrightarrow> unat page mod 4096 = 0"
  by (simp add: word_eq_iff_unat unat_mod)

lemma in_page_addr:
  fixes page :: u32
  assumes "page mod page_size = 0" "unat off < 4096"
  shows "unat (page + off) = unat page + unat off"
proof -
  obtain q where q: "unat page = 4096 * q" using assms(1) by (auto simp: aligned_nat)
  have "unat page < 4294967296" using unsigned_less [of page] by simp
  then have "unat page + 4096 \<le> 4294967296" unfolding q by simp
  then show ?thesis using assms(2) by (simp add: word_conv)
qed

lemma block_offset:
  assumes "32 + k * unat bsz < 4096" "0 < unat bsz"
  shows "unat (32 + of_nat k * bsz :: u32) = 32 + k * unat bsz"
proof -
  have "k \<le> k * unat bsz" using assms(2) by simp
  then have "k < 4096" using assms(1) by linarith
  then have "unat (of_nat k * bsz) = k * unat bsz" using assms(1) by (simp add: word_conv)
  then show ?thesis using assms(1) by (simp add: word_conv)
qed

lemma block_addr:
  assumes "page mod page_size = 0" "32 + k * unat bsz < 4096" "0 < unat bsz"
  shows "unat (page + 32 + of_nat k * bsz) = unat page + 32 + k * unat bsz"
  using in_page_addr [OF assms(1), of "32 + of_nat k * bsz"] block_offset [OF assms(2,3)] assms(2)
  by (simp add: add.assoc)

definition block_count :: "u32 \<Rightarrow> nat" where
  "block_count bsz = 4064 div unat bsz"

definition page_range :: "u32 \<Rightarrow> u32 set" where
  "page_range page = {a. unat page \<le> unat a \<and> unat a < unat page + 4096}"

lemma block_bound:
  assumes "k < block_count bsz" "0 < unat bsz"
  shows "32 + k * unat bsz + unat bsz \<le> 4096"
proof -
  have "Suc k * unat bsz \<le> block_count bsz * unat bsz" using assms(1) by (intro mult_le_mono1) simp
  also have "\<dots> \<le> 4064" by (simp add: block_count_def)
  finally show ?thesis by simp
qed

lemma blocks_in_page:
  assumes "page mod page_size = 0" "0 < unat bsz" "b \<in> set (blocks (page + 32) bsz (block_count bsz))"
  shows "unat page + 32 \<le> unat b" "unat b + unat bsz \<le> unat page + 4096"
proof -
  obtain k where k: "k < block_count bsz" "b = page + 32 + of_nat k * bsz"
    using assms(3) by (auto simp: blocks_def)
  have bnd: "32 + k * unat bsz + unat bsz \<le> 4096" using block_bound [OF k(1) assms(2)] .
  then have "unat b = unat page + 32 + k * unat bsz"
    using block_addr [OF assms(1), of k bsz] assms(2) k(2) by simp
  then show "unat page + 32 \<le> unat b" "unat b + unat bsz \<le> unat page + 4096" using bnd by simp_all
qed

lemma blocks_distinct:
  assumes "page mod page_size = 0" "0 < unat bsz"
  shows "distinct (blocks (page + 32) bsz (block_count bsz))"
proof -
  have "k = j" if "k < block_count bsz" "j < block_count bsz"
      "page + 32 + of_nat k * bsz = page + 32 + of_nat j * bsz" for k j
  proof -
    have "32 + k * unat bsz < 4096" "32 + j * unat bsz < 4096"
      using block_bound [OF that(1) assms(2)] block_bound [OF that(2) assms(2)] assms(2) by linarith+
    then have "unat page + 32 + k * unat bsz = unat page + 32 + j * unat bsz"
      using block_addr [OF assms(1) _ assms(2)] that(3) by metis
    then show ?thesis using assms(2) by simp
  qed
  then show ?thesis unfolding blocks_def by (auto simp: distinct_map inj_on_def)
qed

lemma install_mem_header_ok:
  assumes pg: "page mod page_size = 0" and b: "0 < unat bsz"
  shows "\<exists>s'. install_mem_header s page bsz = Some s'
    \<and> headers s' = (headers s)(page := \<lparr>each_block_size = bsz, free_cnts = of_nat (block_count bsz)\<rparr>)
    \<and> cl_rel (mlinks s') (free_queue page) (blocks (page + 32) bsz (block_count bsz))
    \<and> (\<forall>l xs. cl_rel (mlinks s) l xs \<and> cl_nodes l xs \<inter> page_range page = {} \<longrightarrow> cl_rel (mlinks s') l xs)
    \<and> mem_desc s' = mem_desc s \<and> ptables s' = ptables s"
proof -
  let ?q = "free_queue page" and ?bs = "blocks (page + 32) bsz (block_count bsz)"
  let ?m = "cl_initialize (mlinks s) ?q"
  have cnt: "unat ((page_size - sizeof_small_mem_header) div bsz) = block_count bsz"
    by (simp add: unat_div block_count_def)
  have off: "unat (page + 16) = unat page + 16" "unat (page + 24) = unat page + 24"
    using in_page_addr [OF pg, of 16] in_page_addr [OF pg, of 24] by simp_all
  have ne: "page + 16 \<noteq> page + 24" by simp
  have rel: "cl_rel ?m ?q []" by (rule cl_rel_initialize) simp
  have inp: "unat page + 32 \<le> unat x \<and> unat x < unat page + 4096" if "x \<in> set ?bs" for x
    using blocks_in_page [OF pg b that] b by linarith
  have dis: "set ?bs \<inter> cl_nodes ?q [] = {}"
    using inp off by (fastforce simp: cl_nodes_def)
  have rel': "cl_rel (append_blocks ?m ?q (page + 32) bsz (block_count bsz)) ?q ?bs"
    using cl.rel_append_all [OF rel dis blocks_distinct [OF pg b]] by (simp add: append_blocks_all)
  have frame: "cl_rel (append_blocks ?m ?q (page + 32) bsz (block_count bsz)) l xs"
    if l: "cl_rel (mlinks s) l xs" "cl_nodes l xs \<inter> page_range page = {}" for l xs
  proof -
    have out: "x \<notin> page_range page" if "x \<in> cl_nodes l xs" for x using l(2) that by auto
    have hd: "page + 16 \<in> page_range page" "page + 24 \<in> page_range page"
      using off by (simp_all add: page_range_def)
    have "cl_rel ?m l xs \<longleftrightarrow> cl_rel (mlinks s) l xs"
      using out hd by (intro cl_rel_cong) (auto simp: cl_initialize_def Let_def)
    moreover have "cl_nodes l xs \<inter> (cl_nodes ?q [] \<union> set ?bs) = {}"
      using out hd inp by (fastforce simp: cl_nodes_def page_range_def)
    ultimately show ?thesis
      using cl.frame_append_all [OF rel _ dis blocks_distinct [OF pg b]] l(1) by (simp add: append_blocks_all)
  qed
  have cw: "(page_size - sizeof_small_mem_header) div bsz = of_nat (block_count bsz)"
    unfolding cnt [symmetric] by (simp add: unsigned_eq_0_iff)
  have "bsz \<noteq> 0" using b by auto
  then have "install_mem_header s page bsz = Some (s\<lparr>headers := (headers s)(page := \<lparr>each_block_size = bsz,
      free_cnts = of_nat (block_count bsz)\<rparr>), mlinks := append_blocks ?m ?q (page + 32) bsz (block_count bsz)\<rparr>)"
    using pg cnt unfolding install_mem_header_def Let_def cw [symmetric] by simp
  then show ?thesis using rel' frame by simp
qed

text \<open>The smallest size class that holds a request.\<close>

lemma desc_index_class:
  assumes "unat cnt \<le> 1024"
  shows "\<exists>i \<le> 6. desc_index cnt 16 0 = Some i \<and> unat cnt \<le> 16 * 2 ^ i \<and> (i = 0 \<or> 16 * 2 ^ (i - 1) < unat cnt)"
proof -
  note unf = desc_index.simps word_less_nat_alt
  consider "unat cnt \<le> 16" | "16 < unat cnt" "unat cnt \<le> 32" | "32 < unat cnt" "unat cnt \<le> 64"
    | "64 < unat cnt" "unat cnt \<le> 128" | "128 < unat cnt" "unat cnt \<le> 256"
    | "256 < unat cnt" "unat cnt \<le> 512" | "512 < unat cnt" "unat cnt \<le> 1024"
    using assms by linarith
  then show ?thesis
  proof cases
    case 1 then show ?thesis by (intro exI [of _ 0]) (simp add: unf)
  next
    case 2 then show ?thesis by (intro exI [of _ 1]) (simp add: unf)
  next
    case 3 then show ?thesis by (intro exI [of _ 2]) (simp add: unf)
  next
    case 4 then show ?thesis by (intro exI [of _ 3]) (simp add: unf)
  next
    case 5 then show ?thesis by (intro exI [of _ 4]) (simp add: unf)
  next
    case 6 then show ?thesis by (intro exI [of _ 5]) (simp add: unf)
  next
    case 7 then show ?thesis by (intro exI [of _ 6]) (simp add: unf)
  qed
qed

lemma desc_index_eq:
  assumes "unat cnt \<le> 1024" "unat cnt \<le> 16 * 2 ^ i" "i = 0 \<or> 16 * 2 ^ (i - 1) < unat cnt"
  shows "desc_index cnt 16 0 = Some i"
proof -
  obtain j where j: "desc_index cnt 16 0 = Some j" "unat cnt \<le> 16 * 2 ^ j" "j = 0 \<or> 16 * 2 ^ (j - 1) < unat cnt"
    using desc_index_class [OF assms(1)] by blast
  have no: "\<not> a < b" if "unat cnt \<le> 16 * 2 ^ a" "b = 0 \<or> 16 * 2 ^ (b - 1) < unat cnt" for a b :: nat
  proof
    assume "a < b"
    then have "(2::nat) ^ a \<le> 2 ^ (b - 1)" by (intro power_increasing) auto
    moreover have "16 * 2 ^ (b - 1) < unat cnt" using that(2) \<open>a < b\<close> by simp
    ultimately show False using that(1) by linarith
  qed
  have "i = j" using no [OF assms(2) j(3)] no [OF j(2) assms(3)] by simp
  then show ?thesis using j(1) by simp
qed

text \<open>A page of the queue of a class with the list of its free blocks.\<close>

definition page_ok :: "mm_state \<Rightarrow> u32 \<Rightarrow> u32 list \<Rightarrow> bool" where
  "page_ok s page fl \<longleftrightarrow> cl_rel (mlinks s) (free_queue page) fl \<and> length fl < 256
     \<and> free_cnts (headers s page) = of_nat (length fl)"

lemma clear_bytes_simps [simp]:
  "mlinks (clear_bytes s a n) = mlinks s" "headers (clear_bytes s a n) = headers s"
  "mem_desc (clear_bytes s a n) = mem_desc s" "ptables (clear_bytes s a n) = ptables s"
  "mbytes (clear_bytes s a n) x = (if x - a < n then 0 else mbytes s x)"
  by (simp_all add: clear_bytes_def)

lemma malloc_block_first:
  assumes q: "load (mem_desc s) i = Some q" and rel: "cl_rel (mlinks s) q (page # ps)"
    and pg: "page_ok s page (b # bs)"
    and dis: "cl_nodes q (page # ps) \<inter> cl_nodes (free_queue page) (b # bs) = {}"
  shows "\<exists>s'. malloc_block s i = Some (b, s') \<and> page_ok s' page bs
    \<and> cl_rel (mlinks s') q (if bs = [] then ps @ [page] else page # ps)
    \<and> (\<forall>x. x - b < each_block_size (headers s page) \<longrightarrow> mbytes s' x = 0)
    \<and> (\<forall>p. p \<noteq> page \<longrightarrow> headers s' p = headers s p)"
proof -
  let ?f = "free_queue page" and ?h = "headers s page"
  have fr: "cl_rel (mlinks s) ?f (b # bs)" and len: "length (b # bs) < 256"
    and cnt: "free_cnts ?h = of_nat (length (b # bs))" using pg by (auto simp: page_ok_def)
  have u: "unat (free_cnts ?h) = length (b # bs)" using cnt len by (simp add: unat_of_nat_small del: of_nat_Suc)
  then have nz: "free_cnts ?h \<noteq> 0" by auto
  have "cl_get_elem (mlinks s) q 0 = Some page" using cl_rel_get_elem [OF rel] by simp
  then have found: "find_free_page s q 0 (Suc (length ps)) = Some (Some page)" using nz by simp
  have gl: "cl_get_length (mlinks s) q = Some (int (Suc (length ps)))" using cl_rel_get_length [OF rel] by simp
  let ?m = "cl_remove (mlinks s) ?f b"
  let ?s1 = "s\<lparr>mlinks := ?m, headers := (headers s)(page := ?h\<lparr>free_cnts := free_cnts ?h - 1\<rparr>)\<rparr>"
  have tk: "take_block s page = (b, ?s1)" using cl_rel_pop [OF fr] by (simp add: take_block_def Let_def)
  have fr': "cl_rel ?m ?f bs" using cl.rel_remove [OF fr, of b] by simp
  have rel': "cl_rel ?m q (page # ps)" using cl.frame_remove [OF fr _ rel dis] by simp
  have c1: "free_cnts ?h - 1 = of_nat (length bs)" using cnt by simp
  have z: "free_cnts ?h - 1 = 0 \<longleftrightarrow> bs = []"
    unfolding c1 word_eq_iff_unat using len by (simp add: unat_of_nat_small)
  let ?s2 = "if free_cnts (headers ?s1 page) = 0
    then ?s1\<lparr>mlinks := cl_append (cl_remove ?m q page) q page\<rparr> else ?s1"
  have run: "malloc_block s i = Some (b, clear_bytes ?s2 b (each_block_size (headers ?s2 page)))"
    using q found tk gl by (simp add: malloc_block_def Let_def del: of_nat_Suc find_free_page.simps)
  have nodes: "cl_nodes ?f bs \<inter> cl_nodes q (page # ps) = {}"
    using dis by (auto simp: cl_nodes_def)
  have moved: "cl_rel (cl_append (cl_remove ?m q page) q page) q (ps @ [page])"
    using cl.move_to_back [OF rel', of page] by simp
  have q': "cl_rel (cl_remove ?m q page) q ps" using cl.rel_remove [OF rel', of page] by simp
  have "cl_rel (cl_remove ?m q page) ?f bs" by (rule cl.frame_remove [OF rel' _ fr' nodes]) simp
  moreover have "cl_nodes ?f bs \<inter> insert page (cl_nodes q ps) = {}" using nodes by (auto simp: cl_nodes_def)
  ultimately have mf: "cl_rel (cl_append (cl_remove ?m q page) q page) ?f bs"
    by (rule cl.frame_append [OF q'])
  have "page_ok ?s2 page bs" using z fr' mf c1 len by (cases "bs = []") (auto simp: page_ok_def)
  moreover have "cl_rel (mlinks ?s2) q (if bs = [] then ps @ [page] else page # ps)"
    using z moved rel' by simp
  ultimately show ?thesis
    using run by (intro exI [of _ "clear_bytes ?s2 b (each_block_size (headers ?s2 page))"]) (auto simp: page_ok_def)
qed

lemma get_phy_page_got:
  assumes "pool_inv s" "get_phy_page s = Some (a, s')" "a \<noteq> 0"
  shows "alloc_frame s = Some (frame_index s a, s')" "bm_used (pbmap s) \<noteq> {..<bm_cap (pbmap s)}"
    "a = frame_addr s (frame_index s a)" "phyaddr_start (phypool s') = phyaddr_start (phypool s)"
proof -
  show "alloc_frame s = Some (frame_index s a, s')" using assms(2,3) by (simp add: alloc_frame_def)
  show "bm_used (pbmap s) \<noteq> {..<bm_cap (pbmap s)}"
    by (cases rule: get_phy_page_cases [OF assms(1)]) (use assms in auto)
  show "a = frame_addr s (frame_index s a)"
    by (cases rule: get_phy_page_cases [OF assms(1)]) (use assms frame_index_addr in auto)
  show "phyaddr_start (phypool s') = phyaddr_start (phypool s)"
    by (cases rule: get_phy_page_cases [OF assms(1)]) (use assms in auto)
qed

section \<open>Properties\<close>

text \<open>C26: two physical pages handed out one after the other are different, and giving the
  second one back restores the set of used pages.\<close>

theorem phys_pages_distinct:
  assumes "pool_inv s" and "get_phy_page s = Some (a, s')" and "a \<noteq> 0"
    and "get_phy_page s' = Some (b, s'')" and "b \<noteq> 0"
  shows "a \<noteq> b \<and> (\<exists>t. free_phy_page s'' b = Some t \<and> pool_inv t \<and> bm_used (pbmap t) = bm_used (pbmap s'))"
proof -
  note f = get_phy_page_got [OF assms(1-3)]
  have inv: "pool_inv s'" using frames.alloc_SomeD(4) [OF assms(1) f(2,1)] .
  note g = get_phy_page_got [OF inv assms(4,5)]
  have "frame_index s a \<noteq> frame_index s' b" by (rule frames.alloc_alloc_distinct [OF assms(1) f(2,1) g(2,1)])
  then have "a \<noteq> b" using f(4) by (auto simp: frame_index_def)
  moreover have "release_frame s'' (frame_index s' b) = free_phy_page s'' b"
    using g(3,4) by (simp add: release_frame_def)
  ultimately show ?thesis using frames.alloc_release [OF inv g(2,1)] by auto
qed


text \<open>Cutting a page makes a header that counts the blocks that fit behind it, a free list
  of exactly these blocks, each inside the page and disjoint from the header, and leaves every
  list outside the page as it was.\<close>

lemma install_mem_header_cuts_page:
  assumes "page mod page_size = 0" and "0 < unat bsz"
  shows "\<exists>s'. install_mem_header s page bsz = Some s'
    \<and> headers s' page = \<lparr>each_block_size = bsz, free_cnts = of_nat (block_count bsz)\<rparr>
    \<and> cl_rel (mlinks s') (free_queue page) (blocks (page + 32) bsz (block_count bsz))
    \<and> (\<forall>b \<in> set (blocks (page + 32) bsz (block_count bsz)).
          unat page + 32 \<le> unat b \<and> unat b + unat bsz \<le> unat page + 4096)
    \<and> (\<forall>l xs. cl_rel (mlinks s) l xs \<and> cl_nodes l xs \<inter> page_range page = {} \<longrightarrow> cl_rel (mlinks s') l xs)"
  using install_mem_header_ok [OF assms, of s] blocks_in_page [OF assms] by fastforce

text \<open>C24: a request of at most 1024 bytes is served from the smallest class that holds it.
  When the first page of the class has free blocks, the first of them is returned, cleared, and
  leaves the page's free list; a page whose last block was taken goes to the end of its queue.\<close>

theorem malloc_takes_first_free_block:
  assumes "0 < cnt" and "cnt \<le> 1024" and "unat cnt \<le> 16 * 2 ^ i" and "i = 0 \<or> 16 * 2 ^ (i - 1) < unat cnt"
    and "load (mem_desc s) i = Some q" and "cl_rel (mlinks s) q (page # ps)" and "page_ok s page (b # bs)"
    and "cl_nodes q (page # ps) \<inter> cl_nodes (free_queue page) (b # bs) = {}"
  shows "\<exists>s'. mm_malloc s cnt = Some (b, s') \<and> page_ok s' page bs
    \<and> cl_rel (mlinks s') q (if bs = [] then ps @ [page] else page # ps)
    \<and> (\<forall>x. x - b < each_block_size (headers s page) \<longrightarrow> mbytes s' x = 0)"
proof -
  have "desc_index cnt 16 0 = Some i" using desc_index_eq [OF _ assms(3,4)] assms(2) by (simp add: word_le_nat_alt)
  then have "mm_malloc s cnt = malloc_block s i" using assms(1,2) by (auto simp: mm_malloc_def not_less)
  then show ?thesis using malloc_block_first [OF assms(5-8)] by auto
qed

text \<open>Freeing a block only appends it to the free list of its page. Because of the
  precedence of the division in the two tests, no number of free blocks ever returns the page
  or moves it to the front of its queue.\<close>

lemma free_block_only_appends:
  assumes "page = buf AND 0xfffff000" and "buf mod page_size \<noteq> 0" and "page_ok s page fl" and "length fl < 254"
    and "16 \<le> each_block_size (headers s page)" and "each_block_size (headers s page) \<le> 1024"
    and "buf \<notin> cl_nodes (free_queue page) fl"
  shows "\<exists>s'. mm_free s buf = Some s' \<and> page_ok s' page (fl @ [buf])
    \<and> s' = s\<lparr>mlinks := cl_append (mlinks s) (free_queue page) buf,
            headers := (headers s)(page := (headers s page)\<lparr>free_cnts := of_nat (Suc (length fl))\<rparr>)\<rparr>"
proof -
  let ?h = "headers s page"
  have c: "free_cnts ?h + 1 = of_nat (Suc (length fl))" using assms(3) by (simp add: page_ok_def)
  have cu: "unat (free_cnts ?h + 1) = Suc (length fl)"
    unfolding c using assms(4) by (simp add: unat_of_nat_small del: of_nat_Suc)
  have bs: "16 \<le> unat (each_block_size ?h)" "unat (each_block_size ?h) \<le> 1024"
    using assms(5,6) by (simp_all add: word_le_nat_alt)
  have "unat (32 div each_block_size ?h) \<le> 2"
    using bs(1) div_le_mono2 [of 16 "unat (each_block_size ?h)" 32] by (simp add: unat_div)
  then have lim: "unat (4096 - 32 div each_block_size ?h) \<ge> 4094"
    by (simp add: unat_sub word_le_nat_alt)
  have five: "unat (5 * (free_cnts ?h + 1)) = 5 * Suc (length fl)"
    using cu assms(4) unat_mult_small [of 5 "free_cnts ?h + 1"] by simp
  have n1: "free_cnts ?h + 1 \<noteq> 4096 - 32 div each_block_size ?h" using lim cu assms(4) by auto
  have n2: "\<not> 4096 - 32 div each_block_size ?h \<le> 5 * (free_cnts ?h + 1)"
    using lim five assms(4) by (simp add: word_le_nat_alt)
  obtain i where "desc_index (each_block_size ?h) 16 0 = Some i" using desc_index_class bs(2) by blast
  moreover have "each_block_size ?h \<noteq> 0" using bs(1) by auto
  ultimately have run: "mm_free s buf = Some (s\<lparr>mlinks := cl_append (mlinks s) (free_queue page) buf,
      headers := (headers s)(page := ?h\<lparr>free_cnts := free_cnts ?h + 1\<rparr>)\<rparr>)"
    using assms(1,2) n1 n2 by (simp add: mm_free_def Let_def)
  have "cl_rel (cl_append (mlinks s) (free_queue page) buf) (free_queue page) (fl @ [buf])"
    using assms(3,7) cl.rel_append by (simp add: page_ok_def)
  then show ?thesis using run c assms(4) by (simp add: page_ok_def)
qed

section \<open>Witnesses\<close>

definition small_mm :: mm_state where
  "small_mm = \<lparr>initproc_vir = \<lparr>vaddr_bmap = \<lparr>db_bytes_len = 1, db_base = [0, 0]\<rparr>, vaddr_start = 0x200000\<rparr>,
     phypool = \<lparr>phyaddr_bmap = \<lparr>bytes_len = 1, base = [0, 0]\<rparr>, phyaddr_start = 0x200000, pool_size = 0x8000\<rparr>,
     mem_desc = replicate 7 \<lparr>cl_head = 8, cl_tail = 16\<rparr>,
     mlinks = cl_initialize \<lparr>prev_of = (\<lambda>_. 0), next_of = (\<lambda>_. 0)\<rparr> \<lparr>cl_head = 8, cl_tail = 16\<rparr>,
     headers = (\<lambda>_. \<lparr>each_block_size = 16, free_cnts = 0\<rparr>), ptables = (\<lambda>_. 0), mbytes = (\<lambda>_. 0)\<rparr>"

lemma small_mm_pool: "pool_inv small_mm"
  by (simp add: pool_inv_def small_mm_def bm_wf_def bm_cap_def)

theorem phys_pages_distinct_witness:
  "\<exists>s' s''. get_phy_page small_mm = Some (0x200000, s') \<and> get_phy_page s' = Some (0x201000, s'')
     \<and> (0x200000 :: u32) \<noteq> 0x201000 \<and> (\<exists>t. free_phy_page s'' 0x201000 = Some t \<and> bm_used (pbmap t) = bm_used (pbmap s'))"
proof -
  let ?s1 = "small_mm\<lparr>phypool := (phypool small_mm)\<lparr>phyaddr_bmap := \<lparr>bytes_len = 1, base = [1, 0]\<rparr>\<rparr>\<rparr>"
  let ?s2 = "small_mm\<lparr>phypool := (phypool small_mm)\<lparr>phyaddr_bmap := \<lparr>bytes_len = 1, base = [3, 0]\<rparr>\<rparr>\<rparr>"
  have "bitmap_scan \<lparr>bytes_len = 1, base = [0, 0]\<rparr> 1 = Some 0"
      "bitmap_set_bit \<lparr>bytes_len = 1, base = [0, 0]\<rparr> 0 1 = Some \<lparr>bytes_len = 1, base = [1, 0]\<rparr>"
      "bitmap_scan \<lparr>bytes_len = 1, base = [1, 0]\<rparr> 1 = Some 1"
      "bitmap_set_bit \<lparr>bytes_len = 1, base = [1, 0]\<rparr> 1 1 = Some \<lparr>bytes_len = 1, base = [3, 0]\<rparr>"
    by code_simp+
  then have "get_phy_page small_mm = Some (0x200000, ?s1)" "get_phy_page ?s1 = Some (0x201000, ?s2)"
    by (simp_all add: get_phy_page_def small_mm_def)
  with phys_pages_distinct [OF small_mm_pool this(1) _ this(2)] show ?thesis by auto
qed


text \<open>A page cut into blocks of 16 bytes is the only page of its class.\<close>

theorem malloc_takes_first_free_block_witness:
  "\<exists>s s'. mm_malloc s 10 = Some (0x400020, s') \<and> page_ok s' 0x400000 (blocks 0x400030 16 253)"
proof -
  let ?p = "0x400000 :: u32" and ?q = "\<lparr>cl_head = 8, cl_tail = 16\<rparr> :: cycle_list"
  have q0: "cl_rel (mlinks small_mm) ?q []" by (simp add: small_mm_def cl_rel_initialize)
  have out: "cl_nodes ?q [] \<inter> page_range ?p = {}" by (auto simp: cl_nodes_def page_range_def)
  have pg: "?p mod page_size = 0" "0 < unat (16 :: u32)" by simp_all
  obtain s :: mm_state where s: "headers s = (headers small_mm)(?p := \<lparr>each_block_size = 16, free_cnts = of_nat (block_count 16)\<rparr>)"
      "cl_rel (mlinks s) (free_queue ?p) (blocks (?p + 32) 16 (block_count 16))" "cl_rel (mlinks s) ?q []"
      "mem_desc s = mem_desc small_mm"
    using install_mem_header_ok [OF pg, of small_mm] q0 out by metis
  have bl: "blocks (?p + 32) 16 (block_count 16) = 0x400020 # blocks 0x400030 16 253"
    using blocks_Suc [of "?p + 32" 16 253] by (simp add: block_count_def)
  have inb: "unat ?p + 32 \<le> unat x" if "x \<in> set (0x400020 # blocks 0x400030 16 253)" for x
    using blocks_in_page(1) [of ?p 16 x] that unfolding bl [symmetric] by simp
  let ?fn = "cl_nodes (free_queue ?p) (0x400020 # blocks 0x400030 16 253)"
  have small: "unat x \<noteq> 8 \<and> unat x \<noteq> 16 \<and> unat x \<noteq> 0x400000" if "x \<in> ?fn" for x
    using that inb [of x] by (auto simp: cl_nodes_def)
  then have dis: "?fn \<inter> insert ?p (cl_nodes ?q []) = {}" by (fastforce simp: cl_nodes_def)
  let ?s = "s\<lparr>mlinks := cl_push (mlinks s) ?q ?p\<rparr>"
  have "cl_rel (mlinks ?s) (free_queue ?p) (0x400020 # blocks 0x400030 16 253)"
    using cl.frame_push [OF s(3) s(2)] dis unfolding bl by simp
  then have ok: "page_ok ?s ?p (0x400020 # blocks 0x400030 16 253)"
    using s(1) by (simp add: page_ok_def block_count_def blocks_def)
  have rel: "cl_rel (mlinks ?s) ?q [?p]" using cl.rel_push [OF s(3), of ?p] by (simp add: cl_nodes_def)
  have ld: "load (mem_desc ?s) 0 = Some ?q" using s(4) by (simp add: load_def small_mm_def)
  have nd: "cl_nodes ?q [?p] \<inter> ?fn = {}" using dis by (auto simp: cl_nodes_def)
  from malloc_takes_first_free_block [OF _ _ _ _ ld rel ok nd, of 10] show ?thesis by auto
qed

end
