(* ===== verification/Machine.thy ===== *)
theory Machine
  imports Lib_String
begin

text \<open>
  Model of the code that sets the processor up: the interrupt descriptor table and the
  interrupt controller (\<open>kernel/interrupt.cc\<close>), the timer chip (\<open>init_pit\<close> of
  \<open>kernel/timer.cc\<close>), the first page tables (\<open>kernel/page.cc\<close>), the task state segment
  (\<open>kernel/tss.cc\<close>) and the commands that stop the machine (\<open>kernel/machine.cc\<close>).

  The state has the bytes written to ports, in order, the interrupt flag, the tables and the
  words of physical memory. The addresses of the assembly entry points are parameters. The
  inline assembly is modelled by its effect (\<open>lidt\<close>, \<open>cli\<close>, \<open>sti\<close>, writing
  \<open>cr3\<close>, setting the paging bit).

  The theory shows that every gate leads to its handler and only the system call gate can be
  entered from user mode, that the descriptors decode to the base and limit they were made
  from, and that the first page tables map the low memory to itself.
\<close>

section \<open>State\<close>

record idt_entry =
  off_low16 :: u16
  seg_selector :: u16
  reserved :: u8
  flags :: u8
  off_high16 :: u16

record idt_ptr =
  limit :: u16
  idt_base :: u32

record gdt_desc =
  limit_low :: u16
  base_low :: u16
  base_mid :: u8
  attr_low :: u8
  limit_high :: u8
  base_high :: u8

record machine =
  ports :: "(u16 \<times> u8) list"
  intr_flag :: bool
  IDT :: "idt_entry list"
  idtr :: idt_ptr
  real_handlers :: "u32 list"
  phys :: "u32 \<Rightarrow> u32"
  cr3 :: u32
  paging_on :: bool
  tss_ss0 :: u32
  tss_io_base :: u32
  gdt_tss :: gdt_desc
  task_reg :: u16
  halted :: bool

definition outb :: "machine \<Rightarrow> u16 \<Rightarrow> u8 \<Rightarrow> machine" where
  "outb m port v = m\<lparr>ports := ports m @ [(port, v)]\<rparr>"

fun outbs :: "machine \<Rightarrow> (u16 \<times> u8) list \<Rightarrow> machine" where
  "outbs m [] = m"
| "outbs m ((port, v) # ps) = outbs (outb m port v) ps"

section \<open>Interrupts\<close>

definition init_8259A :: "machine \<Rightarrow> machine" where
  "init_8259A m = outbs m
     [(0x20, 0x11), (0xa0, 0x11), (0x21, 0x20), (0xa1, 0x28), (0x21, 0x04), (0xa1, 0x02),
      (0x21, 0x01), (0xa1, 0x01), (0x21, 0xf8), (0xa1, 0xbb)]"

definition selector_code :: u16 where "selector_code = 0x8"

definition set_idt_entry :: "machine \<Rightarrow> u8 \<Rightarrow> u32 \<Rightarrow> u16 \<Rightarrow> u8 \<Rightarrow> machine" where
  "set_idt_entry m nr offs sel fl =
     m\<lparr>IDT := (IDT m)[unat nr := \<lparr>off_low16 = ucast (offs AND 0xffff), seg_selector = sel, reserved = 0,
        flags = fl, off_high16 = ucast (drop_bit 16 offs AND 0xffff)\<rparr>]\<rparr>"

definition load_idt :: "machine \<Rightarrow> idt_ptr \<Rightarrow> machine" where
  "load_idt m p = m\<lparr>idtr := p\<rparr>"

fun set_gates :: "machine \<Rightarrow> (nat \<Rightarrow> u32) \<Rightarrow> nat \<Rightarrow> machine" where
  "set_gates m intr_handler 0 = m"
| "set_gates m intr_handler (Suc n) =
     set_idt_entry (set_gates m intr_handler n) (of_nat n) (intr_handler n) selector_code 0x8e"

definition init_idt :: "machine \<Rightarrow> (nat \<Rightarrow> u32) \<Rightarrow> u32 \<Rightarrow> u32 \<Rightarrow> machine" where
  "init_idt m intr_handler syscall_pre_handler IDT_addr =
     (let m1 = set_gates m intr_handler 48;
          m2 = set_idt_entry m1 0x99 syscall_pre_handler selector_code 0xee
      in load_idt m2 \<lparr>limit = 8 * 256 - 1, idt_base = IDT_addr\<rparr>)"

definition general_intr_handler :: "machine \<Rightarrow> u32 \<Rightarrow> u32 option option" where
  "general_intr_handler m nr = do {
     h \<leftarrow> load (real_handlers m) (unat nr);
     Some (if h \<noteq> 0 then Some h else None) }"

definition register_intr_handler :: "machine \<Rightarrow> u32 \<Rightarrow> u32 \<Rightarrow> machine option" where
  "register_intr_handler m nr handler = do {
     t \<leftarrow> store (real_handlers m) (unat nr) handler;
     Some (m\<lparr>real_handlers := t\<rparr>) }"

definition enable_intr :: "machine \<Rightarrow> bool \<times> machine" where
  "enable_intr m = (intr_flag m, m\<lparr>intr_flag := True\<rparr>)"

definition disable_intr :: "machine \<Rightarrow> bool \<times> machine" where
  "disable_intr m = (intr_flag m, m\<lparr>intr_flag := False\<rparr>)"

definition set_intr :: "machine \<Rightarrow> bool \<Rightarrow> machine" where
  "set_intr m old_status = (if old_status then snd (enable_intr m) else snd (disable_intr m))"

definition disable_all_intr :: "machine \<Rightarrow> machine" where
  "disable_all_intr m = outbs m [(0x21, 0xff), (0xa1, 0xff)]"

definition init_pit :: "machine \<Rightarrow> u32 \<Rightarrow> machine option" where
  "init_pit m timer_handler = do {
     m1 \<leftarrow> register_intr_handler m 0x20 timer_handler;
     let divisor = (1193180 :: u32) div 100;
     let low_byte = ucast (divisor AND 0xff);
     let high_byte = ucast (drop_bit 8 divisor AND 0xff);
     Some (outbs m1 [(0x43, 0x36), (0x40, low_byte), (0x40, high_byte)]) }"

definition init_intr :: "machine \<Rightarrow> (nat \<Rightarrow> u32) \<Rightarrow> u32 \<Rightarrow> u32 \<Rightarrow> u32 \<Rightarrow> machine option" where
  "init_intr m intr_handler syscall_pre_handler IDT_addr timer_handler =
     init_pit (init_idt (init_8259A m) intr_handler syscall_pre_handler IDT_addr) timer_handler"

section \<open>Segments\<close>

abbreviation (input) sizeof_tss :: u32 where "sizeof_tss \<equiv> 108"

definition make_gdt_desc :: "u32 \<Rightarrow> u32 \<Rightarrow> u8 \<Rightarrow> u8 \<Rightarrow> gdt_desc" where
  "make_gdt_desc desc_addr lim alow ahigh =
     \<lparr>limit_low = ucast (lim AND 0xffff), base_low = ucast (desc_addr AND 0xffff),
      base_mid = ucast (drop_bit 16 (desc_addr AND 0xff0000)), attr_low = alow,
      limit_high = ucast (drop_bit 16 (lim AND 0xf0000)) + ahigh, base_high = ucast (drop_bit 24 desc_addr)\<rparr>"

definition install_tss :: "machine \<Rightarrow> u32 \<Rightarrow> machine" where
  "install_tss m tss_addr =
     m\<lparr>tss_ss0 := push_bit 3 2, tss_io_base := sizeof_tss,
       gdt_tss := make_gdt_desc tss_addr (sizeof_tss - 1) 0x89 0x80, task_reg := push_bit 3 7\<rparr>"

section \<open>Paging\<close>

definition page_dir_base :: u32 where "page_dir_base = 0x100000"
definition default_pageattr :: u32 where "default_pageattr = 7"

text \<open>The loop that fills the page table, from a table entry and a page on.\<close>

fun fill_table :: "nat \<Rightarrow> u32 \<Rightarrow> u32 \<Rightarrow> (u32 \<Rightarrow> u32) \<Rightarrow> u32 \<Rightarrow> u32" where
  "fill_table 0 p entry mem = mem"
| "fill_table (Suc n) p entry mem = fill_table n (p + 4) (entry + 4096) (mem(p := entry OR default_pageattr))"

definition install_page :: "machine \<Rightarrow> machine" where
  "install_page m =
     (let first_pagetable = page_dir_base + 4096;
          mem0 = (\<lambda>a. if page_dir_base \<le> a \<and> a < page_dir_base + 4096 then 0 else phys m a);
          mem1 = mem0(page_dir_base := first_pagetable OR default_pageattr);
          mem2 = mem1(page_dir_base + 4 * 1023 := page_dir_base + default_pageattr);
          mem3 = fill_table 528 first_pagetable 0 mem2
      in m\<lparr>phys := mem3, cr3 := page_dir_base, paging_on := True\<rparr>)"

section \<open>Stopping the machine\<close>

definition sys_halt :: "machine \<Rightarrow> machine" where
  "sys_halt m = (disable_all_intr m)\<lparr>halted := True\<rparr>"

definition sys_power_off :: "machine \<Rightarrow> machine" where
  "sys_power_off m = load_idt (disable_all_intr m) \<lparr>limit = 0, idt_base = 0x99\<rparr>"

definition sys_reboot :: "machine \<Rightarrow> machine" where
  "sys_reboot m = outb m 0x64 0xfe"

section \<open>Gates\<close>

text \<open>How the processor reads a gate: the entry point, the privilege level that may call it and
  whether it is present.\<close>

definition gate_entry :: "idt_entry \<Rightarrow> u32" where
  "gate_entry g = ucast (off_low16 g) OR push_bit 16 (ucast (off_high16 g))"

definition gate_user :: "idt_entry \<Rightarrow> bool" where
  "gate_user g \<longleftrightarrow> bit (flags g) 7 \<and> bit (flags g) 6 \<and> bit (flags g) 5"

definition gate_kernel :: "idt_entry \<Rightarrow> bool" where
  "gate_kernel g \<longleftrightarrow> bit (flags g) 7 \<and> \<not> bit (flags g) 6 \<and> \<not> bit (flags g) 5"

lemma mask16: "(0xffff :: 'a::len word) = mask 16"
  by (simp add: mask_eq_exp_minus_1)

lemma split_offset: "ucast (ucast (w AND 0xffff) :: u16) OR push_bit 16 (ucast (ucast (drop_bit 16 w AND 0xffff) :: u16)) = (w :: u32)"
  unfolding mask16 by (rule bit_word_eqI) (auto simp: bit_simps)

lemma set_gates_frame: "length (IDT (set_gates m h n)) = length (IDT m)"
  by (induction n) (simp_all add: set_idt_entry_def)

lemma set_gates_nth:
  assumes "n \<le> 256" "length (IDT m) = 256" "k < 256"
  shows "IDT (set_gates m h n) ! k = (if k < n then \<lparr>off_low16 = ucast (h k AND 0xffff), seg_selector = selector_code,
     reserved = 0, flags = 0x8e, off_high16 = ucast (drop_bit 16 (h k) AND 0xffff)\<rparr> else IDT m ! k)"
  using assms
proof (induction n)
  case (Suc n)
  have "unat (of_nat n :: u8) = n" using Suc.prems(1) by (intro unat_of_nat_small) simp
  then show ?case using Suc by (auto simp: set_idt_entry_def nth_list_update set_gates_frame less_Suc_eq)
qed simp

lemma fill_table_other: "(\<And>k. k < n \<Longrightarrow> a \<noteq> p + 4 * of_nat k) \<Longrightarrow> fill_table n p e mem a = mem a"
proof (induction n arbitrary: p e mem)
  case (Suc n)
  have "a \<noteq> p" using Suc.prems [of 0] by simp
  moreover have "a \<noteq> p + 4 + 4 * of_nat k" if "k < n" for k
    using Suc.prems [of "Suc k"] that by (simp add: algebra_simps)
  ultimately show ?case using Suc.IH [of "p + 4"] by simp
qed simp

lemma of_nat4_inj: "i < 1024 \<Longrightarrow> j < 1024 \<Longrightarrow> 4 * of_nat i = (4 * of_nat j :: u32) \<Longrightarrow> i = j"
proof -
  assume h: "i < 1024" "j < 1024" "4 * of_nat i = (4 * of_nat j :: u32)"
  have "unat (4 * of_nat k :: u32) = 4 * k" if "k < 1024" for k
    using that by (simp add: unat_mult_small unat_of_nat_small)
  then show "i = j" using h by (metis mult_left_cancel zero_neq_numeral)
qed

lemma fill_table_entry:
  assumes "k < n" "n \<le> 1024"
  shows "fill_table n p e mem (p + 4 * of_nat k) = (e + 4096 * of_nat k) OR default_pageattr"
  using assms
proof (induction n arbitrary: p e mem k)
  case (Suc n)
  show ?case
  proof (cases k)
    case 0
    have "p \<noteq> p + 4 + 4 * of_nat j" if "j < n" for j
      using of_nat4_inj [of 0 "Suc j"] that Suc.prems by (auto simp: algebra_simps)
    then show ?thesis using 0 fill_table_other [of n p "p + 4"] by simp
  next
    case (Suc j)
    then show ?thesis
      using Suc.IH [of j "p + 4" "e + 4096" "mem(p := e OR default_pageattr)"] Suc.prems by (simp add: algebra_simps del: fun_upd_apply)
  qed
qed simp

text \<open>The two-level walk of the processor through the page tables.\<close>

definition walk :: "(u32 \<Rightarrow> u32) \<Rightarrow> u32 \<Rightarrow> u32 \<Rightarrow> u32 option" where
  "walk mem dir va =
     (let pde = mem (dir + 4 * drop_bit 22 va) in
      if bit pde 0 then
        (let pte = mem ((pde AND 0xfffff000) + 4 * (drop_bit 12 va AND 0x3ff)) in
         if bit pte 0 then Some ((pte AND 0xfffff000) + (va AND 0xfff)) else None)
      else None)"

definition gdt_base :: "gdt_desc \<Rightarrow> u32" where
  "gdt_base d = ucast (base_low d) OR push_bit 16 (ucast (base_mid d)) OR push_bit 24 (ucast (base_high d))"

definition gdt_limit :: "gdt_desc \<Rightarrow> u32" where
  "gdt_limit d = ucast (limit_low d) OR push_bit 16 (ucast (limit_high d) AND 0xf)"

lemma page_masks: "(0xfff :: u32) = mask 12" "(0x3ff :: u32) = mask 10" "(0xfffff000 :: u32) = NOT (mask 12)" "default_pageattr = mask 3"
  by (simp_all add: mask_eq_exp_minus_1 default_pageattr_def)

lemma frame_of_pte: "(push_bit 12 w OR default_pageattr) AND 0xfffff000 = (push_bit 12 w :: u32)"
  "bit (push_bit 12 w OR default_pageattr) 0"
  unfolding page_masks by (rule bit_word_eqI, auto simp: bit_simps)

lemma low_page_number:
  fixes va :: u32
  assumes "va < 0x210000"
  obtains k where "k < 528" "drop_bit 22 va = 0" "drop_bit 12 va AND 0x3ff = of_nat k" "drop_bit 12 va = of_nat k"
proof
  let ?k = "unat va div 4096"
  have u: "unat va < 0x210000" using assms by (simp add: word_less_nat_alt)
  show k: "?k < 528" using u by simp
  have n: "unat (of_nat ?k :: u32) = ?k" using k by (intro unat_of_nat_small) simp
  show s: "drop_bit 12 va = of_nat ?k" by (simp add: word_eq_iff_unat drop_bit_eq_div n unat_div)
  show "drop_bit 22 va = 0" using u by (simp add: word_eq_iff_unat drop_bit_eq_div unat_div)
  show "drop_bit 12 va AND 0x3ff = of_nat ?k"
    using k n unfolding s page_masks by (simp add: word_eq_iff_unat take_bit_eq_mask [symmetric] take_bit_eq_mod unat_mod)
qed

lemma page_offset: "push_bit 12 (drop_bit 12 va) + (va AND 0xfff) = (va :: u32)"
  unfolding page_masks take_bit_eq_mask [symmetric] by (rule bits_ident)

lemma walk_mapped:
  assumes "mem (dir + 4 * drop_bit 22 va) = push_bit 12 t OR default_pageattr"
    "mem (push_bit 12 t + 4 * (drop_bit 12 va AND 0x3ff)) = push_bit 12 f OR default_pageattr"
  shows "walk mem dir va = Some (push_bit 12 f + (va AND 0xfff))"
  unfolding walk_def Let_def assms(1) frame_of_pte(1) assms(2) using frame_of_pte(2) [of t] frame_of_pte(2) [of f] by simp

lemma install_page_words:
  "phys (install_page m) page_dir_base = (page_dir_base + 4096) OR default_pageattr"
  "phys (install_page m) (page_dir_base + 4 * 1023) = page_dir_base + default_pageattr"
  "k < 528 \<Longrightarrow> phys (install_page m) (page_dir_base + 4096 + 4 * of_nat k) = (4096 * of_nat k) OR default_pageattr"
proof -
  let ?t = "page_dir_base + 4096"
  have t: "unat (?t + 4 * of_nat j) = 0x101000 + 4 * j" if "j < 528" for j
    using that by (subst unat_add_small) (simp_all add: page_dir_base_def unat_mult_small unat_of_nat_small)
  have "page_dir_base \<noteq> ?t + 4 * of_nat j" "page_dir_base + 4092 \<noteq> ?t + 4 * of_nat j" if "j < 528" for j
    using t [OF that] by (auto simp: page_dir_base_def word_eq_iff_unat)
  then have o: "fill_table 528 ?t 0 mem page_dir_base = mem page_dir_base"
    "fill_table 528 ?t 0 mem (page_dir_base + 4092) = mem (page_dir_base + 4092)" for mem
    by (intro fill_table_other; simp)+
  show "phys (install_page m) page_dir_base = (page_dir_base + 4096) OR default_pageattr"
    "phys (install_page m) (page_dir_base + 4 * 1023) = page_dir_base + default_pageattr"
    unfolding install_page_def Let_def by (simp_all add: o)
  show "k < 528 \<Longrightarrow> phys (install_page m) (?t + 4 * of_nat k) = (4096 * of_nat k) OR default_pageattr"
    unfolding install_page_def Let_def using fill_table_entry [of k 528 ?t 0] by simp
qed

section \<open>Properties\<close>

text \<open>After \<open>init_idt\<close> the gates 0 to 47 lead to their handlers and can only be entered from
  kernel mode, gate 0x99 leads to the system call entry and can be entered from user mode, and no
  other gate is present.\<close>

lemma init_idt_gates:
  assumes "IDT m = replicate 256 \<lparr>off_low16 = 0, seg_selector = 0, reserved = 0, flags = 0, off_high16 = 0\<rparr>" and "k < 256"
    and "g = IDT (init_idt m intr_handler syscall_pre_handler IDT_addr) ! k"
  shows "(gate_kernel g \<longleftrightarrow> k < 48) \<and> (gate_user g \<longleftrightarrow> k = 0x99)
    \<and> (k < 48 \<longrightarrow> gate_entry g = intr_handler k) \<and> (k = 0x99 \<longrightarrow> gate_entry g = syscall_pre_handler)"
proof -
  let ?z = "\<lparr>off_low16 = 0, seg_selector = 0, reserved = 0, flags = 0, off_high16 = 0\<rparr>"
  let ?g = "\<lambda>h f. \<lparr>off_low16 = ucast (h AND 0xffff), seg_selector = selector_code, reserved = 0, flags = f,
     off_high16 = ucast (drop_bit 16 h AND 0xffff)\<rparr>"
  have len: "length (IDT m) = 256" using assms(1) by simp
  have "g = (if k = 0x99 then ?g syscall_pre_handler 0xee else if k < 48 then ?g (intr_handler k) 0x8e else ?z)"
    using set_gates_nth [of 48 m k intr_handler] len assms
    by (simp add: init_idt_def load_idt_def Let_def set_idt_entry_def set_gates_frame nth_list_update)
  moreover have "gate_entry (?g h f) = h" for h :: u32 and f unfolding gate_entry_def using split_offset [of h] by simp
  moreover have "gate_kernel (?g h 0x8e)" "\<not> gate_user (?g h 0x8e)" "gate_user (?g h 0xee)" "\<not> gate_kernel (?g h 0xee)"
    "\<not> gate_user ?z" "\<not> gate_kernel ?z" for h :: u32
    by (simp_all add: gate_kernel_def gate_user_def)
  ultimately show ?thesis by (auto split: if_splits)
qed

text \<open>The page tables of the kernel map every address below 0x210000 to itself, and the last
  page of the address space to the page directory.\<close>

theorem install_page_identity:
  assumes "va < 0x210000"
  shows "walk (phys (install_page m)) (cr3 (install_page m)) va = Some va
    \<and> walk (phys (install_page m)) (cr3 (install_page m)) (0xfffff000 OR (va AND 0xfff)) = Some (page_dir_base + (va AND 0xfff))"
proof -
  let ?mem = "phys (install_page m)"
  have cr: "cr3 (install_page m) = page_dir_base" by (simp add: install_page_def Let_def)
  note w = install_page_words [where m = m]
  obtain k where k: "k < 528" "drop_bit 22 va = 0" "drop_bit 12 va AND 0x3ff = of_nat k" "drop_bit 12 va = of_nat k"
    by (rule low_page_number [OF assms])
  have pde: "?mem page_dir_base = push_bit 12 0x101 OR default_pageattr" using w(1) by (simp add: page_dir_base_def)
  have pte: "?mem (page_dir_base + 4096 + 4 * of_nat k) = push_bit 12 (of_nat k) OR default_pageattr"
    using w(3) [OF k(1)] by (simp add: push_bit_eq_mult mult.commute)
  have tbl: "push_bit 12 0x101 = page_dir_base + 4096" by (simp add: page_dir_base_def)
  have one: "walk ?mem page_dir_base va = Some va"
    using walk_mapped [of ?mem page_dir_base va "0x101" "of_nat k"] pde pte page_offset [of va] k(3) unfolding k(2,4) tbl by simp
  let ?o = "va AND 0xfff"
  have hi: "drop_bit 22 (0xfffff000 OR ?o) = 1023" "drop_bit 12 (0xfffff000 OR ?o) AND 0x3ff = 1023" "(0xfffff000 OR ?o) AND 0xfff = ?o"
  proof -
    have m: "(1023 :: u32) = mask 10" by (simp add: mask_eq_exp_minus_1)
    show "drop_bit 22 (0xfffff000 OR ?o) = 1023" unfolding page_masks m by (rule bit_word_eqI) (auto simp: bit_simps)
    show "drop_bit 12 (0xfffff000 OR ?o) AND 0x3ff = 1023" unfolding page_masks m by (rule bit_word_eqI) (auto simp: bit_simps)
    show "(0xfffff000 OR ?o) AND 0xfff = ?o" unfolding page_masks by (rule bit_word_eqI) (auto simp: bit_simps)
  qed
  have self: "?mem (page_dir_base + 4 * 1023) = push_bit 12 0x100 OR default_pageattr" using w(2) by (simp add: page_dir_base_def default_pageattr_def)
  have dir: "push_bit 12 0x100 = page_dir_base" by (simp add: page_dir_base_def)
  have "walk ?mem page_dir_base (0xfffff000 OR ?o) = Some (page_dir_base + ?o)"
    using walk_mapped [of ?mem page_dir_base "0xfffff000 OR ?o" "0x100" "0x100"] self unfolding hi dir by simp
  then show ?thesis using one cr by simp
qed

text \<open>A descriptor decodes to its base, and a set interrupt flag is restored.\<close>

lemma make_gdt_desc_base: "gdt_base (make_gdt_desc a l alow ahigh) = a"
proof -
  have m: "(0xff0000 :: u32) = push_bit 16 (mask 8)" by (simp add: mask_eq_exp_minus_1)
  show ?thesis
  proof (rule bit_word_eqI)
    fix n
    assume "n < LENGTH(32)"
    then show "bit (gdt_base (make_gdt_desc a l alow ahigh)) n = bit a n"
      unfolding gdt_base_def make_gdt_desc_def mask16 m by (cases "n < 24") (auto simp: bit_simps)
  qed
qed

lemma set_intr_restores: "disable_intr m = (old, m') \<Longrightarrow> set_intr m' old = m"
  by (auto simp: disable_intr_def set_intr_def enable_intr_def)

section \<open>Witnesses\<close>

definition cold_machine :: machine where
  "cold_machine = \<lparr>ports = [], intr_flag = False,
     IDT = replicate 256 \<lparr>off_low16 = 0, seg_selector = 0, reserved = 0, flags = 0, off_high16 = 0\<rparr>,
     idtr = \<lparr>limit = 0, idt_base = 0\<rparr>, real_handlers = replicate 256 0, phys = (\<lambda>_. 0), cr3 = 0, paging_on = False,
     tss_ss0 = 0, tss_io_base = 0,
     gdt_tss = \<lparr>limit_low = 0, base_low = 0, base_mid = 0, attr_low = 0, limit_high = 0, base_high = 0\<rparr>,
     task_reg = 0, halted = False\<rparr>"

theorem install_page_identity_example:
  "walk (phys (install_page cold_machine)) (cr3 (install_page cold_machine)) 0x20123 = Some 0x20123"
  using install_page_identity [of "0x20123" cold_machine] by simp

end
