(* ===== verification/Clock.thy ===== *)
theory Clock
  imports Lib_String Process
begin

text \<open>
  Model of the clock: reading the CMOS (\<open>kernel/cmos.cc\<close>), packing the time into a message
  (\<open>GET_TIME\<close> of \<open>kernel_work\<close> in \<open>kernel/main.cc\<close>), unpacking it again
  (\<open>get_current_time\<close> of \<open>lib/all_syscall.cc\<close>) and the 64-bit number of a time that the
  file system keeps (\<open>lib/time.cc\<close>).

  The registers of the clock are a function; reading a register is \<open>outb\<close> of its number to
  port 0x70 and \<open>inb\<close> from port 0x71. In \<open>time2num\<close> the shifted fields are of type
  \<open>int\<close> and are extended by their sign when they meet the 64-bit year.

  The theory shows that the message carries the time, and for which times the number
  determines the time.
\<close>

section \<open>Operations\<close>

record time =
  second :: u8
  minute :: u8
  hour :: u8
  day :: u8
  month :: u8
  year :: u32

definition bcd2dec :: "u8 \<Rightarrow> u8" where
  "bcd2dec bcd = (bcd AND 0xf) + drop_bit 4 bcd * 10"

definition get_cmos_time :: "(u8 \<Rightarrow> u8) \<Rightarrow> time" where
  "get_cmos_time cmos =
     \<lparr>second = bcd2dec (cmos 0), minute = bcd2dec (cmos 2), hour = bcd2dec (cmos 4),
      day = bcd2dec (cmos 7), month = bcd2dec (cmos 8), year = ucast (bcd2dec (cmos 9)) + 2000\<rparr>"

text \<open>The answer to \<open>GET_TIME\<close>; \<open>con_4\<close> is not assigned.\<close>

definition pack_time :: "msg_context \<Rightarrow> time \<Rightarrow> msg_context" where
  "pack_time con_ret t =
     con_ret\<lparr>con_1 := ucast (second t) OR push_bit 8 (ucast (minute t)) OR push_bit 16 (ucast (hour t))
                      OR push_bit 24 (ucast (day t)),
             con_2 := ucast (month t) AND 0xff, con_3 := year t\<rparr>"

definition unpack_time :: "msg_context \<Rightarrow> time" where
  "unpack_time con_ret =
     \<lparr>second = ucast (con_1 con_ret AND 0xff), minute = ucast (drop_bit 8 (con_1 con_ret) AND 0xff),
      hour = ucast (drop_bit 16 (con_1 con_ret) AND 0xff), day = ucast (drop_bit 24 (con_1 con_ret) AND 0xff),
      month = ucast (con_2 con_ret AND 0xff), year = con_3 con_ret\<rparr>"

definition num2time :: "u64 \<Rightarrow> time" where
  "num2time num =
     \<lparr>second = ucast (num AND 0xff), minute = ucast (drop_bit 8 num AND 0x3f), hour = ucast (drop_bit 16 num AND 0x3f),
      day = ucast (drop_bit 22 num AND 0x3f), month = ucast (drop_bit 28 num AND 0xf), year = ucast (drop_bit 32 num)\<rparr>"

definition time2num :: "time \<Rightarrow> u64" where
  "time2num t =
     push_bit 32 (ucast (year t)) OR scast (push_bit 28 (ucast (month t AND 0xf)) :: u32)
     OR scast (push_bit 22 (ucast (day t AND 0x3f)) :: u32) OR scast (push_bit 16 (ucast (hour t AND 0x3f)) :: u32)
     OR scast (push_bit 8 (ucast (minute t)) :: u32) OR ucast (second t)"

definition get_current_time :: "msg_context \<Rightarrow> u64" where
  "get_current_time con_ret = time2num (unpack_time con_ret)"

section \<open>Properties\<close>

lemma masks: "(0xff :: 'a::len word) = mask 8" "(0x3f :: 'a word) = mask 6" "(0xf :: 'a word) = mask 4"
  by (simp_all add: mask_eq_exp_minus_1)

lemma time_eqI:
  "second a = second b \<Longrightarrow> minute a = minute b \<Longrightarrow> hour a = hour b \<Longrightarrow> day a = day b \<Longrightarrow> month a = month b
   \<Longrightarrow> year a = year b \<Longrightarrow> a = (b :: time)"
  by simp

lemma unpack_pack_time: "unpack_time (pack_time con t) = t"
proof (rule time_eqI)
  show "second (unpack_time (pack_time con t)) = second t"
    by (rule bit_word_eqI) (auto simp: unpack_time_def pack_time_def masks bit_simps dest: bit_imp_le_length)
  show "minute (unpack_time (pack_time con t)) = minute t"
    by (rule bit_word_eqI) (auto simp: unpack_time_def pack_time_def masks bit_simps dest: bit_imp_le_length)
  show "hour (unpack_time (pack_time con t)) = hour t"
    by (rule bit_word_eqI) (auto simp: unpack_time_def pack_time_def masks bit_simps dest: bit_imp_le_length)
  show "day (unpack_time (pack_time con t)) = day t"
    by (rule bit_word_eqI) (auto simp: unpack_time_def pack_time_def masks bit_simps dest: bit_imp_le_length)
  show "month (unpack_time (pack_time con t)) = month t"
    by (rule bit_word_eqI) (auto simp: unpack_time_def pack_time_def masks bit_simps dest: bit_imp_le_length)
  show "year (unpack_time (pack_time con t)) = year t" by (simp add: unpack_time_def pack_time_def)
qed

text \<open>A byte below a power of two has no higher bits.\<close>

lemma small_bits: "unat w < 2 ^ k \<Longrightarrow> bit w n \<Longrightarrow> n < k" for w :: u8
proof (rule ccontr)
  assume w: "unat w < 2 ^ k" "bit w n" "\<not> n < k"
  have "(2 :: nat) ^ k \<le> 2 ^ n" using w(3) by (intro power_increasing) simp_all
  then have "unat w div 2 ^ n = 0" using w(1) by (meson div_less less_le_trans)
  moreover have "bit (unat w) n" using w(2) by (simp add: bit_unsigned_iff)
  ultimately show False by (simp add: bit_iff_odd)
qed

lemma bit_3_iff: "month t < 16 \<Longrightarrow> bit (month t) 3 \<longleftrightarrow> \<not> month t < 8" for t :: time
proof -
  assume "month t < 16"
  then have "unat (month t) < 16" by (simp add: word_less_nat_alt)
  moreover have "bit (month t) 3 = odd (unat (month t) div 8)"
    using bit_iff_odd [of "unat (month t)" 3] by (simp add: bit_unsigned_iff)
  moreover have "odd (n div 8) \<longleftrightarrow> 8 \<le> n" if "n < 16" for n :: nat
    using that by (cases "n < 8") (simp_all add: div_nat_eqI [of 8 1])
  ultimately show ?thesis by (auto simp: word_less_nat_alt)
qed

text \<open>The bits of the number, field by field.\<close>

lemma bit_field:
  assumes "\<And>n. bit w n \<Longrightarrow> n < m" "k + m < 32"
  shows "bit (scast (push_bit k (ucast w) :: u32) :: u64) n \<longleftrightarrow> k \<le> n \<and> bit (w :: u8) (n - k)"
proof (cases "n < 31")
  case True
  then show ?thesis by (auto simp: bit_simps min_def dest: bit_imp_le_length)
next
  case False
  have "\<not> bit w (31 - k)" "\<not> bit w (n - k)" using assms False by (auto dest!: assms(1))
  then show ?thesis using False by (auto simp: bit_simps min_def)
qed

lemma bit_month_field:
  assumes "\<And>n. bit w n \<Longrightarrow> n < 4"
  shows "bit (scast (push_bit 28 (ucast w) :: u32) :: u64) n \<longleftrightarrow> 28 \<le> n \<and> n < 64 \<and> bit (w :: u8) (min 31 n - 28)"
  using assms by (auto simp: bit_simps min_def)

lemma bit_time2num:
  assumes "minute t < 64" "hour t < 64" "day t < 64" "month t < 16"
  shows "bit (time2num t) n \<longleftrightarrow> 32 \<le> n \<and> bit (year t) (n - 32) \<or> 28 \<le> n \<and> n < 64 \<and> bit (month t) (min 31 n - 28)
    \<or> 22 \<le> n \<and> bit (day t) (n - 22) \<or> 16 \<le> n \<and> bit (hour t) (n - 16) \<or> 8 \<le> n \<and> bit (minute t) (n - 8) \<or> bit (second t) n"
proof -
  have mi: "bit (minute t) n \<Longrightarrow> n < 6" and h: "bit (hour t) n \<Longrightarrow> n < 6" and d: "bit (day t) n \<Longrightarrow> n < 6"
    and mo: "bit (month t) n \<Longrightarrow> n < 4" for n
    using assms small_bits [of "minute t" 6 n] small_bits [of "hour t" 6 n] small_bits [of "day t" 6 n] small_bits [of "month t" 4 n]
    by (simp_all add: word_less_nat_alt)
  have small: "month t AND 0xf = month t" "day t AND 0x3f = day t" "hour t AND 0x3f = hour t"
    unfolding masks by (rule bit_word_eqI; auto simp: bit_simps dest: h d mo)+
  have y: "bit (push_bit 32 (ucast (year t)) :: u64) n \<longleftrightarrow> 32 \<le> n \<and> bit (year t) (n - 32)"
    and s: "bit (ucast (second t) :: u64) n \<longleftrightarrow> bit (second t) n"
    by (auto simp: bit_simps dest: bit_imp_le_length)
  have f: "bit (scast (push_bit 22 (ucast (day t)) :: u32) :: u64) n \<longleftrightarrow> 22 \<le> n \<and> bit (day t) (n - 22)"
    "bit (scast (push_bit 16 (ucast (hour t)) :: u32) :: u64) n \<longleftrightarrow> 16 \<le> n \<and> bit (hour t) (n - 16)"
    "bit (scast (push_bit 8 (ucast (minute t)) :: u32) :: u64) n \<longleftrightarrow> 8 \<le> n \<and> bit (minute t) (n - 8)"
    by (rule bit_field [where m = 6]; auto dest: d h mi)+
  have m: "bit (scast (push_bit 28 (ucast (month t)) :: u32) :: u64) n \<longleftrightarrow> 28 \<le> n \<and> n < 64 \<and> bit (month t) (min 31 n - 28)"
    by (rule bit_month_field) (rule mo)
  show ?thesis unfolding time2num_def small bit_or_iff y s f m by (simp only: disj_assoc)
qed

lemma num2time_time2num:
  assumes "minute t < 64" "hour t < 64" "day t < 64" "month t < 16"
  shows "num2time (time2num t) = t\<lparr>year := if month t < 8 then year t else -1\<rparr>"
proof (rule time_eqI)
  have mi: "bit (minute t) n \<Longrightarrow> n < 6" and h: "bit (hour t) n \<Longrightarrow> n < 6" and d: "bit (day t) n \<Longrightarrow> n < 6"
    and mo: "bit (month t) n \<Longrightarrow> n < 4" for n
    using assms small_bits [of "minute t" 6 n] small_bits [of "hour t" 6 n] small_bits [of "day t" 6 n] small_bits [of "month t" 4 n]
    by (simp_all add: word_less_nat_alt)
  note b = bit_time2num [OF assms]
  let ?r = "num2time (time2num t)" and ?e = "t\<lparr>year := if month t < 8 then year t else -1\<rparr>"
  have take: "bit (ucast (drop_bit k w AND mask m) :: u8) n \<longleftrightarrow> n < m \<and> n < 8 \<and> bit w (k + n)" for w :: u64 and k m n
    by (auto simp: bit_simps)
  show "second ?r = second ?e"
    using take [of 0 _ 8] by (intro bit_word_eqI) (auto simp: num2time_def masks b)
  show "minute ?r = minute ?e"
    by (intro bit_word_eqI) (auto simp: num2time_def masks take b dest: bit_imp_le_length mi)
  show "hour ?r = hour ?e"
    by (intro bit_word_eqI) (auto simp: num2time_def masks take b dest: bit_imp_le_length mi h)
  show "day ?r = day ?e"
    by (intro bit_word_eqI) (auto simp: num2time_def masks take b dest: bit_imp_le_length mi h d)
  show "month ?r = month ?e"
  proof (rule bit_word_eqI)
    fix n :: nat
    have "min 31 (28 + n) - 28 = n" if "n < 4" using that by simp
    then show "bit (month ?r) n = bit (month ?e) n"
      by (cases "n < 4") (auto simp: num2time_def masks take b dest: bit_imp_le_length mi h d mo)
  qed
  show "year ?r = year ?e"
  proof (rule bit_word_eqI)
    fix n
    assume n: "n < LENGTH(32)"
    have "bit (year ?r) n = bit (time2num t) (32 + n)" using n by (simp add: num2time_def bit_simps)
    also have "\<dots> \<longleftrightarrow> bit (year t) n \<or> bit (month t) 3"
      using n by (auto simp: b min_def dest: bit_imp_le_length mi h d)
    finally show "bit (year ?r) n = bit (year ?e) n" using bit_3_iff [OF assms(4)] n by (auto simp: bit_simps)
  qed
qed

text \<open>The time that a client gets is the time that the kernel read from the clock: packing it
  into the reply and unpacking it loses nothing.\<close>

lemma get_current_time_of_reply:
  "get_current_time (pack_time con (get_cmos_time cmos)) = time2num (get_cmos_time cmos)"
  by (simp add: get_current_time_def unpack_pack_time)

text \<open>The 64-bit number of a time gives the time back for the months up to seven; for the
  months from eight on the sign of the shifted month overwrites the year with \<open>0xffffffff\<close>.\<close>

theorem time_number_round_trip:
  assumes "minute t < 64" and "hour t < 64" and "day t < 64" and "month t < 16"
  shows "num2time (time2num t) = t\<lparr>year := if month t < 8 then year t else 0xffffffff\<rparr>"
  using num2time_time2num [OF assms] by simp

theorem time_number_round_trip_example:
  "year (num2time (time2num \<lparr>second = 9, minute = 8, hour = 7, day = 6, month = 5, year = 2017\<rparr>)) = 2017
   \<and> year (num2time (time2num \<lparr>second = 9, minute = 8, hour = 7, day = 6, month = 12, year = 2017\<rparr>)) = 0xffffffff"
  using time_number_round_trip [of "\<lparr>second = 9, minute = 8, hour = 7, day = 6, month = 5, year = 2017\<rparr>"]
    time_number_round_trip [of "\<lparr>second = 9, minute = 8, hour = 7, day = 6, month = 12, year = 2017\<rparr>"] by simp

end
