(* ===== verification/Syscalls.thy ===== *)
theory Syscalls
  imports Clock Ipc
begin

text \<open>
  Model of the calls by which a process asks a server for something: \<open>lib/all_syscall.cc\<close>, the
  message class of user programs (\<open>lib/syscall.cc\<close>) and the message numbers of
  \<open>include/ipc_glo.h\<close>.

  A call is the message it sends: the way of sending, the server, the type and the context. The
  context is a local variable of the code that is not initialised, so it is an argument
  \<open>con\<close> of which the call assigns some fields. Pointers are addresses. What a call returns is
  read from the context of the reply (\<open>ret_value\<close>).
\<close>

section \<open>Messages\<close>

abbreviation (input) mm_MALLOC :: u32 where "mm_MALLOC \<equiv> 1"
abbreviation (input) mm_FREE :: u32 where "mm_FREE \<equiv> 2"
abbreviation (input) mm_CMD_MEMINFO :: u32 where "mm_CMD_MEMINFO \<equiv> 256"
abbreviation (input) dr_IDEN :: u32 where "dr_IDEN \<equiv> 1"
abbreviation (input) dr_OPEN :: u32 where "dr_OPEN \<equiv> 2"
abbreviation (input) dr_READ :: u32 where "dr_READ \<equiv> 3"
abbreviation (input) dr_WRITE :: u32 where "dr_WRITE \<equiv> 4"
abbreviation (input) dr_PRINT_PART :: u32 where "dr_PRINT_PART \<equiv> 5"
abbreviation (input) dr_ASK_DISK :: u32 where "dr_ASK_DISK \<equiv> 6"
abbreviation (input) dr_SEND_PKT :: u32 where "dr_SEND_PKT \<equiv> 7"
abbreviation (input) dr_GET_MAC :: u32 where "dr_GET_MAC \<equiv> 8"
abbreviation (input) dr_WHERE_KEYBOARD_BUFFER :: u32 where "dr_WHERE_KEYBOARD_BUFFER \<equiv> 9"
abbreviation (input) dr_WHERE_NET_BUFFER :: u32 where "dr_WHERE_NET_BUFFER \<equiv> 10"
abbreviation (input) fs_MKDIR :: u32 where "fs_MKDIR \<equiv> 1"
abbreviation (input) fs_RMDIR :: u32 where "fs_RMDIR \<equiv> 2"
abbreviation (input) fs_OPEN_FILE :: u32 where "fs_OPEN_FILE \<equiv> 3"
abbreviation (input) fs_CLOSE_FILE :: u32 where "fs_CLOSE_FILE \<equiv> 4"
abbreviation (input) fs_WRITE_FILE :: u32 where "fs_WRITE_FILE \<equiv> 5"
abbreviation (input) fs_READ_FILE :: u32 where "fs_READ_FILE \<equiv> 6"
abbreviation (input) fs_MKFILE :: u32 where "fs_MKFILE \<equiv> 7"
abbreviation (input) fs_RMFILE :: u32 where "fs_RMFILE \<equiv> 8"
abbreviation (input) fs_LSEEK_FILE :: u32 where "fs_LSEEK_FILE \<equiv> 9"
abbreviation (input) fs_IS_EOF :: u32 where "fs_IS_EOF \<equiv> 10"
abbreviation (input) fs_GET_CUR_DIR :: u32 where "fs_GET_CUR_DIR \<equiv> 11"
abbreviation (input) fs_CUR_USER :: u32 where "fs_CUR_USER \<equiv> 12"
abbreviation (input) fs_CMD_PWD :: u32 where "fs_CMD_PWD \<equiv> 256"
abbreviation (input) fs_CMD_CD :: u32 where "fs_CMD_CD \<equiv> 257"
abbreviation (input) fs_CMD_LS :: u32 where "fs_CMD_LS \<equiv> 258"
abbreviation (input) fs_CMD_CAT :: u32 where "fs_CMD_CAT \<equiv> 259"
abbreviation (input) fs_CMD_CPFILE :: u32 where "fs_CMD_CPFILE \<equiv> 260"
abbreviation (input) fs_CMD_MVFILE :: u32 where "fs_CMD_MVFILE \<equiv> 261"
abbreviation (input) fs_CMD_CHMOD :: u32 where "fs_CMD_CHMOD \<equiv> 262"
abbreviation (input) fs_CMD_CHOWN :: u32 where "fs_CMD_CHOWN \<equiv> 263"
abbreviation (input) kr_REGR_INTR :: u32 where "kr_REGR_INTR \<equiv> 1"
abbreviation (input) kr_SLEEP :: u32 where "kr_SLEEP \<equiv> 2"
abbreviation (input) kr_GET_TIME :: u32 where "kr_GET_TIME \<equiv> 3"
abbreviation (input) kr_CREATE_PROC :: u32 where "kr_CREATE_PROC \<equiv> 4"
abbreviation (input) kr_CMD_PS :: u32 where "kr_CMD_PS \<equiv> 256"
abbreviation (input) kr_CMD_HALT :: u32 where "kr_CMD_HALT \<equiv> 257"
abbreviation (input) kr_CMD_POWEROFF :: u32 where "kr_CMD_POWEROFF \<equiv> 258"
abbreviation (input) kr_CMD_REBOOT :: u32 where "kr_CMD_REBOOT \<equiv> 259"
abbreviation (input) net_PKT_ARRIVED :: u32 where "net_PKT_ARRIVED \<equiv> 1"
abbreviation (input) net_SHOW_ARPTBL :: u32 where "net_SHOW_ARPTBL \<equiv> 2"
abbreviation (input) net_PING :: u32 where "net_PING \<equiv> 3"
abbreviation (input) net_SHOW_IFACES :: u32 where "net_SHOW_IFACES \<equiv> 4"
abbreviation (input) net_CONF_NET :: u32 where "net_CONF_NET \<equiv> 5"
abbreviation (input) net_LISTEN :: u32 where "net_LISTEN \<equiv> 6"
abbreviation (input) net_SEND :: u32 where "net_SEND \<equiv> 7"
abbreviation (input) net_ACCEPT :: u32 where "net_ACCEPT \<equiv> 8"
abbreviation (input) net_RECV :: u32 where "net_RECV \<equiv> 9"
abbreviation (input) net_CLOSE :: u32 where "net_CLOSE \<equiv> 10"

text \<open>The class of user programs; sending and receiving are the system call with the number
  \<open>SEND\<close>, \<open>RECV\<close> or \<open>SEND_RECV\<close>.\<close>

definition new_message :: "message \<Rightarrow> message" where
  "new_message garbage = garbage\<lparr>source := 0\<rparr>"

definition new_message_from :: "message \<Rightarrow> u32 \<Rightarrow> message" where
  "new_message_from garbage src = garbage\<lparr>source := src\<rparr>"

definition user_reset_message :: "message \<Rightarrow> u32 \<Rightarrow> msg_context \<Rightarrow> message" where
  "user_reset_message m ty con = m\<lparr>mtype := ty, mcontext := con\<rparr>"

definition user_reply :: "message \<Rightarrow> u32 \<times> message" where
  "user_reply m = (destination m, m\<lparr>mtype := REPLY\<rparr>)"

datatype call_kind = Send | Receive | Send_then_recv

fun call_number :: "call_kind \<Rightarrow> u32" where
  "call_number Send = 1"
| "call_number Receive = 2"
| "call_number Send_then_recv = 3"

type_synonym request = "call_kind \<times> u32 \<times> u32 \<times> msg_context"

definition ret_value :: "msg_context \<Rightarrow> u32" where
  "ret_value reply = con_1 reply"

section \<open>Calls\<close>

definition malloc_call :: "msg_context \<Rightarrow> u32 \<Rightarrow> request" where
  "malloc_call con cnt = (Send_then_recv, MM_PCB, mm_MALLOC, con\<lparr>con_1 := cnt\<rparr>)"

definition free_call :: "msg_context \<Rightarrow> u32 \<Rightarrow> request" where
  "free_call con addr = (Send_then_recv, MM_PCB, mm_FREE, con\<lparr>con_1 := addr\<rparr>)"

definition get_keyboard_buffer_call :: "msg_context \<Rightarrow> request" where
  "get_keyboard_buffer_call con = (Send_then_recv, DR_PCB, dr_WHERE_KEYBOARD_BUFFER, con)"

definition get_net_buffer_call :: "msg_context \<Rightarrow> request" where
  "get_net_buffer_call con = (Send_then_recv, DR_PCB, dr_WHERE_NET_BUFFER, con)"

definition read_disk_call :: "msg_context \<Rightarrow> u32 \<Rightarrow> u32 \<Rightarrow> u32 \<Rightarrow> u32 \<Rightarrow> request" where
  "read_disk_call con disk_nr lba buf cnt = (Send_then_recv, DR_PCB, dr_READ, con\<lparr>con_1 := disk_nr, con_2 := lba, con_3 := buf, con_4 := cnt\<rparr>)"

definition write_disk_call :: "msg_context \<Rightarrow> u32 \<Rightarrow> u32 \<Rightarrow> u32 \<Rightarrow> u32 \<Rightarrow> request" where
  "write_disk_call con disk_nr lba str cnt = (Send_then_recv, DR_PCB, dr_WRITE, con\<lparr>con_1 := disk_nr, con_2 := lba, con_3 := str, con_4 := cnt\<rparr>)"

definition print_partition_info_call :: "msg_context \<Rightarrow> u32 \<Rightarrow> request" where
  "print_partition_info_call con disk_nr = (Send_then_recv, DR_PCB, dr_PRINT_PART, con\<lparr>con_1 := disk_nr\<rparr>)"

definition get_disk_call :: "msg_context \<Rightarrow> u32 \<Rightarrow> request" where
  "get_disk_call con disk_nr = (Send_then_recv, DR_PCB, dr_ASK_DISK, con\<lparr>con_1 := disk_nr\<rparr>)"

definition send_packet_call :: "msg_context \<Rightarrow> u32 \<Rightarrow> request" where
  "send_packet_call con pkt = (Send_then_recv, DR_PCB, dr_SEND_PKT, con\<lparr>con_1 := pkt\<rparr>)"

definition get_mac_addr_call :: "msg_context \<Rightarrow> request" where
  "get_mac_addr_call con = (Send_then_recv, DR_PCB, dr_GET_MAC, con)"

definition register_intr_handler_call :: "msg_context \<Rightarrow> u32 \<Rightarrow> u32 \<Rightarrow> request" where
  "register_intr_handler_call con intr_num handler = (Send_then_recv, KR_PCB, kr_REGR_INTR, con\<lparr>con_1 := intr_num, con_2 := handler\<rparr>)"

definition get_current_time_call :: "msg_context \<Rightarrow> request" where
  "get_current_time_call con = (Send_then_recv, KR_PCB, kr_GET_TIME, con)"

definition create_process_call :: "msg_context \<Rightarrow> u32 \<Rightarrow> request" where
  "create_process_call con func = (Send, KR_PCB, kr_CREATE_PROC, con\<lparr>con_1 := func\<rparr>)"

definition mkdir_call :: "msg_context \<Rightarrow> u32 \<Rightarrow> request" where
  "mkdir_call con path = (Send_then_recv, FS_PCB, fs_MKDIR, con\<lparr>con_1 := path\<rparr>)"

definition rmdir_call :: "msg_context \<Rightarrow> u32 \<Rightarrow> request" where
  "rmdir_call con path = (Send_then_recv, FS_PCB, fs_RMDIR, con\<lparr>con_1 := path\<rparr>)"

definition mkfile_call :: "msg_context \<Rightarrow> u32 \<Rightarrow> request" where
  "mkfile_call con path = (Send_then_recv, FS_PCB, fs_MKFILE, con\<lparr>con_1 := path\<rparr>)"

definition rmfile_call :: "msg_context \<Rightarrow> u32 \<Rightarrow> request" where
  "rmfile_call con path = (Send_then_recv, FS_PCB, fs_RMFILE, con\<lparr>con_1 := path\<rparr>)"

definition open_call :: "msg_context \<Rightarrow> u32 \<Rightarrow> request" where
  "open_call con path = (Send_then_recv, FS_PCB, fs_OPEN_FILE, con\<lparr>con_1 := path\<rparr>)"

definition close_call :: "msg_context \<Rightarrow> u32 \<Rightarrow> request" where
  "close_call con fd = (Send_then_recv, FS_PCB, fs_CLOSE_FILE, con\<lparr>con_1 := fd\<rparr>)"

definition write_call :: "msg_context \<Rightarrow> u32 \<Rightarrow> u32 \<Rightarrow> u32 \<Rightarrow> u8 \<Rightarrow> request" where
  "write_call con fd str cnt mode = (Send_then_recv, FS_PCB, fs_WRITE_FILE, con\<lparr>con_1 := fd, con_2 := str, con_3 := cnt, con_4 := ucast mode\<rparr>)"

definition read_call :: "msg_context \<Rightarrow> u32 \<Rightarrow> u32 \<Rightarrow> u32 \<Rightarrow> request" where
  "read_call con fd buf cnt = (Send_then_recv, FS_PCB, fs_READ_FILE, con\<lparr>con_1 := fd, con_2 := buf, con_3 := cnt\<rparr>)"

definition eof_call :: "msg_context \<Rightarrow> u32 \<Rightarrow> request" where
  "eof_call con fd = (Send_then_recv, FS_PCB, fs_IS_EOF, con\<lparr>con_1 := fd\<rparr>)"

definition lseek_call :: "msg_context \<Rightarrow> u32 \<Rightarrow> u32 \<Rightarrow> request" where
  "lseek_call con fd off = (Send_then_recv, FS_PCB, fs_LSEEK_FILE, con\<lparr>con_1 := fd, con_2 := off\<rparr>)"

definition get_cur_dir_call :: "msg_context \<Rightarrow> request" where
  "get_cur_dir_call con = (Send_then_recv, FS_PCB, fs_GET_CUR_DIR, con)"

definition listen_call :: "msg_context \<Rightarrow> u16 \<Rightarrow> request" where
  "listen_call con port = (Send_then_recv, NET_PCB, net_LISTEN, con\<lparr>con_1 := ucast port\<rparr>)"

definition accept_call :: "msg_context \<Rightarrow> u16 \<Rightarrow> request" where
  "accept_call con src_port = (Send_then_recv, NET_PCB, net_ACCEPT, con\<lparr>con_1 := ucast src_port\<rparr>)"

definition recv_call :: "msg_context \<Rightarrow> u16 \<Rightarrow> u32 \<Rightarrow> u32 \<Rightarrow> request" where
  "recv_call con src_port buf len = (Send_then_recv, NET_PCB, net_RECV, con\<lparr>con_1 := ucast src_port, con_2 := buf, con_3 := len\<rparr>)"

definition send_socket_call :: "msg_context \<Rightarrow> u16 \<Rightarrow> u32 \<Rightarrow> u32 \<Rightarrow> request" where
  "send_socket_call con src_port buf len = (Send_then_recv, NET_PCB, net_SEND, con\<lparr>con_1 := ucast src_port, con_2 := buf, con_3 := len\<rparr>)"

definition close_socket_call :: "msg_context \<Rightarrow> u16 \<Rightarrow> request" where
  "close_socket_call con src_port = (Send_then_recv, NET_PCB, net_CLOSE, con\<lparr>con_1 := ucast src_port\<rparr>)"

end
