(* ===== verification/Servers.thy ===== *)
theory Servers
  imports File_System Memory Machine Syscalls
begin

text \<open>
  Model of the servers' loops: what the file server (\<open>fs/main.cc\<close>), the memory server
  (\<open>mm/main.cc\<close>) and the kernel process (\<open>kernel_work\<close> of \<open>kernel/main.cc\<close>) do with one
  message. The loops receive a message, handle it and go on for ever; one round is a function of
  the server's state, the type and the context of the message.

  The objects that pointers in a message point to are given by \<open>mem\<close>, from addresses to the
  bytes of the object that starts there; the answer is a value of \<open>reply\<close>: no answer, the
  message sent back, a new context of which the first field is assigned (or, for the time, the
  first three), or the message sent back after a sleep. What is printed is not modelled.

  The theory shows that the calls of \<open>lib/all_syscall.cc\<close> and the servers agree on the meaning
  of the messages: each call makes the server perform its operation on the given arguments.
\<close>

datatype reply = No_reply | Reply_same | Reply_value u32 | Reply_context msg_context | Sleep_then_reply u32 u32

section \<open>The file server\<close>

type_synonym objects = "u32 \<Rightarrow> u8 list"

definition reply_to :: "fs_state option \<Rightarrow> objects \<Rightarrow> (fs_state \<times> objects \<times> reply) option" where
  "reply_to r mem = map_option (\<lambda>s. (s, mem, Reply_same)) r"

definition fs_handle ::
    "fs_state \<Rightarrow> objects \<Rightarrow> u64 \<Rightarrow> u32 \<Rightarrow> u32 \<Rightarrow> msg_context \<Rightarrow> (fs_state \<times> objects \<times> reply) option" where
  "fs_handle s mem now cur_dir_addr ty con =
     (if ty = fs_MKDIR then reply_to (sys_mkdir s now (mem (con_1 con))) mem
      else if ty = fs_RMDIR then reply_to (sys_rmdir s (mem (con_1 con))) mem
      else if ty = fs_MKFILE then reply_to (sys_mkfile s now (mem (con_1 con))) mem
      else if ty = fs_RMFILE then reply_to (sys_rmfile s (mem (con_1 con))) mem
      else if ty = fs_OPEN_FILE then do {
        (fd, s1) \<leftarrow> open_file s (mem (con_1 con));
        Some (s1, mem, Reply_value (word_of_int fd)) }
      else if ty = fs_CLOSE_FILE then reply_to (close_file s (con_1 con)) mem
      else if ty = fs_WRITE_FILE then
        reply_to (write_file s (con_1 con) (mem (con_2 con)) 0 (con_3 con) (ucast (con_4 con))) mem
      else if ty = fs_READ_FILE then do {
        (len, s1, buf) \<leftarrow> read_file s (con_1 con) (mem (con_2 con)) 0 (con_3 con);
        Some (s1, mem(con_2 con := buf), Reply_value (word_of_int len)) }
      else if ty = fs_LSEEK_FILE then reply_to (lseek_file s (con_1 con) (con_2 con)) mem
      else if ty = fs_IS_EOF then do {
        r \<leftarrow> is_eof s (con_1 con);
        Some (s, mem, Reply_value (if r then 1 else 0)) }
      else if ty = fs_GET_CUR_DIR then Some (s, mem, Reply_value cur_dir_addr)
      else if ty = fs_CMD_PWD then Some (s, mem, Reply_same)
      else if ty = fs_CMD_CD then do {
        (r, s1) \<leftarrow> cd s (mem (con_1 con));
        Some (s1, mem, Reply_value (if r then 1 else 0)) }
      else if ty = fs_CMD_LS then do {
        _ \<leftarrow> ls s (if con_1 con = 0 then None else Some (mem (con_1 con)));
        Some (s, mem, Reply_same) }
      else if ty = fs_CMD_CAT then do {
        _ \<leftarrow> sys_cat s (mem (con_1 con));
        Some (s, mem, Reply_same) }
      else if ty = fs_CMD_CPFILE then reply_to (copy_file s now (mem (con_1 con)) (mem (con_2 con))) mem
      else if ty = fs_CMD_MVFILE then reply_to (move_file s now (mem (con_1 con)) (mem (con_2 con))) mem
      else if ty = fs_CMD_CHMOD then reply_to (sys_chmod s (mem (con_1 con)) (ucast (con_2 con))) mem
      else if ty = fs_CMD_CHOWN then reply_to (sys_chown s (mem (con_1 con)) (con_2 con)) mem
      else if ty = fs_CUR_USER then Some (s\<lparr>fs_uid := con_1 con\<rparr>, mem, No_reply)
      else Some (s, mem, No_reply))"

section \<open>The memory server\<close>

definition mm_handle :: "mm_state \<Rightarrow> u32 \<Rightarrow> u32 \<Rightarrow> msg_context \<Rightarrow> (mm_state \<times> reply) option" where
  "mm_handle s all_mem ty con =
     (if ty = mm_MALLOC then do {
        (addr, s1) \<leftarrow> mm_malloc s (con_1 con);
        Some (s1, Reply_value addr) }
      else if ty = mm_FREE then do {
        s1 \<leftarrow> mm_free s (con_1 con);
        Some (s1, Reply_same) }
      else if ty = mm_CMD_MEMINFO then do {
        _ \<leftarrow> mem_info s all_mem;
        Some (s, Reply_same) }
      else Some (s, No_reply))"

section \<open>The kernel process\<close>

text \<open>The addresses that \<open>malloc\<close> returns to \<open>create_process\<close> are arguments.\<close>

definition create_user_process :: "kstate \<Rightarrow> u32 \<Rightarrow> u32 \<Rightarrow> u32 \<Rightarrow> kstate option" where
  "create_user_process s func pcb_addr userstack_addr =
     start_userprocess s [85, 83, 69, 82, 95, 67, 82, 69, 65, 84, 69, 0] (-1) PRIORITY_D (Entry func) pcb_addr userstack_addr"

definition ps :: "kstate \<Rightarrow> (u32 \<times> u8 list \<times> u8 list) list option" where
  "ps s = those (map (\<lambda>p. map_option (\<lambda>st. (pid (pcbs s p), st, name (pcbs s p))) (status2string (status (pcbs s p)) (replicate 4 0)))
     (filter (\<lambda>p. p \<noteq> 0) (take NR_PROC (processes s))))"

definition sleep_ticks :: "u32 \<Rightarrow> u32" where
  "sleep_ticks seconds = seconds * 500"

text \<open>The loop of \<open>sleep_seconds\<close> lets other processes run, so a round of the server only says
  since which tick and for how long it sleeps; one test of the loop is \<open>sleep_step\<close>: the kernel
  process yields until the ticks have passed. The difference of the two counters wraps around
  with them.\<close>

definition still_sleeping :: "kstate \<Rightarrow> u32 \<Rightarrow> u32 \<Rightarrow> bool" where
  "still_sleeping s start_time seconds \<longleftrightarrow> timer_ticks s - start_time < sleep_ticks seconds"

definition sleep_step :: "kstate \<Rightarrow> u32 \<Rightarrow> u32 \<Rightarrow> kstate option" where
  "sleep_step s start_time seconds = (if still_sleeping s start_time seconds then proc_yield s else Some s)"

definition kr_handle ::
    "kstate \<Rightarrow> machine \<Rightarrow> (u8 \<Rightarrow> u8) \<Rightarrow> u32 \<times> u32 \<Rightarrow> msg_context \<Rightarrow> u32 \<Rightarrow> msg_context \<Rightarrow> (kstate \<times> machine \<times> reply) option" where
  "kr_handle s m cmos heap con_ret ty con =
     (if ty = kr_REGR_INTR then do {
        m1 \<leftarrow> register_intr_handler m (con_1 con) (con_2 con);
        Some (s, m1, Reply_same) }
      else if ty = kr_SLEEP then Some (s, m, Sleep_then_reply (timer_ticks s) (con_1 con))
      else if ty = kr_GET_TIME then Some (s, m, Reply_context (pack_time con_ret (get_cmos_time cmos)))
      else if ty = kr_CREATE_PROC then do {
        s1 \<leftarrow> create_user_process s (con_1 con) (fst heap) (snd heap);
        Some (s1, m, No_reply) }
      else if ty = kr_CMD_PS then do {
        _ \<leftarrow> ps s;
        Some (s, m, Reply_same) }
      else if ty = kr_CMD_HALT then Some (s, sys_halt m, No_reply)
      else if ty = kr_CMD_POWEROFF then Some (s, sys_power_off m, No_reply)
      else if ty = kr_CMD_REBOOT then Some (s, sys_reboot m, No_reply)
      else Some (s, m, No_reply))"

section \<open>Requests\<close>

text \<open>A request is handled by the server it is addressed to.\<close>

definition fs_serve :: "fs_state \<Rightarrow> objects \<Rightarrow> u64 \<Rightarrow> u32 \<Rightarrow> request \<Rightarrow> (fs_state \<times> objects \<times> reply) option" where
  "fs_serve s mem now cd_addr r =
     (case r of (k, dest, ty, con) \<Rightarrow> if dest = FS_PCB \<and> k = Send_then_recv then fs_handle s mem now cd_addr ty con else None)"

definition mm_serve :: "mm_state \<Rightarrow> u32 \<Rightarrow> request \<Rightarrow> (mm_state \<times> reply) option" where
  "mm_serve s all_mem r =
     (case r of (k, dest, ty, con) \<Rightarrow> if dest = MM_PCB \<and> k = Send_then_recv then mm_handle s all_mem ty con else None)"

definition kr_serve ::
    "kstate \<Rightarrow> machine \<Rightarrow> (u8 \<Rightarrow> u8) \<Rightarrow> u32 \<times> u32 \<Rightarrow> msg_context \<Rightarrow> request \<Rightarrow> (kstate \<times> machine \<times> reply) option" where
  "kr_serve s m cmos heap con_ret r =
     (case r of (k, dest, ty, con) \<Rightarrow> if dest = KR_PCB then kr_handle s m cmos heap con_ret ty con else None)"

lemmas fs_serve_simps = fs_serve_def fs_handle_def mkdir_call_def rmdir_call_def mkfile_call_def rmfile_call_def
  open_call_def close_call_def write_call_def read_call_def eof_call_def lseek_call_def get_cur_dir_call_def

lemmas server_simps = mm_serve_def mm_handle_def malloc_call_def free_call_def
  kr_serve_def kr_handle_def register_intr_handler_call_def get_current_time_call_def create_process_call_def

lemma ucast_up_down [simp]: "ucast (ucast w :: u32) = w" for w :: u8
  by (rule bit_word_eqI) (simp add: bit_simps)

lemma fs_serve_call:
  "fs_serve s mem now d (mkdir_call con a) = reply_to (sys_mkdir s now (mem a)) mem"
  "fs_serve s mem now d (rmdir_call con a) = reply_to (sys_rmdir s (mem a)) mem"
  "fs_serve s mem now d (mkfile_call con a) = reply_to (sys_mkfile s now (mem a)) mem"
  "fs_serve s mem now d (rmfile_call con a) = reply_to (sys_rmfile s (mem a)) mem"
  "fs_serve s mem now d (open_call con a) = map_option (\<lambda>(fd, s1). (s1, mem, Reply_value (word_of_int fd))) (open_file s (mem a))"
  "fs_serve s mem now d (close_call con n) = reply_to (close_file s n) mem"
  "fs_serve s mem now d (write_call con n a cnt mode) = reply_to (write_file s n (mem a) 0 cnt mode) mem"
  "fs_serve s mem now d (read_call con n a cnt) =
     map_option (\<lambda>(len, s1, buf). (s1, mem(a := buf), Reply_value (word_of_int len))) (read_file s n (mem a) 0 cnt)"
  "fs_serve s mem now d (eof_call con n) = map_option (\<lambda>r. (s, mem, Reply_value (if r then 1 else 0))) (is_eof s n)"
  "fs_serve s mem now d (lseek_call con n off) = reply_to (lseek_file s n off) mem"
  "fs_serve s mem now d (get_cur_dir_call con) = Some (s, mem, Reply_value d)"
  by (simp_all add: fs_serve_simps map_conv_bind_option case_prod_unfold comp_def)

lemma mm_serve_call:
  "mm_serve s all_mem (malloc_call con cnt) = map_option (\<lambda>(addr, s1). (s1, Reply_value addr)) (mm_malloc s cnt)"
  "mm_serve s all_mem (free_call con addr) = map_option (\<lambda>s1. (s1, Reply_same)) (mm_free s addr)"
  by (simp_all add: server_simps map_conv_bind_option case_prod_unfold comp_def)

section \<open>Properties\<close>


text \<open>C14: a program that asks the file server to write a short text to an open file and then asks
  it to read gets the text and its terminating NUL into its buffer and the number of bytes as
  the result.\<close>

theorem written_text_is_read_back:
  assumes "layout_ok s" and "disk_wf s" and "load (file_desc_tbl s) (unat n) = Some (Some f)" and "inode_ok s (finode f)"
    and "check_inode_permission s (finode f) access_WRITE" and "bm_used (block_bmap s) \<noteq> {..<bm_cap (block_bmap s)}"
    and "cstr (mem a) 0 txt" and "length txt < 511" and "length txt < unat cnt" and "mode \<noteq> APPEND"
    and "check_inode_permission s (finode f) access_READ" and "foffset f = 0" and "length txt + 1 \<le> length (mem b)"
  shows "\<exists>s' s''. fs_serve s mem now d (write_call con n a cnt mode) = Some (s', mem, Reply_same)
    \<and> fs_serve s' mem now d (read_call con n b (of_nat (length txt) + 1))
      = Some (s'', mem(b := put (mem b) 0 (txt @ [0])), Reply_value (of_nat (length txt) + 1))"
proof -
  obtain s' s'' where w: "write_file s n (mem a) 0 cnt mode = Some s'"
    and r: "read_file s' n (mem b) 0 (of_nat (length txt) + 1) = Some (int (length txt) + 1, s'', put (mem b) 0 (txt @ [0]))"
    using short_file_round_trip [OF assms(1-12), of 0 "mem b"] assms(13) by auto
  show ?thesis by (rule exI [of _ s'], rule exI [of _ s'']) (simp add: fs_serve_call reply_to_def w r)
qed

theorem written_text_is_read_back_witness:
  "\<exists>s' s''. fs_serve file_fs (\<lambda>a. if a = 1 then [104, 105, 0] else [9, 9, 9, 9]) 0 0 (write_call (mcontext zero_message) 0 1 10 1)
      = Some (s', \<lambda>a. if a = 1 then [104, 105, 0] else [9, 9, 9, 9], Reply_same)
    \<and> fs_serve s' (\<lambda>a. if a = 1 then [104, 105, 0] else [9, 9, 9, 9]) 0 0 (read_call (mcontext zero_message) 0 2 3)
      = Some (s'', (\<lambda>a. if a = 1 then [104, 105, 0] else [9, 9, 9, 9])(2 := [104, 105, 0, 9]), Reply_value 3)"
proof -
  let ?mem = "\<lambda>a :: u32. if a = 1 then [104, 105, 0] else [9, 9, 9, 9 :: u8]"
  have "\<exists>s' s''. fs_serve file_fs ?mem 0 0 (write_call (mcontext zero_message) 0 1 10 1) = Some (s', ?mem, Reply_same)
    \<and> fs_serve s' ?mem 0 0 (read_call (mcontext zero_message) 0 2 (of_nat (length [104 :: u8, 105]) + 1))
      = Some (s'', ?mem(2 := put (?mem 2) 0 ([104, 105] @ [0])), Reply_value (of_nat (length [104 :: u8, 105]) + 1))"
    by (rule written_text_is_read_back [where f = new_file])
      (use file_fs_ok file_inodes_ok file_perms bm512_ok in \<open>simp_all add: new_file_def APPEND_def\<close>)
  then show ?thesis by (simp add: put_def)
qed

text \<open>A process that asks the kernel for the time gets the number of the time that the clock
  shows: nothing is lost in the reply.\<close>

lemma time_request_answered:
  "\<exists>c. kr_serve s m cmos heap con_ret (get_current_time_call con) = Some (s, m, Reply_context c)
     \<and> get_current_time c = time2num (get_cmos_time cmos)"
  by (simp add: server_simps get_current_time_of_reply)

end
