(* ===== verification/Net_Server.thy ===== *)
theory Net_Server
  imports Tcp Servers
begin

text \<open>
  Model of the protocol stack (\<open>net/protocol_stack.cc\<close>) and of the loop of the network server
  (\<open>net/main.cc\<close>).

  The server's state is that of the TCP factory, which shares the interface with the stack and
  the manager, with the flag of the ICMP factory and the ring of packet buffers that belongs to
  the driver. As for the other servers, \<open>mem\<close> gives the objects that addresses in messages
  point to, here also the packet buffers; what is printed is left out.

  The theory shows that a frame with a segment reaches TCP with the sender's address and the
  length of the segment, that two hosts resolve an address over ARP, and that the socket calls
  of the library reach the operations.
\<close>

section \<open>Protocol stack\<close>

text \<open>What a received ICMP packet prints: nothing more than its kind, or the sequence number of a
  reply.\<close>

definition icmp_resolve :: "bool \<Rightarrow> u8 list \<Rightarrow> nat \<Rightarrow> u16 option option" where
  "icmp_resolve need_output data p = do {
     bs \<leftarrow> read_bytes data p icmp_size;
     let h = decode_icmp bs;
     Some (if icmp_type h \<noteq> ICMP_REQUEST \<and> need_output then Some (sequence_num h) else None) }"

definition handle_packet :: "net_state \<Rightarrow> bool \<Rightarrow> u8 list \<Rightarrow> u16 \<Rightarrow> net_state option" where
  "handle_packet st need_output data len = do {
     eb \<leftarrow> read_bytes data 0 eth_size;
     let proto = swap_word (eth_proto (decode_eth eb));
     (if proto = next_is_arp then do {
        ab \<leftarrow> read_bytes data eth_size arp_size;
        let h = decode_arp ab;
        (if swap_word (opcode h) = req_opcode then do {
           let (res_mac, t) = cache_mac_addr (arp_tbl (net_if st)) (arp_target_ip h);
           let st1 = st\<lparr>net_if := (net_if st)\<lparr>arp_tbl := t\<rparr>\<rparr>;
           (if res_mac \<noteq> None then do {
              f \<leftarrow> arp_reply (if_mac (net_if st)) (if_ip (net_if st)) (arp_src_mac h) (arp_src_mac h) (arp_src_ip h);
              Some (st1\<lparr>frames := frames st1 @ [f]\<rparr>) }
            else Some st1) }
         else do {
           t \<leftarrow> arp_append (arp_tbl (net_if st)) (arp_src_mac h) (arp_src_ip h);
           Some (st\<lparr>net_if := (net_if st)\<lparr>arp_tbl := t\<rparr>\<rparr>) }) }
      else if proto = next_is_ip then do {
        ib \<leftarrow> read_bytes data eth_size ip_size;
        let h = decode_ip ib;
        (if next_protocol h = 1 then do {
           _ \<leftarrow> icmp_resolve need_output data (eth_size + ip_size);
           Some st }
         else if next_protocol h = 6 then
           resolve_packet st data (eth_size + ip_size) (src_ip h) (len - 14 - 20)
         else Some st) }
      else Some st) }"

section \<open>The server\<close>

record net_server =
  ns_state :: net_state
  ns_need_output :: bool
  ns_net_buf :: indirect_ring_buffer

abbreviation (input) intr_INTR :: u32 where "intr_INTR \<equiv> 0xffffff"

definition net_reply_to :: "net_server \<Rightarrow> objects \<Rightarrow> net_state option \<Rightarrow> (net_server \<times> objects \<times> reply) option" where
  "net_reply_to s mem r = map_option (\<lambda>st. (s\<lparr>ns_state := st\<rparr>, mem, Reply_same)) r"

text \<open>The start of the server: the factory on the current interface, after an ARP request for the
  gateway was sent.\<close>

definition net_start :: "network_manager \<Rightarrow> indirect_ring_buffer \<Rightarrow> net_server option" where
  "net_start nm rb = do {
     n \<leftarrow> get_cur_ifaces nm;
     f \<leftarrow> arp_request (if_mac n) (if_ip n) [172, 17, 0, 1];
     Some \<lparr>ns_state = (new_factory n)\<lparr>frames := [f]\<rparr>, ns_need_output = False, ns_net_buf = rb\<rparr> }"

text \<open>\<open>heap\<close> holds the addresses that \<open>malloc\<close> returns for a new socket and for its buffers; \<open>sender\<close> is
  the process that the message came from.\<close>

definition net_handle ::
    "net_server \<Rightarrow> objects \<Rightarrow> u32 \<times> u32 list \<Rightarrow> u32 \<Rightarrow> u32 \<Rightarrow> msg_context \<Rightarrow> (net_server \<times> objects \<times> reply) option" where
  "net_handle s mem heap sender ty con =
     (let st = ns_state s; n = net_if st in
      if ty = intr_INTR then do {
        (a, rb) \<leftarrow> get_first_used_buffer (ns_net_buf s);
        (if a = 0 then None
         else do {
           packet_len \<leftarrow> load16 (mem a) 0;
           st1 \<leftarrow> handle_packet st (ns_need_output s) (drop 2 (mem a)) packet_len;
           Some (s\<lparr>ns_state := st1, ns_net_buf := rb\<rparr>, mem, No_reply) }) }
      else if ty = net_SHOW_ARPTBL then do {
        _ \<leftarrow> arp_print_all (arp_tbl n);
        Some (s, mem, Reply_same) }
      else if ty = net_PING then do {
        let (gw, n1) = get_default_gateway_mac n;
        g \<leftarrow> gw;
        f \<leftarrow> icmp_request (if_mac n) (if_ip n) (uint_bytes (con_1 con)) g;
        Some (s\<lparr>ns_state := st\<lparr>net_if := n1, frames := frames st @ [f]\<rparr>, ns_need_output := True\<rparr>, mem, Reply_same) }
      else if ty = net_SHOW_IFACES then Some (s, mem, Reply_same)
      else if ty = net_CONF_NET then do {
        n1 \<leftarrow> config_iface n (con_1 con) (con_2 con);
        f \<leftarrow> arp_reply (if_mac n1) (if_ip n1) mac_broadcast mac_broadcast mac_zero;
        Some (s\<lparr>ns_state := st\<lparr>net_if := n1, frames := frames st @ [f]\<rparr>\<rparr>, mem, Reply_same) }
      else if ty = net_LISTEN then net_reply_to s mem (tcp_listen st (ucast (con_1 con)) (fst heap) (snd heap))
      else if ty = net_ACCEPT then do {
        (_, st1) \<leftarrow> socket_accept st (ucast (con_1 con)) sender;
        Some (s\<lparr>ns_state := st1\<rparr>, mem, No_reply) }
      else if ty = net_SEND then net_reply_to s mem (tcp_send_socket st (ucast (con_1 con)) (mem (con_2 con)) (con_3 con))
      else if ty = net_RECV then do {
        (st1, b) \<leftarrow> tcp_recv st (ucast (con_1 con)) (mem (con_2 con)) (con_3 con);
        Some (s\<lparr>ns_state := st1\<rparr>, mem(con_2 con := b), Reply_same) }
      else if ty = net_CLOSE then net_reply_to s mem (tcp_close_socket st (ucast (con_1 con)))
      else Some (s, mem, No_reply))"

definition net_serve :: "net_server \<Rightarrow> objects \<Rightarrow> u32 \<times> u32 list \<Rightarrow> u32 \<Rightarrow> request \<Rightarrow> (net_server \<times> objects \<times> reply) option" where
  "net_serve s mem heap sender r =
     (case r of (k, dest, ty, con) \<Rightarrow> if dest = NET_PCB \<and> k = Send_then_recv then net_handle s mem heap sender ty con else None)"

section \<open>Frames that the stack receives\<close>

lemma handle_packet_segment:
  assumes "segment_frame n m sk fl payload d" and "length (if_mac n) = 6" and "length m = 6" and "length payload \<le> 60000"
  shows "handle_packet st need_output d (of_nat (length d)) = resolve_packet st d 34 (if_ip n) (of_nat (24 + length payload))"
proof -
  obtain c k ipb where d: "d = eth_bytes (if_mac n) m next_is_ip @ ipb @ encode_tcp (tcp_header_of sk fl c) @ payload" "length ipb = 20"
    "\<forall>bs. decode_ip (ipb @ bs) = ip_header (if_ip n) (sk_dst_ip sk) 6 (44 + of_nat (length payload)) k"
    using assms(1) by (auto simp: segment_frame_def)
  have e: "read_bytes d 0 14 = Some (eth_bytes (if_mac n) m next_is_ip)" "read_bytes d 14 20 = Some ipb"
    using d(1,2) assms(2,3) by (simp_all add: read_bytes_def)
  have p: "eth_proto (decode_eth (eth_bytes (if_mac n) m next_is_ip)) = swap_word next_is_ip"
    using decode_eth_bytes [OF assms(2,3), of next_is_ip "[]"] by simp
  have i: "next_protocol (decode_ip ipb) = 6" "src_ip (decode_ip ipb) = if_ip n"
    using spec [OF d(3), of "[]"] by (simp_all add: ip_header_def)
  have "(of_nat (length d) :: u16) - 14 - 20 = of_nat (24 + length payload)"
    using d(1,2) assms(2,3) by (simp add: algebra_simps)
  then show ?thesis using e p i by (simp add: handle_packet_def Let_def)
qed

text \<open>The ARP packets of the two kinds.\<close>

definition arp_body :: "u16 \<Rightarrow> u8 list \<Rightarrow> u8 list \<Rightarrow> u8 list \<Rightarrow> u8 list \<Rightarrow> arp_packet" where
  "arp_body op smac sip dmac tip = \<lparr>hw_type = swap_word 1, req_protocol = swap_word 0x0800, hw_addr_size = 6, protocol_size = 4,
     opcode = swap_word op, arp_src_mac = smac, arp_src_ip = sip, arp_dst_mac = dmac, arp_target_ip = tip\<rparr>"

lemma arp_frames:
  assumes "length mac = 6" and "length ip = 4" and "length tip = 4"
  shows "arp_request mac ip tip = Some (eth_bytes mac mac_broadcast next_is_arp @ encode_arp (arp_body req_opcode mac ip (replicate 6 0) tip))"
    and "length dmac = 6 \<Longrightarrow> length res = 6 \<Longrightarrow>
      arp_reply mac ip dmac res tip = Some (eth_bytes mac dmac next_is_arp @ encode_arp (arp_body rsp_opcode mac ip res tip))"
proof -
  have b: "length mac_broadcast = 6" by (simp add: mac_broadcast_def)
  have st: "store_bytes (eth_bytes mac x next_is_arp @ replicate 28 0) 14 (encode_arp h) = Some (eth_bytes mac x next_is_arp @ encode_arp h)"
    if "length x = 6" "arp_wf h" for x h
    using put_zeros [of "eth_bytes mac x next_is_arp" 14 "encode_arp h" 28 28] that assms(1) decode_arp_encode(2)
    by (simp add: store_bytes_def)
  show "arp_request mac ip tip = Some (eth_bytes mac mac_broadcast next_is_arp @ encode_arp (arp_body req_opcode mac ip (replicate 6 0) tip))"
    using assms b st [of mac_broadcast "arp_body req_opcode mac ip (replicate 6 0) tip"]
    by (simp add: arp_request_def eth_format_zeros arp_format_request_def arp_body_def [symmetric] arp_wf_def) (simp add: arp_body_def)
  show "arp_reply mac ip dmac res tip = Some (eth_bytes mac dmac next_is_arp @ encode_arp (arp_body rsp_opcode mac ip res tip))"
    if "length dmac = 6" "length res = 6"
    using that assms st [of dmac "arp_body rsp_opcode mac ip res tip"]
    by (simp add: arp_reply_def eth_format_zeros arp_format_reply_def arp_body_def [symmetric] arp_wf_def) (simp add: arp_body_def)
qed

lemma arp_packet_received:
  assumes "length mac = 6" and "length dmac = 6" and "arp_wf h"
  shows "read_bytes (eth_bytes mac dmac next_is_arp @ encode_arp h) 0 14 = Some (eth_bytes mac dmac next_is_arp)"
    and "read_bytes (eth_bytes mac dmac next_is_arp @ encode_arp h) 14 28 = Some (encode_arp h)"
    and "eth_proto (decode_eth (eth_bytes mac dmac next_is_arp)) = swap_word next_is_arp" and "decode_arp (encode_arp h) = h"
  using assms decode_arp_encode(2) [OF assms(3)] decode_arp_encode(1) [OF assms(3), of "[]"] decode_eth_bytes [OF assms(1,2), of next_is_arp "[]"]
  by (simp_all add: read_bytes_def)

section \<open>Properties\<close>

text \<open>A segment in a frame reaches TCP: the stack takes the address of the sender from the IP
  header and hands over exactly the segment, with its length.\<close>

lemma frame_reaches_tcp:
  assumes "gateway_ok (net_if a) m" and "socket_wf sk" and "length payload \<le> 60000"
  shows "\<exists>a' sk' d. tcp_send a sk payload (of_nat (length payload)) fl = Some (a', sk') \<and> frames a' = frames a @ [d]
    \<and> handle_packet st need_output d (of_nat (length d)) = resolve_packet st d 34 (if_ip (net_if a)) (of_nat (24 + length payload))"
proof -
  obtain t d where s: "tcp_send a sk payload (of_nat (length payload)) fl
      = Some (a\<lparr>net_if := (net_if a)\<lparr>arp_tbl := t\<rparr>, frames := frames a @ [d]\<rparr>, sk\<lparr>sk_seq_num := sk_seq_num sk + of_nat (length payload)\<rparr>)"
    "segment_frame (net_if a) m sk fl payload d"
    using assms refl by (rule tcp_send_frame)
  moreover have "length (if_mac (net_if a)) = 6" "length m = 6" using assms(1) by (simp_all add: gateway_ok_def)
  ultimately show ?thesis using handle_packet_segment assms(3) by auto
qed

text \<open>C22: two hosts resolve an address: the request that host \<open>a\<close> broadcasts for the address of
  host \<open>b\<close> makes \<open>b\<close>, which has its own address in its cache, send a reply, and the reply makes
  \<open>a\<close> find the hardware address of \<open>b\<close>.\<close>

theorem arp_resolution:
  assumes "arp_inv (arp_tbl (net_if a))" and "length (if_mac (net_if a)) = 6" and "length (if_ip (net_if a)) = 4"
    and "length (if_mac (net_if b)) = 6" and "length (if_ip (net_if b)) = 4"
    and "\<forall>x \<in> set (arp_tbl (net_if a)). ip_addr x \<noteq> if_ip (net_if b)"
    and "fst (cache_mac_addr (arp_tbl (net_if b)) (if_ip (net_if b))) \<noteq> None"
  shows "\<exists>f1 b1 f2 a1. arp_request (if_mac (net_if a)) (if_ip (net_if a)) (if_ip (net_if b)) = Some f1
    \<and> handle_packet b nob f1 len1 = Some b1 \<and> frames b1 = frames b @ [f2]
    \<and> handle_packet a noa f2 len2 = Some a1 \<and> fst (cache_mac_addr (arp_tbl (net_if a1)) (if_ip (net_if b))) = Some (if_mac (net_if b))"
proof -
  let ?ma = "if_mac (net_if a)" and ?ia = "if_ip (net_if a)" and ?mb = "if_mac (net_if b)" and ?ib = "if_ip (net_if b)"
  let ?h1 = "arp_body req_opcode ?ma ?ia (replicate 6 0) ?ib" and ?h2 = "arp_body rsp_opcode ?mb ?ib ?ma ?ia"
  have w: "arp_wf ?h1" "arp_wf ?h2" "length mac_broadcast = 6" using assms(2-5) by (simp_all add: arp_wf_def arp_body_def mac_broadcast_def)
  let ?f1 = "eth_bytes ?ma mac_broadcast next_is_arp @ encode_arp ?h1" and ?f2 = "eth_bytes ?mb ?ma next_is_arp @ encode_arp ?h2"
  note r1 = arp_packet_received [OF assms(2) w(3,1)] and r2 = arp_packet_received [OF assms(4,2) w(2)]
  have q: "arp_request ?ma ?ia ?ib = Some ?f1" using arp_frames(1) [OF assms(2,3,5)] .
  let ?b1 = "b\<lparr>net_if := (net_if b)\<lparr>arp_tbl := snd (cache_mac_addr (arp_tbl (net_if b)) ?ib)\<rparr>, frames := frames b @ [?f2]\<rparr>"
  have "handle_packet b nob ?f1 len1 = Some ?b1"
    using r1 arp_frames(2) [OF assms(4,5,3) assms(2,2)] assms(7)
    by (simp add: handle_packet_def Let_def arp_body_def case_prod_unfold)
  moreover obtain t' where t': "arp_append (arp_tbl (net_if a)) ?mb ?ib = Some t'" "fst (cache_mac_addr t' ?ib) = Some ?mb"
    using arp_learned [OF assms(1,4,5,6)] by blast
  then have "handle_packet a noa ?f2 len2 = Some (a\<lparr>net_if := (net_if a)\<lparr>arp_tbl := t'\<rparr>\<rparr>)"
    using r2 by (simp add: handle_packet_def Let_def arp_body_def)
  ultimately show ?thesis using q t'(2)
    by (rule_tac x = ?f1 in exI, rule_tac x = ?b1 in exI, rule_tac x = ?f2 in exI, rule_tac x = "a\<lparr>net_if := (net_if a)\<lparr>arp_tbl := t'\<rparr>\<rparr>" in exI) simp
qed

definition example_peer :: network_interface where
  "example_peer = example_if\<lparr>if_ip := [172, 17, 0, 3], if_mac := [6, 5, 4, 3, 2, 1],
     arp_tbl := new_arp_table[0 := \<lparr>mac_addr = [6, 5, 4, 3, 2, 1], ip_addr = [172, 17, 0, 3], ref = 0\<rparr>]\<rparr>"

theorem arp_resolution_witness:
  "\<exists>f1 b1 f2 a1. arp_request [1, 2, 3, 4, 5, 6] [172, 17, 0, 2] [172, 17, 0, 3] = Some f1
    \<and> handle_packet (new_factory example_peer) False f1 42 = Some b1 \<and> frames b1 = [f2]
    \<and> handle_packet (new_factory example_if) False f2 42 = Some a1
    \<and> fst (cache_mac_addr (arp_tbl (net_if a1)) [172, 17, 0, 3]) = Some [6, 5, 4, 3, 2, 1]"
proof -
  have "ip_addr ` set (arp_tbl example_if) \<subseteq> {[172, 17, 0, 1], [0, 0, 0, 0]}"
    by (simp add: example_if_def new_arp_table_def zero_item_def numeral_eq_Suc)
  moreover have "[172, 17, 0, 3 :: u8] \<notin> {[172, 17, 0, 1], [0, 0, 0, 0]}" by simp
  ultimately have n: "\<forall>x \<in> set (arp_tbl example_if). ip_addr x \<noteq> [172, 17, 0, 3]" by (auto simp: image_subset_iff)
  have i: "if_mac example_if = [1, 2, 3, 4, 5, 6]" "if_ip example_if = [172, 17, 0, 2]" "arp_inv (arp_tbl example_if)"
    using example_if_ok by (simp_all add: gateway_ok_def) (simp_all add: example_if_def)
  have p: "if_mac example_peer = [6, 5, 4, 3, 2, 1]" "if_ip example_peer = [172, 17, 0, 3]"
    "fst (cache_mac_addr (arp_tbl example_peer) [172, 17, 0, 3]) \<noteq> None"
    by (simp_all add: example_peer_def cache_mac_addr_def locate_ip_addr_def is_same_ip_addr_def new_arp_table_def numeral_eq_Suc)
  have f: "net_if (new_factory n) = n" "frames (new_factory n) = []" for n by (simp_all add: new_factory_def)
  show ?thesis using arp_resolution [of "new_factory example_if" "new_factory example_peer" False 42 False 42] i n p f by simp
qed

lemma ucast_port [simp]: "ucast (ucast w :: u32) = w" for w :: u16
  by (rule bit_word_eqI) (simp add: bit_simps)

lemmas net_serve_simps = net_serve_def net_handle_def Let_def listen_call_def accept_call_def recv_call_def send_socket_call_def
  close_socket_call_def

text \<open>The socket calls of the library and the network server agree: the message that a call
  sends makes the server perform the operation on the port and the arguments of the call. Only
  \<open>accept\<close> is not answered at once: it stores the caller, whom TCP tells of the connection.\<close>

lemma socket_calls_reach_operations:
  shows "net_serve s mem heap proc (listen_call con port) = net_reply_to s mem (tcp_listen (ns_state s) port (fst heap) (snd heap))
   \<and> net_serve s mem heap proc (accept_call con port)
       = map_option (\<lambda>(_, st). (s\<lparr>ns_state := st\<rparr>, mem, No_reply)) (socket_accept (ns_state s) port proc)
   \<and> net_serve s mem heap proc (send_socket_call con port b len)
       = net_reply_to s mem (tcp_send_socket (ns_state s) port (mem b) len)
   \<and> net_serve s mem heap proc (recv_call con port b len)
       = map_option (\<lambda>(st, bs). (s\<lparr>ns_state := st\<rparr>, mem(b := bs), Reply_same)) (tcp_recv (ns_state s) port (mem b) len)
   \<and> net_serve s mem heap proc (close_socket_call con port) = net_reply_to s mem (tcp_close_socket (ns_state s) port)"
  by (simp add: net_serve_simps map_conv_bind_option case_prod_unfold comp_def)

end
