(* ===== verification/Ne2k.thy ===== *)
theory Ne2k
  imports Net_Server
begin

text \<open>
  Model of the driver of the network card, \<open>dr/ne2k.cc\<close>.

  The card is an argument: \<open>remote\<close> gives the byte that the data port delivers at the \<open>k\<close>-th read
  after an address was set and the read command was given, \<open>current\<close> and \<open>int_status\<close> what the
  registers hold at the \<open>i\<close>-th read. Writes to ports are recorded. The loops that poll the card
  may run for ever, they are partial functions. The buffers of the packet ring are objects at
  the addresses that the ring holds.

  The theory shows that the packets that the card holds between the driver's page and the
  card's current page are stored, complete and in order, in the buffers that the ring hands to
  the network server, that the loop ends there, and that the server handles the frame with its
  length; and that a packet that is sent is written to the card byte by byte.
\<close>

section \<open>Model\<close>

record card =
  remote :: "u8 \<Rightarrow> u8 \<Rightarrow> nat \<Rightarrow> u8"
  current :: "nat \<Rightarrow> u8"
  int_status :: "nat \<Rightarrow> u8"

record ne2k =
  nk_next :: u8
  nk_buf :: indirect_ring_buffer
  nk_mac :: "u8 list"
  nk_out :: port_log

abbreviation (input) CMD :: u16 where "CMD \<equiv> 0x300"
abbreviation (input) PAGE_START :: u16 where "PAGE_START \<equiv> 0x301"
abbreviation (input) PAGE_STOP :: u16 where "PAGE_STOP \<equiv> 0x302"
abbreviation (input) BOUNDARY :: u16 where "BOUNDARY \<equiv> 0x303"
abbreviation (input) TRANS_PAGE :: u16 where "TRANS_PAGE \<equiv> 0x304"
abbreviation (input) TRANS_CNT_LOW :: u16 where "TRANS_CNT_LOW \<equiv> 0x305"
abbreviation (input) TRANS_CNT_HIGH :: u16 where "TRANS_CNT_HIGH \<equiv> 0x306"
abbreviation (input) INTR_STAT :: u16 where "INTR_STAT \<equiv> 0x307"
abbreviation (input) CURRENT :: u16 where "CURRENT \<equiv> 0x307"
abbreviation (input) REMOTE_ADDR_LOW :: u16 where "REMOTE_ADDR_LOW \<equiv> 0x308"
abbreviation (input) REMOTE_ADDR_HIGH :: u16 where "REMOTE_ADDR_HIGH \<equiv> 0x309"
abbreviation (input) REMOTE_CNT_LOW :: u16 where "REMOTE_CNT_LOW \<equiv> 0x30a"
abbreviation (input) REMOTE_CNT_HIGH :: u16 where "REMOTE_CNT_HIGH \<equiv> 0x30b"
abbreviation (input) RECV_CONF :: u16 where "RECV_CONF \<equiv> 0x30c"
abbreviation (input) TRANS_CONF :: u16 where "TRANS_CONF \<equiv> 0x30d"
abbreviation (input) DATA_CONF :: u16 where "DATA_CONF \<equiv> 0x30e"
abbreviation (input) INTR_MASK :: u16 where "INTR_MASK \<equiv> 0x30f"
abbreviation (input) NE_DATA :: u16 where "NE_DATA \<equiv> 0x310"
abbreviation (input) NE_RESET :: u16 where "NE_RESET \<equiv> 0x31f"
abbreviation (input) PAGE_START_DATA :: u8 where "PAGE_START_DATA \<equiv> 0x46"
abbreviation (input) PAGE_STOP_DATA :: u8 where "PAGE_STOP_DATA \<equiv> 0x80"
abbreviation (input) TRANS_BUF :: u8 where "TRANS_BUF \<equiv> 0x40"

definition nk_outs :: "ne2k \<Rightarrow> port_log \<Rightarrow> ne2k" where
  "nk_outs s out = s\<lparr>nk_out := nk_out s @ out\<rparr>"

text \<open>Polling: the loop ends at the first read that satisfies the condition, and the number of the
  next read is returned.\<close>

partial_function (option) poll :: "(nat \<Rightarrow> u8) \<Rightarrow> (u8 \<Rightarrow> bool) \<Rightarrow> nat \<Rightarrow> nat option" where
  "poll reg stop i = (if stop (reg i) then Some (Suc i) else poll reg stop (Suc i))"

declare poll.simps [code]

section \<open>The start\<close>

definition mac_of_prom :: "u8 list \<Rightarrow> u8 list" where
  "mac_of_prom prom = map (\<lambda>i. prom ! (2 * i)) [0 ..< 6]"

text \<open>\<open>data_buf\<close> are the addresses of the ten buffers, \<open>reset\<close> what the reset port holds, and \<open>prom\<close>
  the 32 bytes that the card delivers.\<close>

definition init_ports_before :: "u8 \<Rightarrow> port_log" where
  "init_ports_before reset = [(NE_RESET, reset)]"

definition init_ports :: "u8 list \<Rightarrow> port_log" where
  "init_ports mac =
     [(INTR_STAT, 0xff), (CMD, 0x21), (DATA_CONF, 0x58), (REMOTE_CNT_LOW, 0x20), (REMOTE_CNT_HIGH, 0), (REMOTE_ADDR_LOW, 0),
      (REMOTE_ADDR_HIGH, 0), (CMD, 0x0a), (RECV_CONF, 0xe), (TRANS_CONF, 4),
      (TRANS_PAGE, 0x40), (PAGE_START, 0x46), (BOUNDARY, 0x46), (PAGE_STOP, 0x60), (INTR_STAT, 0x1f), (CMD, 0x61), (CMD, 0x61)]
     @ map (\<lambda>i. (0x301 + of_nat i, mac ! i)) [0 ..< 6]
     @ [(0x308, 0xff), (0x30f, 0xff), (0x30a, 0xff), (0x30b, 0xff), (0x30c, 0xff), (0x30d, 0xff), (0x30e, 0xff), (0x30f, 0xff),
        (DATA_CONF, 0x58), (CURRENT, 0x47), (CMD, 0x22), (TRANS_CONF, 0), (RECV_CONF, 0xc), (INTR_STAT, 0xff), (INTR_MASK, 0x0b)]"

definition init_ne2k :: "card \<Rightarrow> ne2k \<Rightarrow> u32 list \<Rightarrow> u8 \<Rightarrow> u8 list \<Rightarrow> ne2k option" where
  "init_ne2k c s data_buf reset prom = do {
     rb \<leftarrow> irb_initialize (nk_buf s) data_buf;
     _ \<leftarrow> poll (int_status c) (\<lambda>v. v AND 0x80 \<noteq> 0) 0;
     let mac = mac_of_prom prom;
     Some (nk_outs (s\<lparr>nk_buf := rb, nk_next := PAGE_START_DATA + 1, nk_mac := mac\<rparr>) (init_ports_before reset @ init_ports mac)) }"

section \<open>Sending\<close>

definition send_setup :: "u32 \<Rightarrow> port_log" where
  "send_setup sz = [(REMOTE_CNT_LOW, ucast (sz AND 0xff)), (REMOTE_CNT_HIGH, ucast (drop_bit 8 sz)), (REMOTE_ADDR_LOW, 0),
     (REMOTE_ADDR_HIGH, TRANS_BUF), (CMD, 0x12)]"

definition send_start :: "u32 \<Rightarrow> port_log" where
  "send_start sz = [(TRANS_PAGE, TRANS_BUF), (TRANS_CNT_LOW, ucast (sz AND 0xff)), (TRANS_CNT_HIGH, ucast (drop_bit 8 sz)), (CMD, 0x26)]"

definition send_packet :: "card \<Rightarrow> ne2k \<Rightarrow> u32 \<Rightarrow> u8 list \<Rightarrow> ne2k option" where
  "send_packet c s sz data =
     (if length data < unat sz then None
      else do {
        let s1 = nk_outs s (send_setup sz @ map (\<lambda>b. (NE_DATA, b)) (take (unat sz) data));
        _ \<leftarrow> poll (int_status c) (\<lambda>v. v = 0x40) 0;
        Some (nk_outs s1 (send_start sz)) })"

section \<open>Receiving\<close>

definition header_ports :: "u8 \<Rightarrow> port_log" where
  "header_ports page = [(REMOTE_ADDR_HIGH, page), (REMOTE_ADDR_LOW, 0), (REMOTE_CNT_LOW, 4), (REMOTE_CNT_HIGH, 0), (CMD, 0x0a)]"

definition body_ports :: "u8 \<Rightarrow> u16 \<Rightarrow> port_log" where
  "body_ports page len = [(REMOTE_ADDR_HIGH, page), (REMOTE_ADDR_LOW, 4), (REMOTE_CNT_LOW, ucast (len AND 0xff)),
     (REMOTE_CNT_HIGH, ucast (drop_bit 8 len)), (CMD, 0x0a)]"

text \<open>A buffer gets the length in its first two bytes; the rest of its 1600 bytes is cleared before the
  packet is copied. When the ring is full the address is 0, and the length is written there before
  it is tested.\<close>

definition fill_buffer :: "u8 list \<Rightarrow> u16 \<Rightarrow> (nat \<Rightarrow> u8) \<Rightarrow> u8 list option" where
  "fill_buffer bs len byte = do {
     b1 \<leftarrow> store_bytes bs 0 (enc16 len);
     b2 \<leftarrow> memset b1 2 0 1598;
     store_bytes b2 2 (map byte [0 ..< unat len]) }"

definition store_packet :: "card \<Rightarrow> ne2k \<Rightarrow> objects \<Rightarrow> u8 \<Rightarrow> u16 \<Rightarrow> (ne2k \<times> objects) option" where
  "store_packet c s mem nxt len = do {
     (a, rb) \<leftarrow> get_first_free_buffer (nk_buf s);
     (if a = 0 then None
      else do {
        b \<leftarrow> fill_buffer (mem a) len (remote c (nk_next s) 4);
        Some (nk_outs (s\<lparr>nk_buf := rb, nk_next := (if nxt = PAGE_START_DATA then PAGE_START_DATA else nxt)\<rparr>)
                (body_ports (nk_next s) len @ [(INTR_STAT, 0x40)]), mem(a := b)) }) }"

definition boundary_ports :: "u8 \<Rightarrow> port_log" where
  "boundary_ports page = [(BOUNDARY, if page = PAGE_START_DATA then PAGE_STOP_DATA - 1 else page - 1), (CMD, 0x62), (CMD, 0x22)]"

definition packet_len :: "card \<Rightarrow> u8 \<Rightarrow> u16" where
  "packet_len c page = ucast (remote c page 0 2) + push_bit 8 (ucast (remote c page 0 3)) - 4"

definition receive_step :: "card \<Rightarrow> ne2k \<Rightarrow> objects \<Rightarrow> (ne2k \<times> objects) option" where
  "receive_step c s mem = do {
     let page = nk_next s;
     let recv_stat = remote c page 0 0;
     let nxt = remote c page 0 1;
     let len = packet_len c page;
     let s1 = nk_outs s (header_ports page @ [(INTR_STAT, 0x40)]);
     (s2, mem1) \<leftarrow> (if recv_stat AND 31 = 1 \<and> PAGE_START_DATA \<le> page \<and> page \<le> PAGE_STOP_DATA \<and> len \<le> 1532
                     then store_packet c s1 mem nxt len else Some (s1, mem));
     Some (nk_outs s2 (boundary_ports (nk_next s2)), mem1) }"

partial_function (option) receive_loop :: "card \<Rightarrow> ne2k \<Rightarrow> objects \<Rightarrow> nat \<Rightarrow> u8 \<Rightarrow> (ne2k \<times> objects) option" where
  "receive_loop c s mem i cur =
     (if nk_next s = cur then Some (s, mem)
      else do {
        (s1, mem1) \<leftarrow> receive_step c s mem;
        receive_loop c s1 mem1 (Suc i) (current c i) })"

declare receive_loop.simps [code]

definition receive_packet :: "card \<Rightarrow> ne2k \<Rightarrow> objects \<Rightarrow> (ne2k \<times> objects) option" where
  "receive_packet c s mem = receive_loop c (nk_outs s [(CMD, 0x62), (CMD, 0x22)]) mem 1 (current c 0)"

text \<open>The interrupt handler; the last component counts the messages that it sends to the network server.
  The registers of the card are read again in every round: \<open>c i\<close> is the card in the \<open>i\<close>-th round.\<close>

definition handler_step :: "card \<Rightarrow> ne2k \<Rightarrow> objects \<Rightarrow> u8 \<Rightarrow> (ne2k \<times> objects \<times> nat) option" where
  "handler_step c s mem val = do {
     let s1 = nk_outs s [(INTR_STAT, val)];
     (s2, mem1, n) \<leftarrow> (if val AND 0x01 \<noteq> 0 then map_option (\<lambda>(x, m). (x, m, 1)) (receive_packet c s1 mem) else Some (s1, mem, 0));
     let s3 = (if val AND 0x40 \<noteq> 0 then nk_outs s2 [(CMD, 0)] else s2);
     let s4 = (if val AND 0x02 \<noteq> 0 then nk_outs s3 [(0x307, 0x40), (CMD, 0)] else s3);
     Some (nk_outs s4 [(INTR_STAT, 0x22)], mem1, n) }"

partial_function (option) handler_loop :: "(nat \<Rightarrow> card) \<Rightarrow> ne2k \<Rightarrow> objects \<Rightarrow> nat \<Rightarrow> nat \<Rightarrow> (ne2k \<times> objects \<times> nat) option" where
  "handler_loop c s mem i cnt =
     (let val = int_status (c i) 0 in
      if val = 0 then Some (s, mem, cnt)
      else do {
        (s1, mem1, n) \<leftarrow> handler_step (c i) s mem val;
        handler_loop c s1 mem1 (Suc i) (cnt + n) })"

declare handler_loop.simps [code]

definition ne2k_handler :: "(nat \<Rightarrow> card) \<Rightarrow> ne2k \<Rightarrow> objects \<Rightarrow> (ne2k \<times> objects \<times> nat) option" where
  "ne2k_handler c s mem = handler_loop c (nk_outs s [(INTR_STAT, 0x22)]) mem 0 0"

section \<open>Received packets\<close>

text \<open>What the card documents: from page \<open>p\<close> up to page \<open>q\<close> its memory holds the packets \<open>ds\<close>, each
  after a header of four bytes with the status, the page of the next packet and the length.\<close>

fun holds :: "card \<Rightarrow> u8 \<Rightarrow> u8 list list \<Rightarrow> u8 \<Rightarrow> bool" where
  "holds c p [] q \<longleftrightarrow> p = q"
| "holds c p (d # ds) q \<longleftrightarrow> p \<noteq> q \<and> PAGE_START_DATA \<le> p \<and> p \<le> PAGE_STOP_DATA \<and> remote c p 0 0 AND 31 = 1
     \<and> length d \<le> 1532 \<and> packet_len c p = of_nat (length d) \<and> map (remote c p 4) [0 ..< length d] = d
     \<and> holds c (remote c p 0 1) ds q"

text \<open>A buffer with a packet.\<close>

definition packet_in :: "u8 list \<Rightarrow> u8 list \<Rightarrow> bool" where
  "packet_in bs d \<longleftrightarrow> length d \<le> 1532 \<and> (\<exists>rest. bs = enc16 (of_nat (length d)) @ d @ rest)"

lemma fill_buffer_packet:
  assumes "1600 \<le> length bs" and "length d \<le> 1532" and "map byte [0 ..< length d] = d"
  shows "\<exists>b. fill_buffer bs (of_nat (length d)) byte = Some b \<and> length b = length bs \<and> packet_in b d"
proof -
  let ?e = "enc16 (of_nat (length d))"
  have u: "unat (of_nat (length d) :: u16) = length d" using assms(2) by (intro unat_of_nat_small) simp
  have m: "memset (put bs 0 ?e) 2 0 1598 = Some (?e @ replicate 1598 0 @ drop 1600 bs)"
    using assms(1) memset_put [of 2 1598 "put bs 0 ?e" 0] by (simp add: put_def)
  have "store_bytes (?e @ replicate 1598 0 @ drop 1600 bs) 2 d = Some (?e @ d @ replicate (1598 - length d) 0 @ drop 1600 bs)"
    using assms(1,2) by (simp add: store_bytes_def put_def)
  then show ?thesis
    using assms m by (simp add: fill_buffer_def store_bytes_def [of bs] u packet_in_def)
qed

text \<open>The buffers of the ring are distinct objects of at least 1600 bytes.\<close>

definition buffers_ok :: "objects \<Rightarrow> indirect_ring_buffer \<Rightarrow> bool" where
  "buffers_ok mem rb \<longleftrightarrow> irb_inv rb \<and> distinct (buf rb) \<and> 0 \<notin> set (buf rb) \<and> (\<forall>a \<in> set (buf rb). 1600 \<le> length (mem a))"

text \<open>The packets in the buffers in use, oldest first.\<close>

definition packets_queued :: "objects \<Rightarrow> indirect_ring_buffer \<Rightarrow> u8 list list \<Rightarrow> bool" where
  "packets_queued mem rb ds \<longleftrightarrow> buffers_ok mem rb \<and> list_all2 (\<lambda>a. packet_in (mem a)) (irb_list rb) ds"

lemma free_buffer_fresh:
  assumes "irb_inv rb" and "distinct (buf rb)" and "length (irb_list rb) < 9"
  obtains a rb' where "get_first_free_buffer rb = Some (a, rb')" "irb_inv rb'" "irb_list rb' = irb_list rb @ [a]" "buf rb' = buf rb"
    "a \<in> set (buf rb)" "a \<notin> set (irb_list rb)"
proof -
  obtain a rb' where r: "get_first_free_buffer rb = Some (a, rb')" "irb_inv rb'" "irb_list rb' = irb_list rb @ [a]"
    using irb.free_room [OF assms(1,3)] by blast
  have i: "unat (irb_head rb) < 10" "unat (irb_tail rb) < 10" "length (buf rb) = 10"
    using assms(1) by (simp_all add: irb_inv_def irb_LEN_def)
  have "\<not> irb_is_full rb"
  proof
    assume "irb_is_full rb"
    then have "rb' = rb" using r(1) by (simp add: get_first_free_buffer_def)
    then show False using r(3) by simp
  qed
  then have a: "a = buf rb ! unat (irb_head rb)" "buf rb' = buf rb"
    using r(1) i by (auto simp: get_first_free_buffer_def load_def)
  have "buf rb ! ((unat (irb_tail rb) + k) mod 10) \<noteq> a" if "k < ring_count 10 (unat (irb_head rb)) (unat (irb_tail rb))" for k
    using ring_slot_neq_head [OF i(1,2) that] nth_eq_iff_index_eq [OF assms(2)] i a(1) by simp
  then have "a \<notin> set (irb_list rb)" by (fastforce simp: irb_list_def ring_list_def irb_LEN_def)
  then show thesis using that r a i by simp
qed

lemma packets_queued_length: "packets_queued mem rb ds \<Longrightarrow> length (irb_list rb) = length ds"
  by (auto simp: packets_queued_def dest: list_all2_lengthD)

lemma list_all2_upd_fresh:
  assumes "list_all2 (\<lambda>a. P (f a)) xs ys" and "x \<notin> set xs" and "P v y"
  shows "list_all2 (\<lambda>a. P ((f(x := v)) a)) (xs @ [x]) (ys @ [y])"
proof -
  have "list_all2 (\<lambda>a. P ((f(x := v)) a)) xs ys"
    using assms(1,2) by (auto simp: list_all2_iff dest: set_zip_leftD)
  then show ?thesis using assms(3) by (simp add: list_all2_appendI)
qed

lemma receive_step_stores:
  assumes "packets_queued mem (nk_buf s) old" and "holds c (nk_next s) (d # ds) q" and "length old < 9"
  shows "\<exists>s' mem'. receive_step c s mem = Some (s', mem') \<and> packets_queued mem' (nk_buf s') (old @ [d]) \<and> holds c (nk_next s') ds q"
proof -
  have q: "buffers_ok mem (nk_buf s)" "list_all2 (\<lambda>a. packet_in (mem a)) (irb_list (nk_buf s)) old"
    using assms(1) by (simp_all add: packets_queued_def)
  then have i: "irb_inv (nk_buf s)" "distinct (buf (nk_buf s))" "length (irb_list (nk_buf s)) < 9"
    using assms(3) packets_queued_length [OF assms(1)] by (simp_all add: buffers_ok_def)
  obtain a rb where a: "get_first_free_buffer (nk_buf s) = Some (a, rb)" "irb_inv rb" "irb_list rb = irb_list (nk_buf s) @ [a]"
    "buf rb = buf (nk_buf s)" "a \<in> set (buf (nk_buf s))" "a \<notin> set (irb_list (nk_buf s))"
    by (rule free_buffer_fresh [OF i])
  obtain b where b: "fill_buffer (mem a) (of_nat (length d)) (remote c (nk_next s) 4) = Some b" "length b = length (mem a)" "packet_in b d"
    using fill_buffer_packet [of "mem a" d "remote c (nk_next s) 4"] q(1) a(5) assms(2) by (auto simp: buffers_ok_def)
  have "a \<noteq> 0" using q(1) a(5) by (auto simp: buffers_ok_def)
  moreover have "(of_nat (length d) :: u16) \<le> 1532"
    using assms(2) unat_of_nat_small [of "length d", where 'a = 16] by (simp add: word_le_nat_alt)
  moreover have "buffers_ok (mem(a := b)) rb" using q(1) a b(2) by (simp add: buffers_ok_def)
  ultimately show ?thesis
    using a b assms(2) list_all2_upd_fresh [where P = packet_in, OF q(2) a(6) b(3)]
    by (simp add: receive_step_def store_packet_def nk_outs_def Let_def packets_queued_def)
qed

lemma receive_loop_stores:
  assumes "packets_queued mem (nk_buf s) old" and "holds c (nk_next s) ds q" and "length old + length ds \<le> 9" and "\<forall>i. current c i = q"
  shows "\<exists>s' mem'. receive_loop c s mem i q = Some (s', mem') \<and> nk_next s' = q \<and> packets_queued mem' (nk_buf s') (old @ ds)"
  using assms
proof (induction ds arbitrary: s mem old i)
  case Nil
  then show ?case by (simp add: receive_loop.simps)
next
  case (Cons d ds)
  obtain s1 mem1 where s1: "receive_step c s mem = Some (s1, mem1)" "packets_queued mem1 (nk_buf s1) (old @ [d])" "holds c (nk_next s1) ds q"
    using receive_step_stores [OF Cons.prems(1,2)] Cons.prems(3) by auto
  obtain s' mem' where "receive_loop c s1 mem1 (Suc i) q = Some (s', mem')" "nk_next s' = q" "packets_queued mem' (nk_buf s') ((old @ [d]) @ ds)"
    using Cons.IH [OF s1(2,3), of "Suc i"] Cons.prems(3,4) by auto
  then show ?case using s1(1) Cons.prems(2,4) by (simp add: receive_loop.simps [of c s])
qed

text \<open>The network server takes the oldest packet.\<close>

lemma used_buffer_in_ring:
  assumes "irb_inv rb" and "irb_list rb = a # as" and "get_first_used_buffer rb = Some (a, rb')"
  shows "buf rb' = buf rb" and "a \<in> set (buf rb)"
proof -
  have "unat (irb_tail rb) < length (buf rb)" using assms(1) by (simp add: irb_inv_def)
  moreover have "\<not> irb_is_empty rb"
    using assms(1,2) ring_empty_iff [of "unat (irb_head rb)" irb_LEN "unat (irb_tail rb)" "buf rb"]
    by (auto simp: irb_is_empty_def irb_list_def irb_inv_def)
  ultimately show "buf rb' = buf rb" "a \<in> set (buf rb)"
    using assms(3) by (auto simp: get_first_used_buffer_def load_def)
qed

lemma load16_enc16: "load16 (enc16 w @ bs) 0 = Some w"
  by (simp add: load16_def read_bytes_def)

lemma queued_packet_handled:
  assumes "packets_queued mem (ns_net_buf s) (d # ds)"
  shows "\<exists>rb rest. packets_queued mem rb ds
    \<and> net_handle s mem heap sender intr_INTR con
        = map_option (\<lambda>st. (s\<lparr>ns_state := st, ns_net_buf := rb\<rparr>, mem, No_reply))
            (handle_packet (ns_state s) (ns_need_output s) (d @ rest) (of_nat (length d)))"
proof -
  have q: "buffers_ok mem (ns_net_buf s)" "list_all2 (\<lambda>a. packet_in (mem a)) (irb_list (ns_net_buf s)) (d # ds)"
    using assms by (simp_all add: packets_queued_def)
  then obtain a as where l: "irb_list (ns_net_buf s) = a # as" "packet_in (mem a) d" "list_all2 (\<lambda>a. packet_in (mem a)) as ds"
    by (auto simp: list_all2_Cons2)
  obtain rb where rb: "get_first_used_buffer (ns_net_buf s) = Some (a, rb)" "irb_inv rb" "irb_list rb = as"
    using irb.used_some [of "ns_net_buf s"] q(1) l(1) by (auto simp: buffers_ok_def)
  have b: "buf rb = buf (ns_net_buf s)" "a \<in> set (buf (ns_net_buf s))"
    using used_buffer_in_ring [OF _ l(1) rb(1)] q(1) by (simp_all add: buffers_ok_def)
  obtain rest where m: "mem a = enc16 (of_nat (length d)) @ d @ rest" using l(2) by (auto simp: packet_in_def)
  have "packets_queued mem rb ds" using q(1) rb b(1) l(3) by (simp add: packets_queued_def buffers_ok_def)
  moreover have "a \<noteq> 0" using q(1) b(2) by (auto simp: buffers_ok_def)
  ultimately show ?thesis using rb(1) m by (auto simp: net_handle_def Let_def load16_enc16 map_conv_bind_option comp_def)
qed

section \<open>Properties\<close>

text \<open>C23: when the card holds packets up to its current page and the ring has room for them, receiving
  ends with all of them stored behind those that wait already, each with its length, and the
  network server that is then told of a packet handles the oldest one and leaves the others in the ring.\<close>

theorem received_packets_reach_server:
  assumes "packets_queued mem (nk_buf s) old" and "holds c (nk_next s) ds q" and "\<forall>i. current c i = q"
    and "length old + length ds \<le> 9" and "old @ ds = d # waiting"
  shows "\<exists>s' mem'. receive_packet c s mem = Some (s', mem') \<and> nk_next s' = q \<and> packets_queued mem' (nk_buf s') (old @ ds)
    \<and> (\<forall>srv heap sender con. ns_net_buf srv = nk_buf s' \<longrightarrow>
        (\<exists>rb pad. packets_queued mem' rb waiting \<and> net_handle srv mem' heap sender intr_INTR con
           = map_option (\<lambda>st. (srv\<lparr>ns_state := st, ns_net_buf := rb\<rparr>, mem', No_reply))
               (handle_packet (ns_state srv) (ns_need_output srv) (d @ pad) (of_nat (length d)))))"
proof -
  let ?s = "nk_outs s [(CMD, 0x62), (CMD, 0x22)]"
  have "nk_buf ?s = nk_buf s" "nk_next ?s = nk_next s" by (simp_all add: nk_outs_def)
  then obtain s' mem' where r: "receive_packet c s mem = Some (s', mem')" "nk_next s' = q" "packets_queued mem' (nk_buf s') (old @ ds)"
    using receive_loop_stores [of mem ?s old c ds q 1] assms by (auto simp: receive_packet_def)
  have "\<exists>rb pad. packets_queued mem' rb waiting \<and> net_handle srv mem' heap sender intr_INTR con
           = map_option (\<lambda>st. (srv\<lparr>ns_state := st, ns_net_buf := rb\<rparr>, mem', No_reply))
               (handle_packet (ns_state srv) (ns_need_output srv) (d @ pad) (of_nat (length d)))"
    if "ns_net_buf srv = nk_buf s'" for srv heap sender con
    using queued_packet_handled [of mem' srv d waiting heap sender con] r(3) that assms(5) by simp
  then show ?thesis using r by blast
qed

text \<open>A card with one packet at the page where the driver starts, and the ring after its start.\<close>

definition one_packet :: "u8 list" where
  "one_packet = replicate 60 7"

definition one_card :: card where
  "one_card = \<lparr>remote = (\<lambda>page lo k. if lo = 4 then 7 else [1, 0x48, 64, 0] ! k), current = (\<lambda>i. 0x48), int_status = (\<lambda>i. 0x40)\<rparr>"

definition started_card :: ne2k where
  "started_card = \<lparr>nk_next = 0x47, nk_buf = \<lparr>buf = map (\<lambda>i. 0x1000 * of_nat i) [1 ..< 11], irb_head = 0, irb_tail = 0\<rparr>,
     nk_mac = [1, 2, 3, 4, 5, 6], nk_out = []\<rparr>"

theorem received_packets_reach_server_witness:
  "\<exists>s' mem'. receive_packet one_card started_card (\<lambda>a. replicate 1600 0) = Some (s', mem') \<and> nk_next s' = 0x48
     \<and> packets_queued mem' (nk_buf s') [one_packet]"
proof -
  have "packets_queued (\<lambda>a. replicate 1600 0) (nk_buf started_card) []"
    by (simp add: packets_queued_def buffers_ok_def started_card_def irb_inv_def irb_LEN_def irb_list_def ring_list_def ring_count_def upt_rec)
  moreover have "holds one_card (nk_next started_card) [one_packet] 0x48"
    by (simp add: one_card_def started_card_def one_packet_def packet_len_def map_replicate_const)
  ultimately show ?thesis
    using received_packets_reach_server [of "\<lambda>a. replicate 1600 0" started_card "[]" one_card "[one_packet]" "0x48" one_packet "[]"]
    by (auto simp: one_card_def)
qed

text \<open>A packet that is sent goes to the card byte by byte, between the registers that announce its length
  and the command that starts the transmission, if the card ever reports that the transfer is done.\<close>

lemma poll_returns: "stop (reg (i + n)) \<Longrightarrow> \<exists>k. poll reg stop i = Some k"
proof (induction n arbitrary: i)
  case 0
  then show ?case by (simp add: poll.simps)
next
  case (Suc n)
  then show ?case using Suc.IH [of "Suc i"] by (cases "stop (reg i)") (simp_all add: poll.simps [of reg stop i])
qed

lemma sent_packet_written:
  assumes "int_status c n = 0x40" and "unat sz \<le> length data"
  shows "\<exists>s'. send_packet c s sz data = Some s'
    \<and> nk_out s' = nk_out s @ send_setup sz @ map (\<lambda>b. (NE_DATA, b)) (take (unat sz) data) @ send_start sz"
  using poll_returns [of "\<lambda>v. v = 0x40" "int_status c" 0 n] assms by (auto simp: send_packet_def nk_outs_def)

end
