(* ===== verification/Disk_Driver.thy ===== *)
theory Disk_Driver
  imports File_System Stdio
begin

text \<open>
  Model of the disk driver, \<open>dr/disk.cc\<close>: the commands to the controller, transfers of sectors,
  and the partition table.

  Writes to ports are recorded as a list. What the controller does is an argument: whether it is
  found ready at a transfer and the bytes of the sector that it hands out, as a function of what was
  written to the ports and of the number of the transfer. The partitions are the records that the file
  server reads.

  The theory shows that the registers hold the number of the requested sector, that a read
  collects the sectors that the controller hands out, and that the primary partitions of the
  table are found, under the names that the file server mounts them by.
\<close>

section \<open>Commands\<close>

abbreviation (input) data_reg :: u16 where "data_reg \<equiv> 0x1f0"
abbreviation (input) sect_cnt_reg :: u16 where "sect_cnt_reg \<equiv> 0x1f2"
abbreviation (input) lba_l_reg :: u16 where "lba_l_reg \<equiv> 0x1f3"
abbreviation (input) lba_m_reg :: u16 where "lba_m_reg \<equiv> 0x1f4"
abbreviation (input) lba_h_reg :: u16 where "lba_h_reg \<equiv> 0x1f5"
abbreviation (input) dev_reg :: u16 where "dev_reg \<equiv> 0x1f6"
abbreviation (input) cmd_reg :: u16 where "cmd_reg \<equiv> 0x1f7"
abbreviation (input) hd_identify :: u8 where "hd_identify \<equiv> 0xec"
abbreviation (input) hd_read :: u8 where "hd_read \<equiv> 0x20"
abbreviation (input) hd_write :: u8 where "hd_write \<equiv> 0x30"
abbreviation (input) stat_ready :: u8 where "stat_ready \<equiv> 0x08"
abbreviation (input) dev_mbs :: u8 where "dev_mbs \<equiv> 0xa0"
abbreviation (input) dev_lba :: u8 where "dev_lba \<equiv> 0x40"
abbreviation (input) dev_dev :: u8 where "dev_dev \<equiv> 0x10"

definition choose_disk :: "bool \<Rightarrow> port_log" where
  "choose_disk slave = [(dev_reg, if slave then dev_mbs OR dev_lba OR dev_dev else dev_mbs OR dev_lba)]"

definition choose_sector :: "bool \<Rightarrow> u32 \<Rightarrow> u32 \<Rightarrow> port_log" where
  "choose_sector slave lba cnt =
     (let reg_con = dev_mbs OR dev_lba OR ucast (drop_bit 24 lba) in
      [(sect_cnt_reg, ucast cnt), (lba_l_reg, ucast lba), (lba_m_reg, ucast (drop_bit 8 lba)), (lba_h_reg, ucast (drop_bit 16 lba)),
       (dev_reg, if slave then reg_con OR dev_dev else reg_con)])"

text \<open>The loop of \<open>wait_disk\<close>: because of the precedence of the operators it makes 29 tries, and it
  tests the port \<open>0x80\<close>. \<open>busy i\<close> and \<open>status i\<close> are what the ports hold at the \<open>i\<close>-th try.\<close>

fun wait_loop :: "nat \<Rightarrow> nat \<Rightarrow> (nat \<Rightarrow> u8) \<Rightarrow> (nat \<Rightarrow> u8) \<Rightarrow> bool" where
  "wait_loop 0 i busy status = False"
| "wait_loop (Suc n) i busy status =
     (if busy i \<noteq> 0 then status i AND stat_ready \<noteq> 0 else wait_loop n (Suc i) busy status)"

definition wait_disk :: "(nat \<Rightarrow> u8) \<Rightarrow> (nat \<Rightarrow> u8) \<Rightarrow> bool" where
  "wait_disk busy status = wait_loop 29 0 busy status"

text \<open>\<open>idx\<close> is a byte, so a length of more than 255 would never be reached.\<close>

partial_function (option) swap_pairs_loop :: "u8 list \<Rightarrow> nat \<Rightarrow> u8 list \<Rightarrow> u8 \<Rightarrow> u32 \<Rightarrow> (u8 list \<times> u8) option" where
  "swap_pairs_loop src p buf idx len =
     (if ucast idx < len then do {
        a \<leftarrow> load src p;
        b1 \<leftarrow> store buf (unat idx + 1) a;
        b \<leftarrow> load src (p + 1);
        b2 \<leftarrow> store b1 (unat idx) b;
        swap_pairs_loop src (p + 2) b2 (idx + 2) len }
      else Some (buf, idx))"

declare swap_pairs_loop.simps [code]

definition swap_pairs_bytes :: "u8 list \<Rightarrow> nat \<Rightarrow> u8 list \<Rightarrow> u32 \<Rightarrow> u8 list option" where
  "swap_pairs_bytes src p buf len = do {
     (b1, idx) \<leftarrow> swap_pairs_loop src p buf 0 len;
     store b1 (unat idx) 0 }"

section \<open>Transfers\<close>

type_synonym drive = "port_log \<Rightarrow> (nat \<Rightarrow> bool) \<times> (nat \<Rightarrow> u8 list)"

definition read_command :: "bool \<Rightarrow> u32 \<Rightarrow> u32 \<Rightarrow> port_log" where
  "read_command slave lba cnt = choose_disk slave @ choose_sector slave lba cnt @ [(cmd_reg, hd_read)]"

definition write_command :: "bool \<Rightarrow> u32 \<Rightarrow> u32 \<Rightarrow> port_log" where
  "write_command slave lba cnt = choose_disk slave @ choose_sector slave lba cnt @ [(cmd_reg, hd_write)]"

fun read_loop :: "u8 list \<Rightarrow> nat \<Rightarrow> nat \<Rightarrow> nat \<Rightarrow> (nat \<Rightarrow> bool) \<Rightarrow> (nat \<Rightarrow> u8 list) \<Rightarrow> u8 list option" where
  "read_loop buf p i 0 ready sect = Some buf"
| "read_loop buf p i (Suc n) ready sect =
     (if \<not> ready i then Some buf
      else do {
        buf1 \<leftarrow> memcpy buf (p + i * 512) (sect i) 0 512;
        read_loop buf1 p (Suc i) n ready sect })"

definition read_sector :: "drive \<Rightarrow> bool \<Rightarrow> u32 \<Rightarrow> u8 list \<Rightarrow> nat \<Rightarrow> u32 \<Rightarrow> u8 list option" where
  "read_sector dev slave lba buf p cnt =
     (let out = read_command slave lba cnt in read_loop buf p 0 (unat cnt) (fst (dev out)) (snd (dev out)))"

text \<open>The sectors that a write hands to the controller.\<close>

fun write_loop :: "u8 list \<Rightarrow> nat \<Rightarrow> nat \<Rightarrow> u8 list list option" where
  "write_loop buf p 0 = Some []"
| "write_loop buf p (Suc n) =
     (if p + 512 \<le> length buf then do {
        rest \<leftarrow> write_loop buf (p + 512) n;
        Some (take 512 (drop p buf) # rest) }
      else None)"

definition write_sector :: "drive \<Rightarrow> bool \<Rightarrow> u32 \<Rightarrow> u8 list \<Rightarrow> nat \<Rightarrow> u32 \<Rightarrow> (port_log \<times> u8 list list) option" where
  "write_sector dev slave lba buf p cnt =
     (let out = write_command slave lba cnt in
      if \<not> fst (dev out) 0 then Some (out, [])
      else do {
        ws \<leftarrow> write_loop buf p (unat cnt);
        Some (out, ws) })"

text \<open>The serial number that \<open>disk_identify\<close> prints, when the disk is ready.\<close>

definition disk_identify :: "drive \<Rightarrow> bool \<Rightarrow> u8 list option option" where
  "disk_identify dev slave =
     (let out = choose_disk slave @ [(cmd_reg, hd_identify)] in
      if \<not> fst (dev out) 0 then Some None
      else do {
        info \<leftarrow> memcpy (replicate 512 0) 0 (snd (dev out) 0) 0 512;
        b \<leftarrow> memset (replicate 64 0) 0 0 64;
        sn \<leftarrow> swap_pairs_bytes info 20 b 20;
        Some (Some sn) })"

section \<open>Partition table\<close>

record table_entry =
  sys_signature :: u8
  sector_nr_before :: u32
  sector_nr_in :: u32

text \<open>The fields of an entry that are used; an entry takes 16 bytes.\<close>

definition decode_entry :: "u8 list \<Rightarrow> table_entry" where
  "decode_entry bs = \<lparr>sys_signature = bs ! 4, sector_nr_before = dec32 (drop 8 bs), sector_nr_in = dec32 (drop 12 bs)\<rparr>"

definition get_partition_table :: "drive \<Rightarrow> u32 \<Rightarrow> table_entry list option" where
  "get_partition_table dev lba = do {
     buf \<leftarrow> read_sector dev True lba (replicate 512 0) 0 1;
     tbl \<leftarrow> memcpy (replicate 64 0) 0 buf 0x1be 64;
     Some (map (\<lambda>i. decode_entry (drop (16 * i) tbl)) [0 ..< 4]) }"

text \<open>The names are "sda" and a number.\<close>

definition name_format :: "u8 list" where
  "name_format = [115, 100, 97, 37, 100, 0]"

definition set_part :: "partition \<Rightarrow> u32 \<Rightarrow> u32 \<Rightarrow> u32 \<Rightarrow> partition_type \<Rightarrow> partition option" where
  "set_part p nr lba n ty = do {
     nm \<leftarrow> sprintf (part_name p) 0 name_format [Stdio.Word nr];
     Some (p\<lparr>part_name := nm, start_lba := lba, sector_cnt := n, part_type := ty\<rparr>) }"

text \<open>The chain of extended boot records. The array of logical partitions has four places, and an
  access behind them ends the walk.\<close>

function ebr_loop :: "drive \<Rightarrow> partition list \<Rightarrow> nat \<Rightarrow> u32 \<Rightarrow> table_entry list \<Rightarrow> partition list option" where
  "ebr_loop dev lps logic_idx extend_offset ebr_tbl =
     (if sector_nr_in (ebr_tbl ! 0) = 0 then Some lps
      else if length lps \<le> logic_idx then None
      else do {
        lp \<leftarrow> set_part (lps ! logic_idx) (of_nat logic_idx + 5) (sector_nr_before (ebr_tbl ! 0) + extend_offset)
               (sector_nr_in (ebr_tbl ! 0)) LOGIC;
        let lps1 = lps[logic_idx := lp];
        let ebr_offset = sector_nr_before (ebr_tbl ! 1) + extend_offset;
        (if sector_nr_in (ebr_tbl ! 1) \<noteq> 0 then do {
           tbl \<leftarrow> get_partition_table dev ebr_offset;
           ebr_loop dev lps1 (Suc logic_idx) ebr_offset tbl }
         else Some lps1) })"
  by pat_completeness auto
termination by (relation "measure (\<lambda>(dev, lps, logic_idx, extend_offset, ebr_tbl). length lps - logic_idx)") auto

declare ebr_loop.simps [simp del]

definition process_disk_ebr :: "drive \<Rightarrow> partition list \<Rightarrow> table_entry \<Rightarrow> partition list option" where
  "process_disk_ebr dev lps e = do {
     tbl \<leftarrow> get_partition_table dev (sector_nr_before e);
     ebr_loop dev lps 0 (sector_nr_before e) tbl }"

fun traverse_loop :: "drive \<Rightarrow> table_entry list \<Rightarrow> nat \<Rightarrow> disk_table \<Rightarrow> disk_table option" where
  "traverse_loop dev [] i d = Some d"
| "traverse_loop dev (e # es) i d =
     (if sector_nr_in e = 0 then traverse_loop dev es (Suc i) d
      else do {
        p0 \<leftarrow> load (primary d) i;
        lps \<leftarrow> (if sys_signature e = 5 then process_disk_ebr dev (logic d) e else Some (logic d));
        p \<leftarrow> set_part p0 (of_nat i) (sector_nr_before e) (sector_nr_in e) (if sys_signature e = 5 then EXTEND else PRIMARY);
        traverse_loop dev es (Suc i) (d\<lparr>primary := (primary d)[i := p], logic := lps\<rparr>) })"

definition traverse_disk_partition :: "drive \<Rightarrow> disk_table \<Rightarrow> disk_table option" where
  "traverse_disk_partition dev d = do {
     tbl \<leftarrow> get_partition_table dev 0;
     traverse_loop dev tbl 0 d }"

text \<open>The driver starts with cleared objects and reads the table of the slave disk.\<close>

definition no_partition :: partition where
  "no_partition = \<lparr>part_name = replicate 16 0, sector_cnt = 0, start_lba = 0, part_type = PRIMARY\<rparr>"

definition init_disk :: "drive \<Rightarrow> disk_table option" where
  "init_disk dev = traverse_disk_partition dev \<lparr>primary = replicate 4 no_partition, logic = replicate 4 no_partition\<rparr>"

text \<open>What \<open>print_disk_partition_info\<close> prints of the partitions: name, start and size in megabytes.\<close>

definition partition_info :: "partition list \<Rightarrow> (u8 list \<times> u32 \<times> u32) list" where
  "partition_info ps = map (\<lambda>p. (part_name p, start_lba p, sector_cnt p * 512 div (1024 * 1024))) (filter (\<lambda>p. sector_cnt p \<noteq> 0) ps)"

definition print_disk_partition_info :: "disk_table \<Rightarrow> (u8 list \<times> u32 \<times> u32) list \<times> (u8 list \<times> u32 \<times> u32) list" where
  "print_disk_partition_info d = (partition_info (take 4 (primary d)), partition_info (take 4 (logic d)))"

text \<open>The partition table as an installer writes it: the boot code, the four entries and the signature.\<close>

definition encode_entry :: "table_entry \<Rightarrow> u8 list" where
  "encode_entry e = replicate 4 0 @ [sys_signature e] @ replicate 3 0 @ enc32 (sector_nr_before e) @ enc32 (sector_nr_in e)"

definition boot_sector :: "u8 list \<Rightarrow> table_entry list \<Rightarrow> u8 list" where
  "boot_sector boot es = boot @ concat (map encode_entry es) @ [0x55, 0xaa]"

text \<open>The name of the \<open>i\<close>-th primary partition, and the partition that an entry describes.\<close>

definition primary_name :: "nat \<Rightarrow> u8 list" where
  "primary_name i = [115, 100, 97, 48 + of_nat i] @ replicate 12 0"

definition described :: "nat \<Rightarrow> table_entry \<Rightarrow> partition" where
  "described i e =
     (if sector_nr_in e = 0 then no_partition
      else \<lparr>part_name = primary_name i, sector_cnt = sector_nr_in e, start_lba = sector_nr_before e, part_type = PRIMARY\<rparr>)"

section \<open>Registers and transfers\<close>

lemma bit_above:
  assumes "unat w < 2 ^ k" and "k \<le> n"
  shows "\<not> bit (w :: u32) n"
proof -
  have "take_bit k w = w" using assms(1) by (simp add: word_eq_iff_unat unsigned_take_bit_eq take_bit_nat_eq_self)
  then show ?thesis using assms(2) by (metis bit_take_bit_iff not_le)
qed

lemma dev_bits:
  "(0xa0 :: u8) = push_bit 5 1 OR push_bit 7 1" "(0x40 :: u8) = push_bit 6 1" "(0x10 :: u8) = push_bit 4 1"
  by code_simp+

lemma bit_dev:
  "bit (0xa0 :: u8) n = (n = 5 \<or> n = 7)" "bit (0x40 :: u8) n = (n = 6)" "bit (0x10 :: u8) n = (n = 4)"
  unfolding dev_bits by (auto simp only: bit_or_iff bit_push_bit_iff bit_1_iff) (auto simp: bit_1_iff)

text \<open>For a sector number below 2 to the 28, the controller finds in its registers, read back
  from the port writes of \<open>choose_sector\<close>, exactly that number, the chosen drive and the LBA mode.\<close>

lemma registers_hold_sector:
  assumes "lba < 2 ^ 28"
  shows "\<exists>l m h d. choose_sector slave lba cnt = [(0x1f2, ucast cnt), (0x1f3, l), (0x1f4, m), (0x1f5, h), (0x1f6, d)]
    \<and> (ucast l :: u32) OR push_bit 8 (ucast m) OR push_bit 16 (ucast h) OR push_bit 24 (ucast (take_bit 4 d)) = lba
    \<and> bit d 4 = slave \<and> bit d 6"
proof -
  define d where "d = (if slave then (0xa0 OR 0x40 OR ucast (drop_bit 24 lba)) OR 0x10 else 0xa0 OR 0x40 OR (ucast (drop_bit 24 lba) :: u8))"
  have h: "\<not> bit lba n" if "28 \<le> n" for n using that assms by (intro bit_above [of lba 28]) (simp_all add: word_less_nat_alt)
  have d: "bit d n = (n < 8 \<and> (bit lba (n + 24) \<or> n = 5 \<or> n = 6 \<or> n = 7 \<or> n = 4 \<and> slave))" for n
    by (cases slave) (auto simp: d_def bit_dev bit_or_iff bit_ucast_iff bit_drop_bit_eq ac_simps simp del: bit_numeral_word_iff)
  have "(ucast (ucast lba :: u8) :: u32) OR push_bit 8 (ucast (ucast (drop_bit 8 lba) :: u8))
    OR push_bit 16 (ucast (ucast (drop_bit 16 lba) :: u8)) OR push_bit 24 (ucast (take_bit 4 d)) = lba"
    by (rule bit_word_eqI) (use h in \<open>auto simp: bit_simps d not_le\<close>)
  moreover have "bit d 4 = slave" "bit d 6" using h [of 28] by (simp_all add: d)
  ultimately show ?thesis by (auto simp: choose_sector_def d_def)
qed

lemma write_loop_sectors:
  "p + 512 * n \<le> length str \<Longrightarrow> write_loop str p n = Some (map (\<lambda>i. take 512 (drop (p + 512 * i) str)) [0 ..< n])"
proof (induction n arbitrary: p)
  case (Suc n)
  have "map (\<lambda>i. take 512 (drop (p + 512 * i) str)) [0 ..< Suc n]
      = take 512 (drop p str) # map (\<lambda>i. take 512 (drop (p + 512 + 512 * i) str)) [0 ..< n]"
    by (simp add: upt_conv_Cons map_Suc_upt [symmetric] add.assoc del: upt_Suc map_Suc_upt)
  then show ?case using Suc.IH [of "p + 512"] Suc.prems by simp
qed simp

lemma length_concat_sectors: "(\<And>k. k \<in> set ks \<Longrightarrow> length (sect k) = 512) \<Longrightarrow> length (concat (map sect ks)) = 512 * length ks"
  by (induction ks) auto

lemma read_loop_sectors:
  assumes "\<forall>i. ready i" and "\<forall>k. i \<le> k \<and> k < i + n \<longrightarrow> length (sect k) = 512" and "p + 512 * (i + n) \<le> length buf"
  shows "read_loop buf p i n ready sect = Some (put buf (p + 512 * i) (concat (map sect [i ..< i + n])))"
  using assms(2,3)
proof (induction n arbitrary: buf i)
  case 0
  then show ?case by (simp add: put_def)
next
  case (Suc n)
  have len: "length (concat (map sect [Suc i ..< Suc i + n])) = 512 * n"
    using length_concat_sectors [of "[Suc i ..< Suc i + n]" sect] Suc.prems(1) by (auto simp del: upt_Suc)
  have "memcpy buf (p + i * 512) (sect i) 0 512 = Some (put buf (p + 512 * i) (sect i))"
    using memcpy_put [of "p + i * 512" 512 buf 0 "sect i"] Suc.prems by (simp add: mult.commute)
  moreover have "read_loop (put buf (p + 512 * i) (sect i)) p (Suc i) n ready sect
      = Some (put (put buf (p + 512 * i) (sect i)) (p + 512 * Suc i) (concat (map sect [Suc i ..< Suc i + n])))"
    using Suc.prems by (intro Suc.IH) (auto simp: put_def)
  moreover have "put (put buf (p + 512 * i) (sect i)) (p + 512 * Suc i) (concat (map sect [Suc i ..< Suc i + n]))
      = put buf (p + 512 * i) (concat (map sect [i ..< i + Suc n]))"
    using Suc.prems len by (simp add: put_def upt_conv_Cons add.commute add.left_commute del: upt_Suc)
  moreover have "ready i" using assms(1) by simp
  ultimately show ?case by simp
qed

section \<open>The partitions that are found\<close>

lemma length_encode_entry [simp]: "length (encode_entry e) = 16"
  by (simp add: encode_entry_def)

lemma decode_encode_entry: "decode_entry (encode_entry e @ bs) = e"
  by (simp add: decode_entry_def encode_entry_def nth_append)

lemma four_entries: "length es = 4 \<Longrightarrow> \<exists>a b c d. es = [a, b, c, d]"
  by (auto simp: length_Suc_conv eval_nat_numeral)

lemma read_one_sector:
  assumes "dev (read_command slave lba 1) = (ready, sect)" and "ready 0" and "length (sect 0) = 512"
  shows "read_sector dev slave lba (replicate 512 0) 0 1 = Some (sect 0)"
  using assms by (simp add: read_sector_def memcpy_put put_def)

lemma decode_table:
  "map (\<lambda>i. decode_entry (drop (16 * i) (concat (map encode_entry [a, b, c, d])))) [0 ..< 4] = [a, b, c, d]"
  using decode_encode_entry [of d "[]"] by (simp add: upt_rec decode_encode_entry)

lemma get_partition_table_boot_sector:
  assumes "dev (read_command True lba 1) = (ready, sect)" and "ready 0" and "sect 0 = boot_sector boot es"
    and "length boot = 0x1be" and "length es = 4"
  shows "get_partition_table dev lba = Some es"
proof -
  obtain a b c d where es: "es = [a, b, c, d]" using four_entries [OF assms(5)] by auto
  have t: "length (concat (map encode_entry es)) = 64" by (simp add: es)
  then have "read_sector dev True lba (replicate 512 0) 0 1 = Some (boot_sector boot es)"
    using read_one_sector [of dev True lba ready sect, OF assms(1,2)] assms(3,4) by (simp add: boot_sector_def)
  moreover have "memcpy (replicate 64 0) 0 (boot_sector boot es) 0x1be 64 = Some (concat (map encode_entry es))"
    using memcpy_put [of 0 64 "replicate 64 0" "0x1be" "boot_sector boot es"] assms(4) t by (simp add: boot_sector_def put_def)
  ultimately show ?thesis using decode_table [of a b c d] by (simp add: get_partition_table_def es del: concat.simps list.map)
qed

lemma small_not_negative: "\<not> (1 :: u32) <s 0" "\<not> (2 :: u32) <s 0" "\<not> (3 :: u32) <s 0"
  by code_simp+

lemma clear_name: "replicate 16 0 = [0, 0, 0, 0 :: u8] @ replicate 12 0"
  by code_simp

lemma sprintf_name:
  assumes "i < 4"
  shows "sprintf (replicate 16 0) 0 name_format [Stdio.Word (of_nat i)] = Some (primary_name i)"
proof -
  have "i = 0 \<or> i = 1 \<or> i = 2 \<or> i = 3" using assms by auto
  then show ?thesis
    by (elim disjE) (simp_all add: sprintf_def vsprintf_def name_format_def vsprintf_loop.simps put_decimal_def itoa.simps itoa_digit_def mem_simps
      primary_name_def strlen.simps small_not_negative clear_name)
qed

lemma name_compare_all:
  "\<forall>i \<in> set [0 ..< 4]. strcmp (primary_name i) 0 (replicate 16 0) 0 = Some False
     \<and> (\<forall>j \<in> set [0 ..< 4]. strcmp (primary_name i) 0 (primary_name j) 0 = Some (i = j))"
  by code_simp

lemma name_compare:
  "i < 4 \<Longrightarrow> strcmp (primary_name i) 0 (part_name no_partition) 0 = Some False"
  "i < 4 \<Longrightarrow> j < 4 \<Longrightarrow> strcmp (primary_name i) 0 (primary_name j) 0 = Some (i = j)"
  using name_compare_all by (auto simp: no_partition_def)

lemma compare_described:
  "i < 4 \<Longrightarrow> j < 4 \<Longrightarrow> strcmp (primary_name i) 0 (part_name (described j e)) 0 = Some (sector_nr_in e \<noteq> 0 \<and> i = j)"
  by (simp add: described_def name_compare)

lemma set_part_described:
  "i < 4 \<Longrightarrow> sector_nr_in e \<noteq> 0 \<Longrightarrow>
   set_part no_partition (of_nat i) (sector_nr_before e) (sector_nr_in e) PRIMARY = Some (described i e)"
  by (simp add: set_part_def no_partition_def described_def sprintf_name)

lemma traverse_loop_primary:
  assumes "\<forall>e \<in> set es. sys_signature e \<noteq> 5" and "i + length es = 4" and "length (primary d) = 4"
    and "\<forall>j. i \<le> j \<and> j < 4 \<longrightarrow> primary d ! j = no_partition"
  shows "traverse_loop dev es i d = Some (d\<lparr>primary := take i (primary d) @ map (\<lambda>(j, e). described j e) (enumerate i es)\<rparr>)"
  using assms
proof (induction es arbitrary: i d)
  case (Cons e es)
  have i: "i < 4" and p: "primary d ! i = no_partition" using Cons.prems by auto
  let ?d = "d\<lparr>primary := (primary d)[i := described i e]\<rparr>"
  have rest: "traverse_loop dev es (Suc i) ?d
      = Some (?d\<lparr>primary := take (Suc i) (primary ?d) @ map (\<lambda>(j, e). described j e) (enumerate (Suc i) es)\<rparr>)"
    using Cons.prems i by (intro Cons.IH) auto
  have tk: "take (Suc i) ((primary d)[i := described i e]) = take i (primary d) @ [described i e]"
    using i Cons.prems(3) by (simp add: take_Suc_conv_app_nth)
  show ?case
  proof (cases "sector_nr_in e = 0")
    case True
    then have "(primary d)[i := described i e] = primary d" using p i Cons.prems(3) by (simp add: described_def list_update_same_conv)
    then show ?thesis using True rest tk by simp
  next
    case False
    then show ?thesis using rest tk i p Cons.prems by (simp add: load_def set_part_described)
  qed
qed simp

text \<open>C27: at its start the driver finds the partitions of the slave disk: from a boot sector with four
  entries, none of them extended, it makes the table of the primary partitions with the sectors
  of the entries, and the file server that searches the table for "sda" and the number of a used entry
  gets that partition.\<close>

theorem init_disk_finds_partitions:
  assumes "dev (read_command True 0 1) = (ready, sect)" and "ready 0" and "sect 0 = boot_sector boot es"
    and "length boot = 0x1be" and "length es = 4" and "\<forall>e \<in> set es. sys_signature e \<noteq> 5"
  shows "\<exists>d. init_disk dev = Some d
    \<and> (\<forall>i < 4. primary d ! i = described i (es ! i))
    \<and> (\<forall>i < 4. sector_nr_in (es ! i) \<noteq> 0 \<longrightarrow>
          find_part (take 4 (primary d) @ take 4 (logic d)) (primary_name i) None = Some (Some (primary d ! i)))"
proof -
  let ?d = "\<lparr>primary = replicate 4 no_partition, logic = replicate 4 no_partition\<rparr>"
  obtain a b c e where es: "es = [a, b, c, e]" using four_entries [OF assms(5)] by auto
  let ?ps = "[described 0 a, described 1 b, described 2 c, described 3 e]"
  have d: "init_disk dev = Some (?d\<lparr>primary := ?ps\<rparr>)"
    using get_partition_table_boot_sector [of dev 0 ready sect boot es, OF assms(1-5)] traverse_loop_primary [of es 0 ?d dev] assms(6)
    by (simp add: init_disk_def traverse_disk_partition_def es numeral_2_eq_2 numeral_3_eq_3)
  have cases4: "i = 0 \<or> i = 1 \<or> i = 2 \<or> i = 3" if "i < 4" for i :: nat using that by auto
  have "?ps ! i = described i (es ! i)" if "i < 4" for i using cases4 [OF that] by (auto simp: es)
  moreover have "find_part (?ps @ replicate 4 no_partition) (primary_name i) None = Some (Some (?ps ! i))"
    if "i < 4" "sector_nr_in (es ! i) \<noteq> 0" for i
    using cases4 [OF that(1)] that(2)
    by (elim disjE) (simp_all add: es compare_described name_compare eval_nat_numeral)
  ultimately show ?thesis using d by simp
qed

definition one_entry :: "table_entry list" where
  "one_entry = \<lparr>sys_signature = 0x83, sector_nr_before = 63, sector_nr_in = 2000\<rparr>
     # replicate 3 \<lparr>sys_signature = 0, sector_nr_before = 0, sector_nr_in = 0\<rparr>"

definition one_disk :: drive where
  "one_disk out = (\<lambda>i. True, \<lambda>i. boot_sector (replicate 446 0) one_entry)"

theorem init_disk_finds_partitions_witness:
  "\<exists>d. init_disk one_disk = Some d \<and> start_lba (primary d ! 0) = 63 \<and> sector_cnt (primary d ! 0) = 2000
     \<and> find_part (take 4 (primary d) @ take 4 (logic d)) (primary_name 0) None = Some (Some (primary d ! 0))"
proof -
  obtain d where "init_disk one_disk = Some d" "\<forall>i < 4. primary d ! i = described i (one_entry ! i)"
    "\<forall>i < 4. sector_nr_in (one_entry ! i) \<noteq> 0 \<longrightarrow>
       find_part (take 4 (primary d) @ take 4 (logic d)) (primary_name i) None = Some (Some (primary d ! i))"
    using init_disk_finds_partitions [of one_disk "\<lambda>i. True" "\<lambda>i. boot_sector (replicate 446 0) one_entry" "replicate 446 0" one_entry] by (auto simp: one_disk_def one_entry_def)
  then show ?thesis by (auto simp: one_entry_def described_def)
qed

end
