(* ===== verification/Keyboard.thy ===== *)
theory Keyboard
  imports Ring_Buffer
begin

text \<open>
  Model of the keyboard driver, \<open>dr/keyboard.cc\<close>: the interrupt handler that turns scan codes
  into characters in the ring of typed characters.

  The scan code that the handler reads from the port is its argument; the message for an
  unknown key is left out. The theory shows that a sequence of key strokes, with and without the
  shift key, puts exactly the typed characters into the ring.
\<close>

section \<open>Model\<close>

record keyboard =
  ctrl_status :: bool
  shift_status :: bool
  alt_status :: bool
  caps_lock_status :: bool
  ext_scancode :: bool
  keyboard_buf :: ring_buffer

definition keymap :: "(u8 \<times> u8) list" where
  "keymap = [
     (0, 0), (27, 27), (49, 33), (50, 64), (51, 35), (52, 36), (53, 37), (54, 94),
     (55, 38), (56, 42), (57, 40), (48, 41), (45, 95), (61, 43), (8, 8), (9, 9),
     (113, 81), (119, 87), (101, 69), (114, 82), (116, 84), (121, 89), (117, 85), (105, 73),
     (111, 79), (112, 80), (91, 123), (93, 125), (13, 13), (0, 0), (97, 65), (115, 83),
     (100, 68), (102, 70), (103, 71), (104, 72), (106, 74), (107, 75), (108, 76), (59, 58),
     (39, 34), (96, 126), (0, 0), (92, 124), (122, 90), (120, 88), (99, 67), (118, 86),
     (98, 66), (110, 78), (109, 77), (44, 60), (46, 62), (47, 63), (0, 0), (42, 42),
     (0, 0), (32, 32), (0, 0)]"

text \<open>The keys for which only the shift key counts; for the others the caps lock counts too.\<close>

definition shift_only :: "u16 \<Rightarrow> bool" where
  "shift_only scancode \<longleftrightarrow> scancode < 0x0e \<or> scancode = 0x29 \<or> scancode = 0x1a \<or> scancode = 0x1b \<or> scancode = 0x2b
     \<or> scancode = 0x27 \<or> scancode = 0x28 \<or> scancode = 0x33 \<or> scancode = 0x34 \<or> scancode = 0x35"

definition shifted :: "keyboard \<Rightarrow> u16 \<Rightarrow> bool" where
  "shifted s scancode =
     (if shift_only scancode then shift_status s
      else if shift_status s \<and> caps_lock_status s then False
      else shift_status s \<or> caps_lock_status s)"

definition handle_break :: "keyboard \<Rightarrow> u16 \<Rightarrow> keyboard" where
  "handle_break s make_code =
     (if make_code = 0x1d \<or> make_code = 0xe01d then s\<lparr>ctrl_status := False\<rparr>
      else if make_code = 0x38 \<or> make_code = 0xe038 then s\<lparr>alt_status := False\<rparr>
      else if make_code = 0x2a \<or> make_code = 0x36 then s\<lparr>shift_status := False\<rparr>
      else s)"

text \<open>After the character was looked up, only the low byte of the scan code is left.\<close>

definition handle_make :: "keyboard \<Rightarrow> u16 \<Rightarrow> keyboard option" where
  "handle_make s scancode = do {
     let low = scancode AND 0x00ff;
     row \<leftarrow> load keymap (unat low);
     let cur_char = (if shifted s scancode then snd row else fst row);
     (if cur_char \<noteq> 0 then do {
        rb \<leftarrow> ringbuffer_put (keyboard_buf s) cur_char;
        Some (s\<lparr>keyboard_buf := rb\<rparr>) }
      else if low = 0xe01d \<or> low = 0x1d then Some (s\<lparr>ctrl_status := True\<rparr>)
      else if low = 0x36 \<or> low = 0x2a then Some (s\<lparr>shift_status := True\<rparr>)
      else if low = 0xe038 \<or> low = 0x38 then Some (s\<lparr>alt_status := True\<rparr>)
      else if low = 0x3a then Some (s\<lparr>caps_lock_status := \<not> caps_lock_status s\<rparr>)
      else Some s) }"

definition keyboard_handler :: "keyboard \<Rightarrow> u8 \<Rightarrow> keyboard option" where
  "keyboard_handler s code0 =
     (if code0 = 0xe0 then Some (s\<lparr>ext_scancode := True\<rparr>)
      else
        (let scancode = (if ext_scancode s then ucast code0 OR 0xe000 else ucast code0) :: u16;
             s1 = s\<lparr>ext_scancode := False\<rparr>
         in if scancode AND 0x0080 \<noteq> 0 then Some (handle_break s1 (scancode AND 0xff7f))
            else if 0 < scancode \<and> scancode < 0x3b \<or> scancode = 0xe038 \<or> scancode = 0xe01d then handle_make s1 scancode
            else Some s1))"

definition init_keyboard :: "keyboard \<Rightarrow> keyboard option" where
  "init_keyboard s = do {
     rb \<leftarrow> init_ringbuffer (keyboard_buf s);
     Some (s\<lparr>keyboard_buf := rb\<rparr>) }"

fun keyboard_run :: "keyboard \<Rightarrow> u8 list \<Rightarrow> keyboard option" where
  "keyboard_run s [] = Some s"
| "keyboard_run s (c # cs) = do {
     s1 \<leftarrow> keyboard_handler s c;
     keyboard_run s1 cs }"

section \<open>Key strokes\<close>

definition typable :: "u8 \<Rightarrow> bool" where
  "typable c \<longleftrightarrow> c < 0x3b \<and> fst (keymap ! unat c) \<noteq> 0 \<and> snd (keymap ! unat c) \<noteq> 0"

text \<open>The scan codes of a stroke, with the shift key held or not, and its character.\<close>

fun stroke :: "u8 \<times> bool \<Rightarrow> u8 list" where
  "stroke (c, sh) = (if sh then [0x2a, c, c OR 0x80, 0xaa] else [c, c OR 0x80])"

fun key_char :: "u8 \<times> bool \<Rightarrow> u8" where
  "key_char (c, sh) = (if sh then snd (keymap ! unat c) else fst (keymap ! unat c))"

definition code_facts :: "u8 \<Rightarrow> bool" where
  "code_facts c \<longleftrightarrow> (ucast c :: u16) AND 0x80 = 0 \<and> (ucast c :: u16) AND 0xff = ucast c \<and> (ucast (c OR 0x80) :: u16) AND 0x80 \<noteq> 0
     \<and> (ucast (c OR 0x80) :: u16) AND 0xff7f = ucast c \<and> unat (ucast c :: u16) = unat c \<and> (ucast c :: u16) < 0x3b
     \<and> c \<noteq> 0xe0 \<and> c OR 0x80 \<noteq> 0xe0
     \<and> (typable c \<longrightarrow> 0 < (ucast c :: u16) \<and> (ucast c :: u16) \<noteq> 0x1d \<and> (ucast c :: u16) \<noteq> 0x38
          \<and> (ucast c :: u16) \<noteq> 0x2a \<and> (ucast c :: u16) \<noteq> 0x36)"

lemma code_facts_all: "\<forall>c \<in> set (map of_nat [0 ..< 0x3b]). code_facts c"
  by code_simp

lemma code_factsI: "c < 0x3b \<Longrightarrow> code_facts c"
proof -
  assume "c < 0x3b"
  then have "unat c < 0x3b" by (simp add: word_less_nat_alt)
  then have "c \<in> set (map of_nat [0 ..< 0x3b])" by (auto intro!: image_eqI [of _ _ "unat c"])
  then show ?thesis using code_facts_all by blast
qed

definition no_modifiers :: "keyboard \<Rightarrow> bool" where
  "no_modifiers s \<longleftrightarrow> \<not> ctrl_status s \<and> \<not> shift_status s \<and> \<not> alt_status s \<and> \<not> caps_lock_status s \<and> \<not> ext_scancode s"

lemma shifted_no_caps: "\<not> caps_lock_status s \<Longrightarrow> shifted s scancode = shift_status s"
  by (simp add: shifted_def)

lemma length_keymap: "length keymap = 0x3b"
  by (simp add: keymap_def)

lemma make_types:
  assumes "typable c" and "\<not> ext_scancode s" and "\<not> caps_lock_status s" and "ringbuffer_put (keyboard_buf s) (key_char (c, shift_status s)) = Some rb"
  shows "keyboard_handler s c = Some (s\<lparr>keyboard_buf := rb\<rparr>)"
proof -
  have c: "c < 0x3b" using assms(1) by (simp add: typable_def)
  then have u: "unat c < 0x3b" by (simp add: word_less_nat_alt)
  note f = code_factsI [OF c, unfolded code_facts_def]
  have e: "s\<lparr>ext_scancode := False\<rparr> = s" using assms(2) by simp
  have "load keymap (unat c) = Some (keymap ! unat c)" using u by (simp add: mem_simps length_keymap)
  moreover have "key_char (c, shift_status s) \<noteq> 0" using assms(1) by (simp add: typable_def)
  ultimately have "handle_make s (ucast c) = Some (s\<lparr>keyboard_buf := rb\<rparr>)"
    using f assms(3,4) by (simp add: handle_make_def shifted_no_caps Let_def split: if_splits)
  then show ?thesis using f assms(1,2) by (simp add: keyboard_handler_def Let_def e)
qed

lemma break_ignored: "typable c \<Longrightarrow> \<not> ext_scancode s \<Longrightarrow> keyboard_handler s (c OR 0x80) = Some s"
proof -
  assume t: "typable c" and x: "\<not> ext_scancode s"
  have "c < 0x3b" using t by (simp add: typable_def)
  note f = code_factsI [OF this, unfolded code_facts_def]
  have e: "s\<lparr>ext_scancode := False\<rparr> = s" using x by simp
  have "handle_break s (ucast c) = s" using f t by (auto simp: handle_break_def dest!: spec)
  then show ?thesis using f x by (simp add: keyboard_handler_def Let_def e)
qed

lemma shift_keys:
  "\<not> ext_scancode s \<Longrightarrow> keyboard_handler s 0x2a = Some (s\<lparr>shift_status := True\<rparr>)"
  "\<not> ext_scancode s \<Longrightarrow> keyboard_handler s 0xaa = Some (s\<lparr>shift_status := False\<rparr>)"
proof -
  assume x: "\<not> ext_scancode s"
  then have e: "s\<lparr>ext_scancode := False\<rparr> = s" by simp
  have "load keymap 42 = Some (0, 0)" by (simp add: load_def keymap_def)
  then show "keyboard_handler s 0x2a = Some (s\<lparr>shift_status := True\<rparr>)"
    using x by (simp add: keyboard_handler_def handle_make_def Let_def e)
  show "keyboard_handler s 0xaa = Some (s\<lparr>shift_status := False\<rparr>)"
    using x by (simp add: keyboard_handler_def handle_break_def Let_def e)
qed

lemma keyboard_run_append: "keyboard_run s (xs @ ys) = Option.bind (keyboard_run s xs) (\<lambda>t. keyboard_run t ys)"
  by (induction xs arbitrary: s) (simp_all add: bind_assoc)

lemma stroke_types:
  assumes "no_modifiers s" and "typable c" and "rb_inv (keyboard_buf s)" and "length (rb_list (keyboard_buf s)) < 63"
  shows "\<exists>s'. keyboard_run s (stroke (c, sh)) = Some s' \<and> no_modifiers s' \<and> rb_inv (keyboard_buf s')
    \<and> rb_list (keyboard_buf s') = rb_list (keyboard_buf s) @ [key_char (c, sh)]"
proof -
  have m: "\<not> ctrl_status s" "\<not> shift_status s" "\<not> alt_status s" "\<not> caps_lock_status s" "\<not> ext_scancode s"
    using assms(1) by (simp_all add: no_modifiers_def)
  have "\<not> ringbuffer_is_full (keyboard_buf s)" using rb.full_iff [OF assms(3)] assms(4) by simp
  then obtain rb' where rb': "ringbuffer_put (keyboard_buf s) (key_char (c, sh)) = Some rb'" "rb_inv rb'"
    "rb_list rb' = rb_list (keyboard_buf s) @ [key_char (c, sh)]"
    using rb.insert_room [OF assms(3), of "key_char (c, sh)"] rb.full_iff [OF assms(3)] by auto
  let ?s = "s\<lparr>shift_status := sh\<rparr>"
  have k: "keyboard_handler ?s c = Some (?s\<lparr>keyboard_buf := rb'\<rparr>)" using assms(2) m rb'(1) by (intro make_types) simp_all
  have b: "keyboard_handler (?s\<lparr>keyboard_buf := rb'\<rparr>) (c OR 0x80) = Some (?s\<lparr>keyboard_buf := rb'\<rparr>)"
    using assms(2) m by (intro break_ignored) simp_all
  have "keyboard_run s (stroke (c, sh)) = Some (s\<lparr>keyboard_buf := rb'\<rparr>)"
  proof (cases sh)
    case True
    have "s\<lparr>shift_status := False\<rparr> = s" using m by simp
    then show ?thesis using True k b shift_keys(1) [of s] shift_keys(2) [of "?s\<lparr>keyboard_buf := rb'\<rparr>"] m by simp
  next
    case False
    then have e: "?s = s" using m by simp
    then show ?thesis using False k b by simp
  qed
  then show ?thesis using rb' m by (simp add: no_modifiers_def)
qed

section \<open>Properties\<close>

text \<open>C40: the driver types what is typed: a sequence of strokes of keys that carry a character, each
  with or without the shift key held, puts exactly the characters of the strokes, in order, into
  the ring, as long as they fit into it, and leaves no key marked as held.\<close>

theorem keyboard_types_text:
  assumes "no_modifiers s" and "rb_inv (keyboard_buf s)" and "\<forall>k \<in> set ks. typable (fst k)"
    and "length (rb_list (keyboard_buf s)) + length ks \<le> 63"
  shows "\<exists>s'. keyboard_run s (concat (map stroke ks)) = Some s' \<and> no_modifiers s'
    \<and> rb_list (keyboard_buf s') = rb_list (keyboard_buf s) @ map key_char ks"
  using assms
proof (induction ks arbitrary: s)
  case (Cons k ks)
  obtain c sh where k: "k = (c, sh)" by (cases k)
  obtain s1 where s1: "keyboard_run s (stroke (c, sh)) = Some s1" "no_modifiers s1" "rb_inv (keyboard_buf s1)"
    "rb_list (keyboard_buf s1) = rb_list (keyboard_buf s) @ [key_char (c, sh)]"
    using stroke_types [of s c sh] Cons.prems k by auto
  obtain s' where "keyboard_run s1 (concat (map stroke ks)) = Some s'" "no_modifiers s'"
    "rb_list (keyboard_buf s') = rb_list (keyboard_buf s1) @ map key_char ks"
    using Cons.IH [OF s1(2,3)] Cons.prems s1(4) by auto
  then show ?case using s1 k by (auto simp: keyboard_run_append simp del: stroke.simps key_char.simps)
qed simp

definition idle_keyboard :: keyboard where
  "idle_keyboard = \<lparr>ctrl_status = False, shift_status = False, alt_status = False, caps_lock_status = False, ext_scancode = False,
     keyboard_buf = \<lparr>buffer = replicate 64 0, rb_head = 0, rb_tail = 0\<rparr>\<rparr>"

theorem keyboard_types_text_witness:
  "\<exists>s'. keyboard_run idle_keyboard [0x2a, 0x23, 0xa3, 0xaa, 0x17, 0x97] = Some s' \<and> rb_list (keyboard_buf s') = [72, 105]"
proof -
  have "no_modifiers idle_keyboard" "rb_inv (keyboard_buf idle_keyboard)" "rb_list (keyboard_buf idle_keyboard) = []"
    by (simp_all add: idle_keyboard_def no_modifiers_def rb_inv_def rb_list_def ring_list_def ring_count_def)
  moreover have "typable 0x23" "typable 0x17" "key_char (0x23, True) = 72" "key_char (0x17, False) = 105"
    by (simp_all add: typable_def keymap_def)
  ultimately show ?thesis using keyboard_types_text [of idle_keyboard "[(0x23, True), (0x17, False)]"] by simp blast
qed

end
