(* ===== verification/Users.thy ===== *)
theory Users
  imports Servers Stdio
begin

text \<open>
  Model of the accounts: the hash of passwords (\<open>terminal/hahash.cc\<close>), the functions on
  \<open>/etc/passwd\<close> (\<open>terminal/user.cc\<close>) and the call that reads a line (\<open>readline\<close> of
  \<open>lib/all_syscall.cc\<close>).

  The calls to the file server are its operations on the state of the file system, in the order of
  the code; that the calls reach these operations is shown in \<open>Servers\<close>. A pointer into the local
  buffer is a position in it, \<open>None\<close> is the null pointer. The loops that read a file go on as long
  as the server does not report its end, they are partial functions. What is printed is left out.

  The theory shows that the hash of a password consists of letters and digits, that a line is read
  up to its end, and that \<open>user_check\<close> finds in the file the account with the name and the hash of
  the password, or reports that there is none.
\<close>

section \<open>Passwords\<close>

definition hash_table :: "u8 list" where
  "hash_table =
     [49, 50, 51, 52, 53, 54, 55, 56, 57, 48,
      97, 98, 99, 100, 101, 102, 103, 104, 105, 106, 107, 108, 109, 110, 111, 112, 113, 114, 115, 116, 117, 118, 119, 120, 121, 122,
      65, 66, 67, 68, 69, 70, 71, 72, 73, 74, 75, 76, 77, 78, 79, 80, 81, 82, 83, 84, 85, 86, 87, 88, 89, 90]"

text \<open>The first loop, at the positions \<open>i, \<dots>, i + n - 1\<close>; at position 0 it would read before the
  array.\<close>

fun hash_fill :: "u8 list \<Rightarrow> nat \<Rightarrow> nat \<Rightarrow> nat \<Rightarrow> u8 list option" where
  "hash_fill r i start 0 = Some r"
| "hash_fill r i start (Suc n) =
     (if i = 0 then None
      else do {
        a \<leftarrow> load r (i - 1);
        b \<leftarrow> load r start;
        r1 \<leftarrow> store r i (a XOR b);
        hash_fill r1 (Suc i) (Suc start) n })"

text \<open>The second loop. A character is signed; it is converted to \<open>unsigned int\<close> for the remainder.\<close>

fun hash_mix :: "u8 list \<Rightarrow> nat \<Rightarrow> nat \<Rightarrow> u8 list option" where
  "hash_mix r i 0 = Some r"
| "hash_mix r i (Suc n) = do {
     a \<leftarrow> load r i;
     b \<leftarrow> (if 31 < i then None else load r (31 - i));
     h \<leftarrow> load hash_table (unat ((scast (a XOR b) :: u32) mod 62));
     r1 \<leftarrow> store r i h;
     hash_mix r1 (Suc i) n }"

definition hahash :: "u8 list \<Rightarrow> nat \<Rightarrow> u8 list \<Rightarrow> u8 list option" where
  "hahash str p result = do {
     l \<leftarrow> strlen str p;
     (if 32 < l then do {
        r \<leftarrow> memcpy result 0 str p 31;
        store r 31 0 }
      else do {
        r1 \<leftarrow> strcpy result 0 str p;
        r2 \<leftarrow> hash_fill r1 l 0 (32 - l);
        r3 \<leftarrow> hash_mix r2 0 32;
        store r3 31 0 }) }"

section \<open>Lines of a file\<close>

partial_function (option) readline :: "fs_state \<Rightarrow> u32 \<Rightarrow> u8 list \<Rightarrow> nat \<Rightarrow> (fs_state \<times> u8 list) option" where
  "readline s fd buf p = do {
     e \<leftarrow> is_eof s fd;
     (if e then Some (s, buf)
      else do {
        (_, s1, buf1) \<leftarrow> read_file s fd buf p 1;
        c \<leftarrow> load buf1 p;
        (if c = 10 then do {
           buf2 \<leftarrow> store buf1 (Suc p) 0;
           Some (s1, buf2) }
         else readline s1 fd buf1 (Suc p)) }) }"

declare readline.simps [code]

section \<open>Accounts\<close>

text \<open>\<open>/etc/passwd\<close>, \<open>/etc/passwd_\<close>, \<open>/home/\<close>, \<open>root\<close> and the format of a line, \<open>%d:%s:%s\<close>
  and a newline.\<close>

definition passwd :: "u8 list" where
  "passwd = [47, 101, 116, 99, 47, 112, 97, 115, 115, 119, 100, 0]"

definition passwd_new :: "u8 list" where
  "passwd_new = [47, 101, 116, 99, 47, 112, 97, 115, 115, 119, 100, 95, 0]"

definition home_prefix :: "u8 list" where
  "home_prefix = [47, 104, 111, 109, 101, 47, 0]"

definition root_name :: "u8 list" where
  "root_name = [114, 111, 111, 116, 0]"

definition line_format :: "u8 list" where
  "line_format = [37, 100, 58, 37, 115, 58, 37, 115, 10, 0]"

text \<open>The loop that splits a line in \<open>user_is_exists\<close> and \<open>delete_user_account\<close>: the length is computed
  again before every round, and the second colon ends the string.\<close>

function mark_name :: "u8 list \<Rightarrow> nat \<Rightarrow> bool \<Rightarrow> nat option \<Rightarrow> (u8 list \<times> nat option) option" where
  "mark_name buf i colon real_uname = do {
     l \<leftarrow> strlen buf 0;
     (if i < l \<and> i < length buf then
        (if buf ! i = 58 \<and> \<not> colon then mark_name buf (Suc i) True (Some (Suc i))
         else if buf ! i = 58 then mark_name (buf[i := 0]) (Suc i) colon real_uname
         else mark_name buf (Suc i) colon real_uname)
      else Some (buf, real_uname)) }"
  by pat_completeness auto
termination by (relation "measure (\<lambda>(buf, i, colon, real_uname). length buf - i)") auto

declare mark_name.simps [simp del]

text \<open>The loop of \<open>user_check\<close>, over the \<open>n\<close> characters from position \<open>i\<close>: the name and the password
  start behind the first and the second colon.\<close>

fun split_line :: "u8 list \<Rightarrow> nat \<Rightarrow> nat \<Rightarrow> bool \<Rightarrow> nat option \<Rightarrow> nat option \<Rightarrow> (u8 list \<times> nat option \<times> nat option) option" where
  "split_line buf i 0 colon real_uname real_pwd = Some (buf, real_uname, real_pwd)"
| "split_line buf i (Suc n) colon real_uname real_pwd = do {
     c \<leftarrow> load buf i;
     (if c = 58 \<and> \<not> colon then split_line (buf[i := 0]) (Suc i) n True (Some (Suc i)) real_pwd
      else if c = 58 then split_line (buf[i := 0]) (Suc i) n colon real_uname (Some (Suc i))
      else split_line buf (Suc i) n colon real_uname real_pwd) }"

text \<open>The loop of \<open>username2uid\<close>, which ends at the second colon.\<close>

fun split_name :: "u8 list \<Rightarrow> nat \<Rightarrow> nat \<Rightarrow> bool \<Rightarrow> nat option \<Rightarrow> (u8 list \<times> nat option) option" where
  "split_name buf i 0 colon real_uname = Some (buf, real_uname)"
| "split_name buf i (Suc n) colon real_uname = do {
     c \<leftarrow> load buf i;
     (if c = 58 \<and> \<not> colon then split_name (buf[i := 0]) (Suc i) n True (Some (Suc i))
      else if c = 58 then Some (buf[i := 0], real_uname)
      else split_name buf (Suc i) n colon real_uname) }"

text \<open>The newline at the end of a line is overwritten; an empty line would be overwritten before its
  start.\<close>

definition cut_newline :: "u8 list \<Rightarrow> u8 list option" where
  "cut_newline buf = do {
     l \<leftarrow> strlen buf 0;
     (if l = 0 then None else store buf (l - 1) 0) }"

partial_function (option) check_loop ::
    "fs_state \<Rightarrow> u32 \<Rightarrow> u8 list \<Rightarrow> nat option \<Rightarrow> nat option \<Rightarrow> u8 list \<Rightarrow> u8 list \<Rightarrow> (int \<times> fs_state) option" where
  "check_loop s fd buf real_uname real_pwd username pwd_result = do {
     e \<leftarrow> is_eof s fd;
     (if e then do {
        s1 \<leftarrow> close_file s fd;
        Some (-1, s1) }
      else do {
        (s1, b1) \<leftarrow> readline s fd buf 0;
        b2 \<leftarrow> cut_newline b1;
        l \<leftarrow> strlen b2 0;
        (b3, un, pw) \<leftarrow> split_line b2 0 l False real_uname real_pwd;
        uid \<leftarrow> string2int b3 0;
        u \<leftarrow> un;
        same_name \<leftarrow> strcmp username 0 b3 u;
        same_pwd \<leftarrow> (if same_name then do { w \<leftarrow> pw; strcmp pwd_result 0 b3 w } else Some False);
        (if same_pwd then do {
           s2 \<leftarrow> close_file s1 fd;
           Some (uid, s2) }
         else do {
           b4 \<leftarrow> memset b3 0 0 64;
           check_loop s1 fd b4 un pw username pwd_result }) }) }"

declare check_loop.simps [code]

definition user_check :: "fs_state \<Rightarrow> u8 list \<Rightarrow> u8 list \<Rightarrow> (int \<times> fs_state) option" where
  "user_check s username password = do {
     (fd, s1) \<leftarrow> open_file s passwd;
     pwd_result \<leftarrow> hahash password 0 (replicate 32 0);
     check_loop s1 (word_of_int fd) (replicate 64 0) None None username pwd_result }"

partial_function (option) uid_loop ::
    "fs_state \<Rightarrow> u32 \<Rightarrow> u8 list \<Rightarrow> nat option \<Rightarrow> u8 list \<Rightarrow> (int \<times> fs_state) option" where
  "uid_loop s fd buf real_uname username = do {
     e \<leftarrow> is_eof s fd;
     (if e then do {
        s1 \<leftarrow> close_file s fd;
        Some (-1, s1) }
      else do {
        (s1, b1) \<leftarrow> readline s fd buf 0;
        b2 \<leftarrow> cut_newline b1;
        l \<leftarrow> strlen b2 0;
        (b3, un) \<leftarrow> split_name b2 0 l False real_uname;
        uid \<leftarrow> string2int b3 0;
        u \<leftarrow> un;
        same_name \<leftarrow> strcmp username 0 b3 u;
        (if same_name then do {
           s2 \<leftarrow> close_file s1 fd;
           Some (uid, s2) }
         else do {
           b4 \<leftarrow> memset b3 0 0 64;
           uid_loop s1 fd b4 un username }) }) }"

declare uid_loop.simps [code]

definition username2uid :: "fs_state \<Rightarrow> u8 list \<Rightarrow> (int \<times> fs_state) option" where
  "username2uid s username = do {
     (fd, s1) \<leftarrow> open_file s passwd;
     uid_loop s1 (word_of_int fd) (replicate 64 0) None username }"

partial_function (option) exists_loop ::
    "fs_state \<Rightarrow> u32 \<Rightarrow> u8 list \<Rightarrow> nat option \<Rightarrow> u8 list \<Rightarrow> (bool \<times> fs_state) option" where
  "exists_loop s fd buf real_uname username = do {
     e \<leftarrow> is_eof s fd;
     (if e then do {
        s1 \<leftarrow> close_file s fd;
        Some (False, s1) }
      else do {
        (s1, b1) \<leftarrow> readline s fd buf 0;
        (b2, un) \<leftarrow> mark_name b1 0 False real_uname;
        u \<leftarrow> un;
        same_name \<leftarrow> strcmp b2 u username 0;
        (if same_name then do {
           s2 \<leftarrow> close_file s1 fd;
           Some (True, s2) }
         else do {
           b3 \<leftarrow> memset b2 0 0 128;
           exists_loop s1 fd b3 un username }) }) }"

declare exists_loop.simps [code]

definition user_is_exists :: "fs_state \<Rightarrow> u8 list \<Rightarrow> (bool \<times> fs_state) option" where
  "user_is_exists s username = do {
     (fd, s1) \<leftarrow> open_file s passwd;
     exists_loop s1 (word_of_int fd) (replicate 128 0) None username }"

text \<open>The last user number that was given out is a static variable.\<close>

definition allocate_uid :: "u32 \<Rightarrow> u32" where
  "allocate_uid last_uid = last_uid + 1"

definition create_user_account :: "fs_state \<Rightarrow> u32 \<Rightarrow> u8 list \<Rightarrow> u8 list \<Rightarrow> (int \<times> fs_state \<times> u32) option" where
  "create_user_account s last_uid username password = do {
     (e, s1) \<leftarrow> user_is_exists s username;
     (if e then Some (-1, s1, last_uid)
      else do {
        is_root \<leftarrow> strcmp root_name 0 username 0;
        let last_uid1 = (if is_root then last_uid else allocate_uid last_uid);
        let uid = (if is_root then 0 else last_uid1);
        pwd_result \<leftarrow> hahash password 0 (replicate 32 0);
        (fd, s2) \<leftarrow> open_file s1 passwd;
        buf \<leftarrow> sprintf (replicate 128 0) 0 line_format [Stdio.Word uid, Text username, Text pwd_result];
        l \<leftarrow> strlen buf 0;
        s3 \<leftarrow> write_file s2 (word_of_int fd) buf 0 (of_nat l) APPEND;
        s4 \<leftarrow> close_file s3 (word_of_int fd);
        Some (sint uid, s4, last_uid1) }) }"

definition home_path :: "u8 list \<Rightarrow> u8 list option" where
  "home_path username = do {
     h \<leftarrow> strcpy (replicate 64 0) 0 home_prefix 0;
     l \<leftarrow> strlen h 0;
     strcpy h l username 0 }"

text \<open>\<open>chown\<close> of \<open>terminal/builtin_cmd.cc\<close>: an unknown owner is ignored.\<close>

definition chown :: "fs_state \<Rightarrow> u8 list \<Rightarrow> u8 list \<Rightarrow> fs_state option" where
  "chown s path new_owner = do {
     (uid, s1) \<leftarrow> username2uid s new_owner;
     (if uid = -1 then Some s1 else sys_chown s1 path (word_of_int uid)) }"

definition create_user_homedir :: "fs_state \<Rightarrow> u64 \<Rightarrow> u8 list \<Rightarrow> fs_state option" where
  "create_user_homedir s now username = do {
     h \<leftarrow> home_path username;
     s1 \<leftarrow> sys_mkdir s now h;
     chown s1 h username }"

definition useradd :: "fs_state \<Rightarrow> u32 \<Rightarrow> u64 \<Rightarrow> u8 list \<Rightarrow> u8 list \<Rightarrow> (fs_state \<times> u32) option" where
  "useradd s last_uid now username password = do {
     (_, s1, last_uid1) \<leftarrow> create_user_account s last_uid username password;
     is_root \<leftarrow> strcmp username 0 root_name 0;
     (if is_root then Some (s1, last_uid1)
      else do {
        s2 \<leftarrow> create_user_homedir s1 now username;
        Some (s2, last_uid1) }) }"

partial_function (option) copy_accounts ::
    "fs_state \<Rightarrow> u32 \<Rightarrow> u32 \<Rightarrow> u8 list \<Rightarrow> u8 list \<Rightarrow> nat option \<Rightarrow> u8 list \<Rightarrow> fs_state option" where
  "copy_accounts s fd_src fd_dst buf buf_will_write real_uname username = do {
     e \<leftarrow> is_eof s fd_src;
     (if e then Some s
      else do {
        b0 \<leftarrow> memset buf 0 0 128;
        w0 \<leftarrow> memset buf_will_write 0 0 128;
        (s1, b1) \<leftarrow> readline s fd_src b0 0;
        l \<leftarrow> strlen b1 0;
        w1 \<leftarrow> memcpy w0 0 b1 0 l;
        (b2, un) \<leftarrow> mark_name b1 0 False real_uname;
        u \<leftarrow> un;
        same_name \<leftarrow> strcmp username 0 b2 u;
        (if same_name then copy_accounts s1 fd_src fd_dst b2 w1 un username
         else do {
           n \<leftarrow> strlen w1 0;
           s2 \<leftarrow> write_file s1 fd_dst w1 0 (of_nat n) APPEND;
           copy_accounts s2 fd_src fd_dst b2 w1 un username }) }) }"

declare copy_accounts.simps [code]

definition delete_user_account :: "fs_state \<Rightarrow> u64 \<Rightarrow> u8 list \<Rightarrow> fs_state option" where
  "delete_user_account s now username = do {
     is_root \<leftarrow> strcmp username 0 root_name 0;
     (if is_root then Some s
      else do {
        (e, s1) \<leftarrow> user_is_exists s username;
        (if \<not> e then Some s1
         else do {
           s2 \<leftarrow> sys_mkfile s1 now passwd_new;
           (fd_src, s3) \<leftarrow> open_file s2 passwd;
           (fd_dst, s4) \<leftarrow> open_file s3 passwd_new;
           s5 \<leftarrow> copy_accounts s4 (word_of_int fd_src) (word_of_int fd_dst) (replicate 128 0) (replicate 128 0) None username;
           s6 \<leftarrow> close_file s5 (word_of_int fd_src);
           s7 \<leftarrow> close_file s6 (word_of_int fd_dst);
           s8 \<leftarrow> sys_rmfile s7 passwd;
           move_file s8 now passwd_new passwd }) }) }"

definition delete_user_homedir :: "fs_state \<Rightarrow> u8 list \<Rightarrow> fs_state option" where
  "delete_user_homedir s username = do {
     h \<leftarrow> home_path username;
     sys_rmdir s h }"

definition userdel :: "fs_state \<Rightarrow> u64 \<Rightarrow> u8 list \<Rightarrow> fs_state option" where
  "userdel s now username = do {
     s1 \<leftarrow> delete_user_account s now username;
     delete_user_homedir s1 username }"

section \<open>The hash\<close>

lemma hash_fill_length:
  "0 < i \<Longrightarrow> i + n \<le> length r \<Longrightarrow> start < i \<Longrightarrow> \<exists>r'. hash_fill r i start n = Some r' \<and> length r' = length r"
proof (induction n arbitrary: r i start)
  case (Suc n)
  then show ?case
    using Suc.IH [of "Suc i" "r[i := r ! (i - 1) XOR r ! start]" "Suc start"] by (simp add: load_def store_def)
qed simp

lemma hash_index: "unat ((w :: u32) mod 62) < length hash_table"
  by (simp add: unat_mod hash_table_def)

lemma hash_mix_chars:
  "i + n \<le> 32 \<Longrightarrow> length r = 32 \<Longrightarrow>
   \<exists>r'. hash_mix r i n = Some r' \<and> length r' = 32 \<and> take i r' = take i r \<and> set (take n (drop i r')) \<subseteq> set hash_table"
proof (induction n arbitrary: r i)
  case (Suc n)
  let ?h = "hash_table ! unat ((scast (r ! i XOR r ! (31 - i)) :: u32) mod 62)"
  let ?r = "r[i := ?h]"
  have h: "?h \<in> set hash_table" by (rule nth_mem) (rule hash_index)
  obtain r' where r': "hash_mix ?r (Suc i) n = Some r'" "length r' = 32" "take (Suc i) r' = take (Suc i) ?r"
    "set (take n (drop (Suc i) r')) \<subseteq> set hash_table"
    using Suc.IH [of "Suc i" ?r] Suc.prems by auto
  have "r' ! i = ?h" using arg_cong [OF r'(3), of "\<lambda>l. l ! i"] Suc.prems r'(2) by simp
  then have "take (Suc n) (drop i r') = ?h # take n (drop (Suc i) r')"
    using Suc.prems r'(2) by (simp add: Cons_nth_drop_Suc [symmetric])
  moreover have "take i r' = take i r" using arg_cong [OF r'(3), of "take i"] by (simp add: min_def)
  ultimately show ?case using r' h Suc.prems hash_index by (simp add: load_def store_def)
qed simp

lemma hahash_chars:
  assumes "cstr str p pw" and "pw \<noteq> []" and "length pw \<le> 32"
  shows "\<exists>h. hahash str p (replicate 32 0) = Some (h @ [0]) \<and> length h = 31 \<and> set h \<subseteq> set hash_table"
proof -
  have c: "strcpy (replicate 32 0) 0 str p = Some (put (replicate 32 0) 0 pw)"
    using strcpy_cstr [OF assms(1), of 0 "replicate 32 0"] assms(3) by simp
  obtain r2 where r2: "hash_fill (put (replicate 32 0) 0 pw) (length pw) 0 (32 - length pw) = Some r2" "length r2 = 32"
    using hash_fill_length [of "length pw" "32 - length pw" "put (replicate 32 0) 0 pw" 0] assms(2,3) by auto
  obtain r3 where r3: "hash_mix r2 0 32 = Some r3" "length r3 = 32" "set r3 \<subseteq> set hash_table"
    using hash_mix_chars [of 0 32 r2] r2(2) by auto
  have "r3[31 := 0] = take 31 r3 @ [0]" using r3(2) by (simp add: upd_conv_take_nth_drop)
  moreover have "set (take 31 r3) \<subseteq> set hash_table" using r3(3) set_take_subset by fastforce
  ultimately show ?thesis
    using c r2 r3 assms(3) by (simp add: hahash_def strlen_cstr [OF assms(1)] store_def)
qed

text \<open>A longer password is stored as it is, up to its first 31 characters.\<close>

lemma long_password_stored:
  assumes "cstr str p pw" and "32 < length pw"
  shows "hahash str p (replicate 32 0) = Some (take 31 pw @ [0])"
proof -
  have t: "take 31 (drop p str) = take 31 pw"
    using assms by (intro nth_equalityI) (auto simp: cstr_def)
  have "memcpy (replicate 32 0) 0 str p 31 = Some (take 31 pw @ [0])"
    using memcpy_put [of 0 31 "replicate 32 0" p str] assms t by (simp add: put_def cstr_def)
  then show ?thesis using assms(2) by (simp add: hahash_def strlen_cstr [OF assms(1)] store_def list_update_append)
qed

lemma hash_table_chars: "0 \<notin> set hash_table" "58 \<notin> set hash_table" "10 \<notin> set hash_table"
  by (simp_all add: hash_table_def)

section \<open>Reading lines\<close>

text \<open>The text of a file, in the sectors of its inode, and a descriptor from which some text is still to
  be read.\<close>

definition file_text :: "fs_state \<Rightarrow> inode \<Rightarrow> u8 list" where
  "file_text s i = map (\<lambda>k. fdisk s (sectors i ! (k div 512)) ! (k mod 512)) [0 ..< unat (isize i)]"

definition reading :: "fs_state \<Rightarrow> u32 \<Rightarrow> u8 list \<Rightarrow> bool" where
  "reading s fd rest \<longleftrightarrow> (\<exists>f. load (file_desc_tbl s) (unat fd) = Some (Some f) \<and> check_inode_permission s (finode f) access_READ
     \<and> length (sectors (finode f)) = 9 \<and> unat (isize (finode f)) \<le> 9 * 512 \<and> foffset f \<le> isize (finode f)
     \<and> (\<forall>lba \<in> set (sectors (finode f)). length (fdisk s lba) = 512)
     \<and> drop (unat (foffset f)) (file_text s (finode f)) = rest)"

lemma reading_eof: "reading s fd rest \<Longrightarrow> is_eof s fd = Some (rest = [])"
  by (auto simp: reading_def is_eof_def file_text_def word_le_nat_alt)

lemma reading_byte:
  assumes "reading s fd (c # rest)" and "p < length buf"
  shows "\<exists>s'. read_file s fd buf p 1 = Some (1, s', buf[p := c]) \<and> reading s' fd rest"
proof -
  obtain f where f: "load (file_desc_tbl s) (unat fd) = Some (Some f)" "check_inode_permission s (finode f) access_READ"
    "length (sectors (finode f)) = 9" "unat (isize (finode f)) \<le> 9 * 512" "foffset f \<le> isize (finode f)"
    "\<forall>lba \<in> set (sectors (finode f)). length (fdisk s lba) = 512" "drop (unat (foffset f)) (file_text s (finode f)) = c # rest"
    using assms(1) unfolding reading_def by blast
  let ?o = "unat (foffset f)" and ?i = "finode f"
  let ?s = "s\<lparr>file_desc_tbl := (file_desc_tbl s)[unat fd := Some (f\<lparr>foffset := foffset f + 1\<rparr>)]\<rparr>"
  have len: "length (file_text s ?i) = unat (isize ?i)" by (simp add: file_text_def)
  have o: "?o < unat (isize ?i)"
    using f(7) len by (metis drop_all list.distinct(1) not_le)
  have c: "file_text s ?i ! ?o = c" "drop (Suc ?o) (file_text s ?i) = rest"
    using f(7) o len by (metis Cons_nth_drop_Suc list.inject)+
  have k: "?o div 512 < 9" using o f(4) by simp
  then have lba: "length (fdisk s (sectors ?i ! (?o div 512))) = 512" using f(3,6) by simp
  have cb: "fdisk s (sectors ?i ! (?o div 512)) ! (?o mod 512) = c" using c(1) o by (simp add: file_text_def)
  have u: "unat (foffset f div 512) = ?o div 512" "unat (foffset f mod 512) = ?o mod 512" by (simp_all add: unat_div unat_mod)
  have "\<not> isize ?i < 1" using o by (auto simp: word_less_nat_alt)
  moreover have "memcpy buf p (fdisk s (sectors ?i ! (?o div 512))) (?o mod 512) 1 = Some (buf[p := c])"
    using lba cb assms(2) by (simp add: load_def store_def)
  ultimately have "read_file s fd buf p 1 = Some (1, ?s, buf[p := c])"
    using f(1,2,3) k u by (simp add: read_file_def Let_def load_def [of "sectors ?i"] read_disk_def)
  moreover have "reading ?s fd rest"
  proof -
    have "Suc ?o < 2 ^ LENGTH(32)" using o f(4) by simp
    then have "unat (foffset f + 1) = Suc ?o" using unat_add_small [of "foffset f" 1] by simp
    then show ?thesis
      using f(1-6) c(2) o
      by (auto simp: reading_def load_def file_text_def word_le_nat_alt check_inode_permission_def split: if_splits)
  qed
  ultimately show ?thesis by blast
qed

lemma put_two: "Suc p < length buf \<Longrightarrow> buf[p := a, Suc p := b] = put buf p [a, b]"
  using put_Cons [of p buf a "[b]"] put_Cons [of "Suc p" "buf[p := a]" b "[]"] by simp

text \<open>A line is read up to and with its newline, and is terminated.\<close>

lemma readline_line:
  assumes "reading s fd (l @ 10 # rest)" and "10 \<notin> set l" and "p + length l + 1 < length buf"
  shows "\<exists>s'. readline s fd buf p = Some (s', put buf p (l @ [10, 0])) \<and> reading s' fd rest"
  using assms
proof (induction l arbitrary: s buf p)
  case Nil
  obtain s' where "read_file s fd buf p 1 = Some (1, s', buf[p := 10])" "reading s' fd rest"
    using reading_byte [of s fd 10 rest p buf] Nil by auto
  moreover have "is_eof s fd = Some False" using reading_eof [OF Nil(1)] by simp
  ultimately show ?case using Nil(3)
    by (simp add: readline.simps [of s] load_def store_def put_two)
next
  case (Cons c l)
  obtain s1 where r: "read_file s fd buf p 1 = Some (1, s1, buf[p := c])" "reading s1 fd (l @ 10 # rest)"
    using reading_byte [of s fd c "l @ 10 # rest" p buf] Cons.prems by auto
  obtain s' where "readline s1 fd (buf[p := c]) (Suc p) = Some (s', put (buf[p := c]) (Suc p) (l @ [10, 0]))" "reading s' fd rest"
    using Cons.IH [OF r(2), of "Suc p" "buf[p := c]"] Cons.prems(2,3) by auto
  moreover have "is_eof s fd = Some False" using reading_eof [OF Cons.prems(1)] by simp
  ultimately show ?case using r(1) Cons.prems(2,3)
    by (simp add: readline.simps [of s] load_def put_Cons)
qed

section \<open>Finding an account\<close>

text \<open>An account has a number, a name and the hash of a password; its line has them separated by colons.\<close>

type_synonym account = "u32 \<times> u8 list \<times> u8 list"

fun account_line :: "account \<Rightarrow> u8 list" where
  "account_line (uid, nm, h) = itoa_digits (unat uid) 10 @ 58 # nm @ 58 # h"

fun account_ok :: "account \<Rightarrow> bool" where
  "account_ok (uid, nm, h) \<longleftrightarrow> {0, 10, 58} \<inter> (set nm \<union> set h) = {} \<and> length (account_line (uid, nm, h)) \<le> 62"

definition passwd_text :: "account list \<Rightarrow> u8 list" where
  "passwd_text as = concat (map (\<lambda>a. account_line a @ [10]) as)"

text \<open>What a search for a name and a hash finds: the number of the first account that has them.\<close>

definition find_account :: "account list \<Rightarrow> u8 list \<Rightarrow> u8 list \<Rightarrow> int" where
  "find_account as nm h = (case find (\<lambda>a. snd a = (nm, h)) as of None \<Rightarrow> -1 | Some a \<Rightarrow> sint (fst a))"

lemma digit_chars: "c \<in> set (itoa_digits n 10) \<Longrightarrow> sint c < 58 \<and> 48 \<le> sint c"
proof (induction n rule: less_induct)
  case (less n)
  have "sint (itoa_digit (of_nat (n mod 10))) = 48 + int (n mod 10)" by (rule sint_itoa_digit) simp
  moreover have "n mod 10 < 10" by simp
  moreover have "n div 10 \<noteq> 0 \<Longrightarrow> n div 10 < n" by (cases n) simp_all
  ultimately show ?case using less.IH [of "n div 10"] less.prems by (auto simp: itoa_digits.simps [of n] split: if_splits)
qed

lemma digits_no_separator: "0 \<notin> set (itoa_digits n 10)" "10 \<notin> set (itoa_digits n 10)" "58 \<notin> set (itoa_digits n 10)"
  using digit_chars [of 0 n] digit_chars [of 10 n] digit_chars [of 58 n] by auto

lemma split_line_skip:
  "58 \<notin> set xs \<Longrightarrow>
   split_line (a @ xs @ b) (length a) (length xs + n) colon un pw = split_line (a @ xs @ b) (length a + length xs) n colon un pw"
proof (induction xs arbitrary: a)
  case (Cons x xs)
  then show ?case using Cons.IH [of "a @ [x]"] by (simp add: load_def nth_append)
qed simp

lemma split_line_all: "58 \<notin> set xs \<Longrightarrow> split_line (a @ xs @ b) (length a) (length xs) colon un pw = Some (a @ xs @ b, un, pw)"
  using split_line_skip [of xs a b 0 colon un pw] by simp

lemma split_account:
  assumes "58 \<notin> set ds" and "58 \<notin> set nm" and "58 \<notin> set h"
  shows "split_line (ds @ 58 # nm @ 58 # h @ z) 0 (length (ds @ 58 # nm @ 58 # h)) False un pw
    = Some (ds @ 0 # nm @ 0 # h @ z, Some (Suc (length ds)), Some (length ds + length nm + 2))"
proof -
  let ?b1 = "ds @ 58 # nm @ 58 # h @ z" and ?b2 = "(ds @ [0]) @ nm @ 58 # h @ z" and ?b3 = "(ds @ 0 # nm @ [0]) @ h @ z"
  have "split_line ?b1 0 (length (ds @ 58 # nm @ 58 # h)) False un pw = split_line ?b1 (length ds) (Suc (length nm + Suc (length h))) False un pw"
    using split_line_skip [OF assms(1), of "[]" "58 # nm @ 58 # h @ z" "Suc (length nm + Suc (length h))" False un pw]
    by (simp del: split_line.simps)
  also have "\<dots> = split_line ?b2 (length (ds @ [0])) (length nm + Suc (length h)) True (Some (Suc (length ds))) pw"
    by (simp add: load_def list_update_append)
  also have "\<dots> = split_line ?b2 (Suc (length ds + length nm)) (Suc (length h)) True (Some (Suc (length ds))) pw"
    using split_line_skip [OF assms(2), of "ds @ [0]" "58 # h @ z" "Suc (length h)"]
    by (simp del: split_line.simps)
  also have "\<dots> = split_line ?b3 (length (ds @ 0 # nm @ [0])) (length h) True (Some (Suc (length ds))) (Some (length ds + length nm + 2))"
    by (simp add: load_def nth_append list_update_append)
  also have "\<dots> = Some (?b3, Some (Suc (length ds)), Some (length ds + length nm + 2))"
    using split_line_all [OF assms(3)] .
  finally show ?thesis by simp
qed

lemma cstr_append: "0 \<notin> set t \<Longrightarrow> cstr (a @ t @ 0 # b) (length a) t"
  by (auto simp: cstr_def nth_append)

lemma account_strings:
  assumes "account_ok (uid, nm, h)" and "z \<noteq> []" and "set z = {0}"
  defines "b \<equiv> itoa_digits (unat uid) 10 @ 0 # nm @ 0 # h @ z"
  shows "string2int b 0 = Some (sint uid)" and "cstr b (Suc (length (itoa_digits (unat uid) 10))) nm"
    and "cstr b (length (itoa_digits (unat uid) 10) + length nm + 2) h"
proof -
  let ?d = "itoa_digits (unat uid) 10"
  obtain z' where z: "z = 0 # z'" using assms(2,3) by (cases z) auto
  have d: "cstr b 0 ?d" using cstr_append [OF digits_no_separator(1), of "[]"] by (simp add: b_def)
  moreover have "length ?d < 2 ^ 31" using assms(1) by simp
  ultimately show "string2int b 0 = Some (sint uid)" using string2int_cstr [of b 0 ?d] by (simp add: dval_itoa_digits)
  show "cstr b (Suc (length ?d)) nm" using cstr_append [of nm "?d @ [0]" "h @ z"] assms(1) by (simp add: b_def)
  show "cstr b (length ?d + length nm + 2) h" using cstr_append [of h "?d @ 0 # nm @ [0]" z'] assms(1) by (simp add: b_def z)
qed

text \<open>One round of the loop of \<open>user_check\<close>: the line is read, split and compared.\<close>

lemma line_in_buffer:
  assumes "account_ok a"
  shows "put (replicate 64 0) 0 (account_line a @ [10, 0]) = account_line a @ 10 # replicate (63 - length (account_line a)) 0"
    and "cut_newline (account_line a @ 10 # replicate (63 - length (account_line a)) 0)
      = Some (account_line a @ replicate (64 - length (account_line a)) 0)"
    and "strlen (account_line a @ replicate (64 - length (account_line a)) 0) 0 = Some (length (account_line a))"
    and "10 \<notin> set (account_line a)"
proof -
  obtain uid nm h where a: "a = (uid, nm, h)" by (cases a)
  let ?l = "account_line a"
  have l: "length ?l \<le> 62" "0 \<notin> set ?l" "10 \<notin> set ?l"
    using assms digits_no_separator(1,2) [of "unat uid"] by (auto simp: a)
  define k where "k = 62 - length ?l"
  have k: "63 - length ?l = Suc k" "64 - length ?l = Suc (Suc k)" "62 - length ?l = k" using l(1) by (auto simp: k_def)
  show "put (replicate 64 0) 0 (?l @ [10, 0]) = ?l @ 10 # replicate (63 - length ?l) 0"
    using k by (simp add: put_def)
  have "strlen (?l @ 10 # replicate (63 - length ?l) 0) 0 = Some (Suc (length ?l))"
    using strlen_cstr [OF cstr_append [of "?l @ [10]" "[]" "replicate k 0"]] l(2) k by simp
  then show "cut_newline (?l @ 10 # replicate (63 - length ?l) 0) = Some (?l @ replicate (64 - length ?l) 0)"
    using k by (simp add: cut_newline_def store_def list_update_append)
  show "strlen (?l @ replicate (64 - length ?l) 0) 0 = Some (length ?l)"
    using strlen_cstr [OF cstr_append [of ?l "[]" "replicate (Suc k) 0"]] l(2) k by simp
  show "10 \<notin> set ?l" by (rule l(3))
qed

lemma reading_close: "reading s fd rest \<Longrightarrow> \<exists>s'. close_file s fd = Some s'"
  by (auto simp: reading_def close_file_def free_fdt_slot_def load_def store_def split: if_splits)

lemma check_round:
  assumes "reading s fd (passwd_text ((uid, nm, h) # as))" and "account_ok (uid, nm, h)" and "cstr username 0 u" and "cstr pwd_result 0 w"
  shows "\<exists>s1 un1 pw1. reading s1 fd (passwd_text as)
    \<and> check_loop s fd (replicate 64 0) un pw username pwd_result
      = (if (nm, h) = (u, w) then map_option (Pair (sint uid)) (close_file s1 fd)
         else check_loop s1 fd (replicate 64 0) un1 pw1 username pwd_result)"
proof -
  let ?a = "(uid, nm, h)" and ?d = "itoa_digits (unat uid) 10"
  let ?z = "replicate (64 - length (account_line ?a)) (0 :: u8)"
  let ?b3 = "?d @ 0 # nm @ 0 # h @ ?z"
  note l = line_in_buffer [OF assms(2)]
  have z: "?z \<noteq> []" "set ?z = {0}" and len: "length ?b3 = 64" using assms(2) by auto
  obtain s1 where s1: "readline s fd (replicate 64 0) 0 = Some (s1, put (replicate 64 0) 0 (account_line ?a @ [10, 0]))"
    "reading s1 fd (passwd_text as)"
    using readline_line [of s fd "account_line ?a" "passwd_text as" 0 "replicate 64 0"] assms(1,2) l(4)
    by (auto simp: passwd_text_def)
  have "is_eof s fd = Some False" using reading_eof [OF assms(1)] by (simp add: passwd_text_def)
  moreover have "split_line (account_line ?a @ ?z) 0 (length (account_line ?a)) False un pw
      = Some (?b3, Some (Suc (length ?d)), Some (length ?d + length nm + 2))"
    using split_account [of ?d nm h ?z un pw] digits_no_separator(3) assms(2) by simp
  moreover have "strcmp username 0 ?b3 (Suc (length ?d)) = Some (u = nm)" "strcmp pwd_result 0 ?b3 (length ?d + length nm + 2) = Some (w = h)"
    "string2int ?b3 0 = Some (sint uid)"
    using account_strings [OF assms(2) z] strcmp_cstr [OF assms(3)] strcmp_cstr [OF assms(4)] by simp_all
  moreover have "memset ?b3 0 0 64 = Some (replicate 64 0)" using memset_put [of 0 64 ?b3 0] len by (simp add: put_def)
  ultimately have "check_loop s fd (replicate 64 0) un pw username pwd_result
      = (if (nm, h) = (u, w) then map_option (Pair (sint uid)) (close_file s1 fd)
         else check_loop s1 fd (replicate 64 0) (Some (Suc (length ?d))) (Some (length ?d + length nm + 2)) username pwd_result)"
    using s1(1) l(1-3)
    by (auto simp: check_loop.simps [of s] map_conv_bind_option comp_def simp del: account_line.simps split_line.simps)
  then show ?thesis using s1(2) by blast
qed

lemma check_loop_finds:
  assumes "reading s fd (passwd_text as)" and "\<forall>a \<in> set as. account_ok a" and "cstr username 0 u" and "cstr pwd_result 0 w"
  shows "\<exists>s'. check_loop s fd (replicate 64 0) un pw username pwd_result = Some (find_account as u w, s')"
  using assms(1,2)
proof (induction as arbitrary: s un pw)
  case Nil
  then show ?case using reading_eof [OF Nil(1)] reading_close [OF Nil(1)]
    by (auto simp: check_loop.simps [of s] passwd_text_def find_account_def)
next
  case (Cons a as)
  obtain uid nm h where a: "a = (uid, nm, h)" by (cases a)
  obtain s1 un1 pw1 where r: "reading s1 fd (passwd_text as)" "check_loop s fd (replicate 64 0) un pw username pwd_result
      = (if (nm, h) = (u, w) then map_option (Pair (sint uid)) (close_file s1 fd)
         else check_loop s1 fd (replicate 64 0) un1 pw1 username pwd_result)"
    using check_round [of s fd uid nm h as username u pwd_result w un pw] Cons.prems assms(3,4) a by auto
  show ?case
  proof (cases "(nm, h) = (u, w)")
    case True
    then show ?thesis using r(2) reading_close [OF r(1)] by (auto simp: find_account_def a)
  next
    case False
    then have "find_account (a # as) u w = find_account as u w" by (auto simp: find_account_def a)
    then show ?thesis using False r Cons.IH [OF r(1), of un1 pw1] Cons.prems(2) by auto
  qed
qed

lemma user_check_accounts:
  assumes "open_file s passwd = Some (fd, s1)" and "reading s1 (word_of_int fd) (passwd_text as)" and "\<forall>a \<in> set as. account_ok a"
    and "cstr username 0 u" and "cstr password 0 pw" and "pw \<noteq> []" and "length pw \<le> 32"
  shows "\<exists>h s'. hahash password 0 (replicate 32 0) = Some (h @ [0]) \<and> set h \<subseteq> set hash_table
    \<and> user_check s username password = Some (find_account as u h, s')"
proof -
  obtain h where h: "hahash password 0 (replicate 32 0) = Some (h @ [0])" "set h \<subseteq> set hash_table"
    using hahash_chars [OF assms(5-7)] by blast
  then have "cstr (h @ [0]) 0 h" using cstr_append [of h "[]" "[]"] hash_table_chars(1) by auto
  then show ?thesis
    using check_loop_finds [OF assms(2-4), of "h @ [0]" h None None] h assms(1) by (auto simp: user_check_def)
qed

section \<open>Properties\<close>

text \<open>C15: logging in refines a search in the table of accounts: when \<open>/etc/passwd\<close> opens and holds the
  lines of some accounts, \<open>user_check\<close> returns, and its result is the number of the first account with
  the name and with the hash of the password, which consists of letters and digits, or -1 when there is none.\<close>

theorem user_check_finds_account:
  assumes "open_file s passwd = Some (fd, s1)" and "reading s1 (word_of_int fd) (passwd_text as)" and "\<forall>a \<in> set as. account_ok a"
    and "cstr username 0 u" and "cstr password 0 pw" and "pw \<noteq> []" and "length pw \<le> 32"
  shows "\<exists>h s'. hahash password 0 (replicate 32 0) = Some (h @ [0]) \<and> set h \<subseteq> set hash_table
    \<and> user_check s username password = Some (find_account as u h, s')"
  using user_check_accounts [OF assms] .

section \<open>Witness\<close>

text \<open>A file system with \<open>/etc/passwd\<close>, which has the account of root with the password \<open>root\<close>, and with an
  empty file \<open>/var/login.log\<close>.\<close>

definition root_hash :: "u8 list" where
  "root_hash = butlast (the (hahash [114, 111, 111, 116, 0] 0 (replicate 32 0)))"

definition root_account :: account where
  "root_account = (0, [114, 111, 111, 116], root_hash)"

definition passwd_inode :: inode where
  "passwd_inode = empty_inode\<lparr>inode_no := 2, isize := 39, sectors := 14 # replicate 8 0\<rparr>"

definition log_inode :: inode where
  "log_inode = empty_inode\<lparr>inode_no := 4, sectors := 16 # replicate 8 0\<rparr>"

definition etc_table :: "u8 list" where
  "etc_table = encode_inode (empty_inode\<lparr>sectors := 12 # replicate 8 0\<rparr>) @ encode_inode (empty_inode\<lparr>inode_no := 1, sectors := 13 # replicate 8 0\<rparr>)
     @ encode_inode passwd_inode @ encode_inode (empty_inode\<lparr>inode_no := 3, sectors := 15 # replicate 8 0\<rparr>)
     @ encode_inode log_inode @ replicate 192 0"

definition one_name :: "u8 list \<Rightarrow> u32 \<Rightarrow> u8 list" where
  "one_name nm ino = put (replicate 512 0) 0 (nm @ replicate (64 - length nm) 0 @ enc32 ino)"

definition etc_fs :: fs_state where
  "etc_fs = small_fs\<lparr>fs_uid := 0, block_bmap := bm512, inode_bmap := bm512,
     fdisk := (\<lambda>lba. if lba = 4 then etc_table
       else if lba = 12 then put (one_name [101, 116, 99] 1) 72 ([118, 97, 114] @ replicate 61 0 @ enc32 3)
       else if lba = 13 then one_name [112, 97, 115, 115, 119, 100] 2
       else if lba = 15 then one_name [108, 111, 103, 105, 110, 46, 108, 111, 103] 4
       else if lba = 14 then put (replicate 512 0) 0 (passwd_text [root_account]) else replicate 512 0)\<rparr>"

lemma etc_fs_passwd: "dir_is_exists etc_fs passwd = Some 2" "ino2inode etc_fs 2 = passwd_inode"
  "check_inode_permission etc_fs passwd_inode access_READ" "get_fdt_free_slot etc_fs = 0"
  by code_simp+

lemma root_hashed: "hahash [114, 111, 111, 116, 0] 0 (replicate 32 0) = Some (root_hash @ [0])" "length root_hash = 31"
  "set root_hash \<subseteq> set hash_table"
proof -
  have "cstr [114, 111, 111, 116, 0] 0 [114, 111, 111, 116]" by code_simp
  then obtain h where h: "hahash [114, 111, 111, 116, 0] 0 (replicate 32 0) = Some (h @ [0])" "length h = 31" "set h \<subseteq> set hash_table"
    using hahash_chars [of "[114, 111, 111, 116, 0]" 0 "[114, 111, 111, 116]"] by auto
  moreover have "root_hash = h" by (simp add: root_hash_def h(1))
  ultimately show "hahash [114, 111, 111, 116, 0] 0 (replicate 32 0) = Some (root_hash @ [0])" "length root_hash = 31"
    "set root_hash \<subseteq> set hash_table" by simp_all
qed

lemma root_account_ok: "account_ok root_account" "length (passwd_text [root_account]) = 39"
proof -
  have "itoa_digits 0 10 = [48]" by code_simp
  then show "account_ok root_account" "length (passwd_text [root_account]) = 39"
    using root_hashed(2,3) hash_table_chars by (auto simp: root_account_def passwd_text_def)
qed

lemma etc_fs_sectors: "fdisk etc_fs 14 = put (replicate 512 0) 0 (passwd_text [root_account])" "length (fdisk etc_fs 14) = 512"
  "length (fdisk etc_fs 0) = 512" "length (file_desc_tbl etc_fs) = 64"
  using root_account_ok(2) by (simp_all add: etc_fs_def small_fs_def)

lemma etc_fs_text: "file_text etc_fs passwd_inode = passwd_text [root_account]"
proof (rule nth_equalityI)
  show "length (file_text etc_fs passwd_inode) = length (passwd_text [root_account])"
    using root_account_ok(2) by (simp add: file_text_def passwd_inode_def)
  show "file_text etc_fs passwd_inode ! k = passwd_text [root_account] ! k" if "k < length (file_text etc_fs passwd_inode)" for k
    using that root_account_ok(2) etc_fs_sectors(1) by (simp add: file_text_def passwd_inode_def nth_put)
qed

lemma etc_fs_open:
  defines "s \<equiv> etc_fs\<lparr>file_desc_tbl := (file_desc_tbl etc_fs)[0 := Some \<lparr>foffset = 0, finode = passwd_inode\<rparr>]\<rparr>"
  shows "open_file etc_fs passwd = Some (0, s)" and "reading s (word_of_int 0) (passwd_text [root_account])"
proof -
  show "open_file etc_fs passwd = Some (0, s)"
    using etc_fs_passwd etc_fs_sectors(4) by (simp add: s_def open_file_def NOT_FOUND_def store_def Let_def)
  have "check_inode_permission s passwd_inode access_READ" "file_text s passwd_inode = passwd_text [root_account]"
    using etc_fs_passwd(3) etc_fs_text by (simp_all add: s_def check_inode_permission_def file_text_def)
  moreover have "length (sectors passwd_inode) = 9" "isize passwd_inode = 39" "set (sectors passwd_inode) = {14, 0}"
    by (simp_all add: passwd_inode_def empty_inode_def)
  ultimately show "reading s (word_of_int 0) (passwd_text [root_account])" using etc_fs_sectors by (auto simp: s_def reading_def load_def)
qed

lemma find_root: "find_account [root_account] [114, 111, 111, 116] root_hash = 0"
  by (simp add: find_account_def root_account_def)

theorem user_check_finds_account_witness:
  "\<exists>s'. user_check etc_fs [114, 111, 111, 116, 0] [114, 111, 111, 116, 0] = Some (0, s')"
proof -
  have "cstr [114, 111, 111, 116, 0] 0 [114, 111, 111, 116]" by code_simp
  then show ?thesis
    using user_check_finds_account [OF etc_fs_open, of "[114, 111, 111, 116, 0]" "[114, 111, 111, 116]" "[114, 111, 111, 116, 0]" "[114, 111, 111, 116]"]
      root_hashed(1) root_account_ok(1) find_root by auto
qed

end
