(* ===== verification/Terminal.thy ===== *)
theory Terminal
  imports Users Net_Server
begin

text \<open>
  Model of the terminal: the commands that ask a server for something
  (\<open>terminal/builtin_cmd.cc\<close>) and the shell (\<open>terminal/terminal.cc\<close>), with the editing of the
  line, its division into words, the forms of paths and the login.

  A built-in command is the message that it sends, as in \<open>Syscalls\<close>. The loops that wait for keys
  are given by what they do with one key. Pointers to words are addresses: the line lies at the address
  \<open>la\<close>, and \<open>low\<close> is the text that a null pointer points to. What the shell decides to do is
  a value of \<open>command\<close>; what is printed is left out.

  The theory shows that the built-in commands reach the operations of the servers, that the line
  holds the typed text with deletions applied, that the words of the line become the arguments of a
  command, and what becomes of paths.
\<close>

section \<open>Built-in commands\<close>

definition ps_cmd :: "msg_context \<Rightarrow> request" where
  "ps_cmd con = (Send_then_recv, KR_PCB, kr_CMD_PS, con)"

definition meminfo_cmd :: "msg_context \<Rightarrow> request" where
  "meminfo_cmd con = (Send_then_recv, MM_PCB, mm_CMD_MEMINFO, con)"

definition pwd_cmd :: "msg_context \<Rightarrow> request" where
  "pwd_cmd con = (Send_then_recv, FS_PCB, fs_CMD_PWD, con)"

definition cd_cmd :: "msg_context \<Rightarrow> u32 \<Rightarrow> request" where
  "cd_cmd con path = (Send_then_recv, FS_PCB, fs_CMD_CD, con\<lparr>con_1 := path\<rparr>)"

definition ls_cmd :: "msg_context \<Rightarrow> u32 \<Rightarrow> request" where
  "ls_cmd con path = (Send_then_recv, FS_PCB, fs_CMD_LS, con\<lparr>con_1 := path\<rparr>)"

definition cat_cmd :: "msg_context \<Rightarrow> u32 \<Rightarrow> request" where
  "cat_cmd con filename = (Send_then_recv, FS_PCB, fs_CMD_CAT, con\<lparr>con_1 := filename\<rparr>)"

definition cp_file_cmd :: "msg_context \<Rightarrow> u32 \<Rightarrow> u32 \<Rightarrow> request" where
  "cp_file_cmd con src dst = (Send_then_recv, FS_PCB, fs_CMD_CPFILE, con\<lparr>con_1 := src, con_2 := dst\<rparr>)"

definition mv_file_cmd :: "msg_context \<Rightarrow> u32 \<Rightarrow> u32 \<Rightarrow> request" where
  "mv_file_cmd con src dst = (Send_then_recv, FS_PCB, fs_CMD_MVFILE, con\<lparr>con_1 := src, con_2 := dst\<rparr>)"

text \<open>The two digits of a mode; characters are signed, the arithmetic is that of \<open>int\<close>.\<close>

definition parse_mode :: "u8 list \<Rightarrow> u32 option" where
  "parse_mode new_mode = do {
     c1 \<leftarrow> load new_mode 1;
     c0 \<leftarrow> load new_mode 0;
     Some ((scast c1 - 48) + push_bit 3 (scast c0 - 48)) }"

definition chmod_cmd :: "msg_context \<Rightarrow> u8 list \<Rightarrow> u32 \<Rightarrow> request option" where
  "chmod_cmd con new_mode path = do {
     mode \<leftarrow> parse_mode new_mode;
     Some (Send_then_recv, FS_PCB, fs_CMD_CHMOD, con\<lparr>con_1 := path, con_2 := mode\<rparr>) }"

definition chown_cmd :: "msg_context \<Rightarrow> u32 \<Rightarrow> int \<Rightarrow> request option" where
  "chown_cmd con path uid =
     (if uid = -1 then None else Some (Send_then_recv, FS_PCB, fs_CMD_CHOWN, con\<lparr>con_1 := path, con_2 := word_of_int uid\<rparr>))"

definition halt_cmd :: "msg_context \<Rightarrow> request" where
  "halt_cmd con = (Send, KR_PCB, kr_CMD_HALT, con)"

definition power_off_cmd :: "msg_context \<Rightarrow> request" where
  "power_off_cmd con = (Send, KR_PCB, kr_CMD_POWEROFF, con)"

definition reboot_cmd :: "msg_context \<Rightarrow> request" where
  "reboot_cmd con = (Send, KR_PCB, kr_CMD_REBOOT, con)"

definition show_arp_table_cmd :: "msg_context \<Rightarrow> request" where
  "show_arp_table_cmd con = (Send_then_recv, NET_PCB, net_SHOW_ARPTBL, con)"

definition ping_cmd :: "msg_context \<Rightarrow> u8 list \<Rightarrow> nat \<Rightarrow> (request \<times> u8 list) option" where
  "ping_cmd con str p = do {
     (ip, str1) \<leftarrow> ipstring2ipuint str p;
     Some ((Send_then_recv, NET_PCB, net_PING, con\<lparr>con_1 := ip\<rparr>), str1) }"

definition ifconfig_cmd :: "msg_context \<Rightarrow> request" where
  "ifconfig_cmd con = (Send_then_recv, NET_PCB, net_SHOW_IFACES, con)"

definition confignet_cmd :: "msg_context \<Rightarrow> u8 list \<Rightarrow> nat \<Rightarrow> nat \<Rightarrow> (request \<times> u8 list) option" where
  "confignet_cmd con str p q = do {
     (ip, str1) \<leftarrow> ipstring2ipuint str p;
     (gateway, str2) \<leftarrow> ipstring2ipuint str1 q;
     Some ((Send_then_recv, NET_PCB, net_CONF_NET, con\<lparr>con_1 := ip, con_2 := gateway\<rparr>), str2) }"

definition tell_fs :: "msg_context \<Rightarrow> int \<Rightarrow> request" where
  "tell_fs con uid = (Send, FS_PCB, fs_CUR_USER, con\<lparr>con_1 := word_of_int uid\<rparr>)"

text \<open>The lines of \<open>/var/login.log\<close> that \<open>last\<close> prints.\<close>

definition login_log :: "u8 list" where
  "login_log = [47, 118, 97, 114, 47, 108, 111, 103, 105, 110, 46, 108, 111, 103, 0]"

partial_function (option) last_loop :: "fs_state \<Rightarrow> u32 \<Rightarrow> u8 list \<Rightarrow> (u8 list \<times> fs_state) option" where
  "last_loop s fd line_buf = do {
     e \<leftarrow> is_eof s fd;
     (if e then Some ([], s)
      else do {
        (s1, b1) \<leftarrow> readline s fd line_buf 0;
        l \<leftarrow> strlen b1 0;
        b2 \<leftarrow> memset b1 0 0 64;
        (rest, s2) \<leftarrow> last_loop s1 fd b2;
        Some (take l b1 @ rest, s2) }) }"

declare last_loop.simps [code]

definition last_cmd :: "fs_state \<Rightarrow> (u8 list \<times> fs_state) option" where
  "last_cmd s = do {
     (fd, s1) \<leftarrow> open_file s login_log;
     (out, s2) \<leftarrow> last_loop s1 (word_of_int fd) (replicate 64 0);
     s3 \<leftarrow> close_file s2 (word_of_int fd);
     Some (out, s3) }"

section \<open>Paths\<close>

text \<open>The slash is 47 and the dot 46.\<close>

definition path_relative2abs :: "u8 list \<Rightarrow> u8 list \<Rightarrow> u8 list \<Rightarrow> u8 list option" where
  "path_relative2abs dir relative abs_path = do {
     c \<leftarrow> load relative 0;
     (if c = 0 then strcpy abs_path 0 dir 0
      else if c = 47 then strcpy abs_path 0 relative 0
      else do {
        a1 \<leftarrow> strcpy abs_path 0 dir 0;
        is_root \<leftarrow> strcmp dir 0 [47, 0] 0;
        l \<leftarrow> strlen dir 0;
        (if is_root then strcpy a1 l relative 0
         else do {
           a2 \<leftarrow> store a1 l 47;
           strcpy a2 (l + 1) relative 0 }) }) }"

text \<open>The loop from the back over the positions below \<open>i\<close>: a zero stands before each entry; entries
  that a later \<open>..\<close> removes are marked with a 1.\<close>

fun flag_entries :: "u8 list \<Rightarrow> nat \<Rightarrow> nat \<Rightarrow> u8 list option" where
  "flag_entries path 0 cnt = Some path"
| "flag_entries path (Suc i) cnt = do {
     c \<leftarrow> load path i;
     (if c \<noteq> 0 then flag_entries path i cnt
      else do {
        is_dots \<leftarrow> strcmp path (i + 1) [46, 46, 0] 0;
        (if is_dots then do {
           path1 \<leftarrow> store path (i + 1) 1;
           flag_entries path1 i (cnt + 1) }
         else if cnt \<noteq> 0 then do {
           path1 \<leftarrow> store path (i + 1) 1;
           flag_entries path1 i (cnt - 1) }
         else flag_entries path i cnt) }) }"

function copy_entries :: "u8 list \<Rightarrow> nat \<Rightarrow> nat \<Rightarrow> u8 list \<Rightarrow> u8 list option" where
  "copy_entries path l i line_buf =
     (if i < l then do {
        b1 \<leftarrow> store line_buf i 47;
        c \<leftarrow> load path (i + 1);
        b2 \<leftarrow> (if c \<noteq> 1 then do {
                 n \<leftarrow> strlen b1 0;
                 strcpy b1 n path (i + 1) }
               else Some b1);
        k \<leftarrow> strlen path (i + 1);
        copy_entries path l (i + 1 + k) b2 }
      else Some line_buf)"
  by pat_completeness auto
termination by (relation "measure (\<lambda>(path, l, i, line_buf). l - i)") auto

declare copy_entries.simps [simp del]

definition zero_slashes :: "u8 list \<Rightarrow> nat \<Rightarrow> u8 list" where
  "zero_slashes path l = map (\<lambda>c. if c = 47 then 0 else c) (take l path) @ drop l path"

definition path_double_dot :: "u8 list \<Rightarrow> u8 list option" where
  "path_double_dot path = do {
     l \<leftarrow> strlen path 0;
     path1 \<leftarrow> flag_entries (zero_slashes path l) l 0;
     line_buf \<leftarrow> copy_entries path1 l 0 (replicate 128 0);
     path2 \<leftarrow> strcpy path1 0 line_buf 0;
     n \<leftarrow> strlen line_buf 0;
     store path2 n 0 }"

fun skip_slashes :: "u8 list \<Rightarrow> nat \<Rightarrow> u8 list option" where
  "skip_slashes path 0 = Some path"
| "skip_slashes path (Suc i) = do {
     c \<leftarrow> load path (Suc i);
     (if c = 47 then skip_slashes (path[Suc i := 0]) i else Some path) }"

definition skip_last_slash :: "u8 list \<Rightarrow> u8 list option" where
  "skip_last_slash path = do {
     l \<leftarrow> strlen path 0;
     skip_slashes path (l - 1) }"

definition format_path :: "u8 list \<Rightarrow> u8 list \<Rightarrow> u8 list \<Rightarrow> u8 list option" where
  "format_path dir path new_path = do {
     p1 \<leftarrow> path_relative2abs dir path new_path;
     p2 \<leftarrow> path_double_dot p1;
     skip_last_slash p2 }"

section \<open>The shell\<close>

record terminal =
  t_uid :: int
  t_username :: "u8 list"
  t_cur_dir :: "u8 list"
  t_old_dir :: "u8 list"
  t_line :: "u8 list"
  t_line_idx :: u8
  t_argv :: "u32 list"
  t_argc :: u8

text \<open>\<open>memset\<close> of the array of nine pointers clears nine bytes: the first two pointers and the low byte of
  the third.\<close>

definition clear_argv :: "u32 list \<Rightarrow> u32 list" where
  "clear_argv as = as[0 := 0, 1 := 0, 2 := as ! 2 AND 0xffffff00]"

definition new_terminal :: "terminal \<Rightarrow> u8 list \<Rightarrow> terminal option" where
  "new_terminal garbage dir = do {
     u \<leftarrow> memset (t_username garbage) 0 0 32;
     c \<leftarrow> memset (t_cur_dir garbage) 0 0 64;
     d \<leftarrow> memset (t_old_dir garbage) 0 0 64;
     l \<leftarrow> memset (t_line garbage) 0 0 128;
     c1 \<leftarrow> strcpy c 0 dir 0;
     d1 \<leftarrow> strcpy d 0 c1 0;
     Some (garbage\<lparr>t_uid := -1, t_username := u, t_cur_dir := c1, t_old_dir := d1, t_line := l,
       t_argv := clear_argv (t_argv garbage), t_line_idx := 0, t_argc := 0\<rparr>) }"

definition reset_terminal :: "terminal \<Rightarrow> terminal option" where
  "reset_terminal t = do {
     l \<leftarrow> memset (t_line t) 0 0 128;
     Some (t\<lparr>t_line := l, t_line_idx := 0, t_argv := clear_argv (t_argv t), t_argc := 0\<rparr>) }"

text \<open>The two loops of \<open>format_input\<close>: spaces become zeros up to the end of the text, and the positions
  behind zeros become arguments. The search for the start of a word goes on behind the line.\<close>

function blank_spaces :: "u8 list \<Rightarrow> nat \<Rightarrow> u8 list option" where
  "blank_spaces line i =
     (if length line \<le> i then None
      else if line ! i = 0 then Some line
      else blank_spaces (if line ! i = 32 then line[i := 0] else line) (Suc i))"
  by pat_completeness auto
termination by (relation "measure (\<lambda>(line, i). length line - i)") auto

function next_word :: "u8 list \<Rightarrow> nat \<Rightarrow> bool \<Rightarrow> (nat \<times> bool) option" where
  "next_word line i is_head =
     (if length line \<le> i then None
      else if line ! i = 0 then next_word line (Suc i) True
      else Some (i, is_head))"
  by pat_completeness auto
termination by (relation "measure (\<lambda>(line, i, is_head). length line - i)") auto

declare blank_spaces.simps [simp del] next_word.simps [simp del]

lemma next_word_ge: "next_word line i is_head = Some (j, h) \<Longrightarrow> i \<le> j \<and> j < length line"
  by (induction line i is_head rule: next_word.induct) (force simp: next_word.simps split: if_splits)

function collect_words :: "u32 \<Rightarrow> u8 list \<Rightarrow> nat \<Rightarrow> nat \<Rightarrow> bool \<Rightarrow> u32 list \<Rightarrow> u8 \<Rightarrow> (u32 list \<times> u8) option" where
  "collect_words la line n i is_head argv argc =
     (if i < n then
        (case next_word line i is_head of
           None \<Rightarrow> None
         | Some (j, head) \<Rightarrow>
             if head then
               (case store argv (unat argc) (la + of_nat j) of
                  None \<Rightarrow> None
                | Some argv1 \<Rightarrow> collect_words la line n (Suc j) False argv1 (argc + 1))
             else collect_words la line n (Suc j) False argv argc)
      else Some (argv, argc))"
  by pat_completeness auto
termination by (relation "measure (\<lambda>(la, line, n, i, is_head, argv, argc). n - i)") (auto dest!: next_word_ge)

declare collect_words.simps [simp del]

definition format_input :: "u32 \<Rightarrow> terminal \<Rightarrow> terminal option" where
  "format_input la t = do {
     l \<leftarrow> blank_spaces (t_line t) 0;
     (argv, argc) \<leftarrow> collect_words la l (unat (t_line_idx t)) 0 True (t_argv t) (t_argc t);
     Some (t\<lparr>t_line := l, t_argv := argv, t_argc := argc - 1\<rparr>) }"

text \<open>The text that the \<open>k\<close>-th argument points to.\<close>

definition arg :: "u32 \<Rightarrow> u8 list \<Rightarrow> terminal \<Rightarrow> nat \<Rightarrow> u8 list option" where
  "arg la low t k = do {
     a \<leftarrow> load (t_argv t) k;
     (if a = 0 then Some low
      else if la \<le> a \<and> unat (a - la) < length (t_line t) then Some (drop (unat (a - la)) (t_line t))
      else None) }"

datatype command = Ps | Pwd | Cd "u8 list" | Ls "u8 list" | Mkdir "u8 list" | Rmdir "u8 list" | Meminfo | Cat "u8 list"
  | Useradd "u8 list" "u8 list" | Userdel "u8 list" | Userdel_refused | Cpfile "u8 list" "u8 list" | Mvfile "u8 list" "u8 list"
  | Last | Exit | Halt | Poweroff | Reboot | Id | Chmod "u8 list" "u8 list" | Chown "u8 list" "u8 list" | Clear
  | Ping "u8 list" | Showarptbl | Ifconfig | Network "u8 list" "u8 list" | Unrecognized

text \<open>The names of the commands, in the order in which they are compared.\<close>

definition command_names :: "u8 list list" where
  "command_names = [
     [112, 115], [112, 119, 100], [99, 100], [108, 115], [109, 107, 100, 105, 114], [114, 109, 100, 105, 114],
     [109, 101, 109, 105, 110, 102, 111], [99, 97, 116], [117, 115, 101, 114, 97, 100, 100], [117, 115, 101, 114, 100, 101, 108],
     [99, 112, 102, 105, 108, 101], [109, 118, 102, 105, 108, 101], [108, 97, 115, 116], [101, 120, 105, 116], [104, 97, 108, 116],
     [112, 111, 119, 101, 114, 111, 102, 102], [114, 101, 98, 111, 111, 116], [105, 100], [99, 104, 109, 111, 100],
     [99, 104, 111, 119, 110], [99, 108, 101, 97, 114], [112, 105, 110, 103], [115, 104, 111, 119, 97, 114, 112, 116, 98, 108],
     [105, 102, 99, 111, 110, 102, 105, 103], [110, 101, 116, 119, 111, 114, 107]]"

fun match_command :: "u8 list \<Rightarrow> u8 list list \<Rightarrow> nat \<Rightarrow> nat option" where
  "match_command word [] k = Some k"
| "match_command word (nm # nms) k = do {
     e \<leftarrow> strcmp word 0 (nm @ [0]) 0;
     (if e then Some k else match_command word nms (Suc k)) }"

definition zero_path :: "u8 list" where
  "zero_path = replicate 64 0"

definition change_dir :: "terminal \<Rightarrow> u8 list \<Rightarrow> terminal option" where
  "change_dir t abs_path = do {
     d0 \<leftarrow> memset (t_old_dir t) 0 0 64;
     d \<leftarrow> strcpy d0 0 (t_cur_dir t) 0;
     c0 \<leftarrow> memset (t_cur_dir t) 0 0 64;
     c \<leftarrow> strcpy c0 0 abs_path 0;
     Some (t\<lparr>t_old_dir := d, t_cur_dir := c\<rparr>) }"

text \<open>One path as argument, or two.\<close>

definition with_path :: "u32 \<Rightarrow> u8 list \<Rightarrow> terminal \<Rightarrow> nat \<Rightarrow> (u8 list \<Rightarrow> command) \<Rightarrow> (terminal \<times> command) option" where
  "with_path la low t k cmd = do {
     a \<leftarrow> arg la low t k;
     p \<leftarrow> format_path (t_cur_dir t) a zero_path;
     Some (t, cmd p) }"

definition with_paths :: "u32 \<Rightarrow> u8 list \<Rightarrow> terminal \<Rightarrow> (u8 list \<Rightarrow> u8 list \<Rightarrow> command) \<Rightarrow> (terminal \<times> command) option" where
  "with_paths la low t cmd = do {
     a \<leftarrow> arg la low t 1;
     p \<leftarrow> format_path (t_cur_dir t) a zero_path;
     b \<leftarrow> arg la low t 2;
     q \<leftarrow> format_path (t_cur_dir t) b zero_path;
     Some (t, cmd p q) }"

text \<open>The directory that \<open>cd\<close> asks the file server for; \<open>cd_ok\<close> is the server's answer.\<close>

definition handle_cd :: "u32 \<Rightarrow> u8 list \<Rightarrow> (u8 list \<Rightarrow> bool) \<Rightarrow> terminal \<Rightarrow> (terminal \<times> command) option" where
  "handle_cd la low cd_ok t = do {
     a \<leftarrow> arg la low t 1;
     back \<leftarrow> strcmp [45, 0] 0 a 0;
     p \<leftarrow> (if back then strcpy zero_path 0 (t_old_dir t) 0 else format_path (t_cur_dir t) a zero_path);
     t1 \<leftarrow> (if cd_ok p then change_dir t p else Some t);
     Some (t1, Cd p) }"

definition term_exit :: "terminal \<Rightarrow> terminal option" where
  "term_exit t = do {
     c \<leftarrow> memset (t_cur_dir t) 0 0 64;
     d \<leftarrow> memset (t_old_dir t) 0 0 64;
     u \<leftarrow> memset (t_username t) 0 0 32;
     reset_terminal (t\<lparr>t_cur_dir := c, t_old_dir := d, t_uid := 0, t_username := u\<rparr>) }"

definition run_command :: "u32 \<Rightarrow> u8 list \<Rightarrow> (u8 list \<Rightarrow> bool) \<Rightarrow> terminal \<Rightarrow> nat \<Rightarrow> (terminal \<times> command) option" where
  "run_command la low cd_ok t k =
     (if k = 0 then Some (t, Ps)
      else if k = 1 then Some (t, Pwd)
      else if k = 2 then handle_cd la low cd_ok t
      else if k = 3 then with_path la low t 1 Ls
      else if k = 4 then with_path la low t 1 Mkdir
      else if k = 5 then with_path la low t 1 Rmdir
      else if k = 6 then Some (t, Meminfo)
      else if k = 7 then with_path la low t 1 Cat
      else if k = 8 then do { a \<leftarrow> arg la low t 1; b \<leftarrow> arg la low t 2; Some (t, Useradd a b) }
      else if k = 9 then do {
        a \<leftarrow> arg la low t 1;
        is_me \<leftarrow> strcmp a 0 (t_username t) 0;
        Some (t, if is_me then Userdel_refused else Userdel a) }
      else if k = 10 then with_paths la low t Cpfile
      else if k = 11 then with_paths la low t Mvfile
      else if k = 12 then Some (t, Last)
      else if k = 13 then do { t1 \<leftarrow> term_exit t; Some (t1, Exit) }
      else if k = 14 then Some (t, Halt)
      else if k = 15 then Some (t, Poweroff)
      else if k = 16 then Some (t, Reboot)
      else if k = 17 then Some (t, Id)
      else if k = 18 then do { m \<leftarrow> arg la low t 1; with_path la low t 2 (Chmod m) }
      else if k = 19 then do { n \<leftarrow> arg la low t 2; with_path la low t 1 (\<lambda>p. Chown p n) }
      else if k = 20 then Some (t, Clear)
      else if k = 21 then do { a \<leftarrow> arg la low t 1; Some (t, Ping a) }
      else if k = 22 then Some (t, Showarptbl)
      else if k = 23 then Some (t, Ifconfig)
      else if k = 24 then do { a \<leftarrow> arg la low t 1; b \<leftarrow> arg la low t 2; Some (t, Network a b) }
      else Some (t, Unrecognized))"

definition handle_input :: "u32 \<Rightarrow> u8 list \<Rightarrow> (u8 list \<Rightarrow> bool) \<Rightarrow> terminal \<Rightarrow> (terminal \<times> command) option" where
  "handle_input la low cd_ok t0 = do {
     t \<leftarrow> format_input la t0;
     word \<leftarrow> arg la low t 0;
     k \<leftarrow> match_command word command_names 0;
     run_command la low cd_ok t k }"

text \<open>What the loop of \<open>run\<close> does with a key: a backspace is 8 and the return key 13. The command \<open>exit\<close>
  does not come back: it starts the login again, which gets the keys that follow.\<close>

definition run_key :: "u32 \<Rightarrow> u8 list \<Rightarrow> (u8 list \<Rightarrow> bool) \<Rightarrow> terminal \<Rightarrow> u8 \<Rightarrow> (terminal \<times> command option) option" where
  "run_key la low cd_ok t ch =
     (if t_line_idx t = 0 \<and> ch = 8 then Some (t, None)
      else if ch = 8 then do {
        l \<leftarrow> store (t_line t) (unat (t_line_idx t - 1)) 0;
        Some (t\<lparr>t_line_idx := t_line_idx t - 1, t_line := l\<rparr>, None) }
      else if ch \<noteq> 13 then do {
        l \<leftarrow> store (t_line t) (unat (t_line_idx t)) ch;
        Some (t\<lparr>t_line := l, t_line_idx := t_line_idx t + 1\<rparr>, None) }
      else do {
        (t1, cmd) \<leftarrow> handle_input la low cd_ok t;
        t2 \<leftarrow> (if cmd = Exit then Some t1 else reset_terminal t1);
        Some (t2, Some cmd) })"

fun run_keys :: "u32 \<Rightarrow> u8 list \<Rightarrow> (u8 list \<Rightarrow> bool) \<Rightarrow> terminal \<Rightarrow> u8 list \<Rightarrow> (terminal \<times> command list \<times> u8 list) option" where
  "run_keys la low cd_ok t [] = Some (t, [], [])"
| "run_keys la low cd_ok t (ch # chs) = do {
     (t1, c) \<leftarrow> run_key la low cd_ok t ch;
     (if c = Some Exit then Some (t1, [Exit], chs)
      else do {
        (t2, cs, rest) \<leftarrow> run_keys la low cd_ok t1 chs;
        Some (t2, (case c of None \<Rightarrow> cs | Some x \<Rightarrow> x # cs), rest) }) }"

section \<open>Login\<close>

record login_state =
  lg_username :: "u8 list"
  lg_password :: "u8 list"
  lg_is_passwd :: bool
  lg_idx :: u8

definition new_login :: "terminal \<Rightarrow> (terminal \<times> login_state) option" where
  "new_login t = do {
     u \<leftarrow> memset (t_username t) 0 0 32;
     Some (t\<lparr>t_uid := -1, t_username := u\<rparr>, \<lparr>lg_username = replicate 32 0, lg_password = replicate 32 0, lg_is_passwd = False, lg_idx = 0\<rparr>) }"

definition lg_store :: "login_state \<Rightarrow> nat \<Rightarrow> u8 \<Rightarrow> login_state option" where
  "lg_store g i ch =
     (if lg_is_passwd g then map_option (\<lambda>b. g\<lparr>lg_password := b\<rparr>) (store (lg_password g) i ch)
      else map_option (\<lambda>b. g\<lparr>lg_username := b\<rparr>) (store (lg_username g) i ch))"

text \<open>One key of the login. The third component is the result of the attempt, after the second return
  key, and the file system of the server that checks it.\<close>

definition login_key ::
    "fs_state \<Rightarrow> terminal \<Rightarrow> login_state \<Rightarrow> u8 \<Rightarrow> (fs_state \<times> terminal \<times> login_state \<times> int option) option" where
  "login_key s t g ch =
     (if lg_idx g = 0 \<and> ch = 8 then Some (s, t, g, None)
      else if ch = 8 then do {
        g1 \<leftarrow> lg_store g (unat (lg_idx g - 1)) 0;
        Some (s, t, g1\<lparr>lg_idx := lg_idx g - 1\<rparr>, None) }
      else if ch = 13 \<and> \<not> lg_is_passwd g then Some (s, t, g\<lparr>lg_is_passwd := True, lg_idx := 0\<rparr>, None)
      else if ch = 13 then do {
        (uid, s1) \<leftarrow> user_check s (lg_username g) (lg_password g);
        Some (s1, t\<lparr>t_uid := uid\<rparr>, g, Some uid) }
      else do {
        t1 \<leftarrow> (if lg_is_passwd g then Some t
               else map_option (\<lambda>u. t\<lparr>t_username := u\<rparr>) (store (t_username t) (unat (lg_idx g)) ch));
        g1 \<leftarrow> lg_store g (unat (lg_idx g)) ch;
        Some (s, t1, g1\<lparr>lg_idx := lg_idx g + 1\<rparr>, None) })"

fun login :: "fs_state \<Rightarrow> terminal \<Rightarrow> login_state \<Rightarrow> u8 list \<Rightarrow> (fs_state \<times> terminal \<times> (int \<times> u8 list) option) option" where
  "login s t g [] = Some (s, t, None)"
| "login s t g (ch # chs) = do {
     (s1, t1, g1, r) \<leftarrow> login_key s t g ch;
     (case r of None \<Rightarrow> login s1 t1 g1 chs | Some uid \<Rightarrow> Some (s1, t1, Some (uid, chs))) }"

text \<open>After the login: the home directory, the record of the login and the message to the file server.\<close>

definition change_home_dir :: "terminal \<Rightarrow> (terminal \<times> command) option" where
  "change_home_dir t = do {
     is_root \<leftarrow> strcmp (t_username t) 0 root_name 0;
     c \<leftarrow> (if is_root then store (t_cur_dir t) 0 47
           else do {
             c1 \<leftarrow> strcpy (t_cur_dir t) 0 home_prefix 0;
             strcpy c1 6 (t_username t) 0 });
     d \<leftarrow> strcpy (t_old_dir t) 0 c 0;
     Some (t\<lparr>t_cur_dir := c, t_old_dir := d\<rparr>, Cd c) }"

text \<open>The format is "User: %s Date: %d-%d-%d %d:%d" and a newline.\<close>

definition log_format :: "u8 list" where
  "log_format = [85, 115, 101, 114, 58, 32, 37, 115, 32, 68, 97, 116, 101, 58, 32, 37, 100, 45, 37, 100, 45, 37, 100, 32, 37, 100, 58, 37, 100, 10, 0]"

definition record_to_log :: "fs_state \<Rightarrow> terminal \<Rightarrow> u64 \<Rightarrow> fs_state option" where
  "record_to_log s t time_n = do {
     let tm = num2time time_n;
     r \<leftarrow> sprintf (replicate 64 0) 0 log_format
            [Text (t_username t), Stdio.Word (year tm), Stdio.Word (ucast (month tm)), Stdio.Word (ucast (day tm)),
             Stdio.Word (ucast (hour tm)), Stdio.Word (ucast (minute tm))];
     (fd, s1) \<leftarrow> open_file s login_log;
     l \<leftarrow> strlen r 0;
     s2 \<leftarrow> write_file s1 (word_of_int fd) r 0 (of_nat l) APPEND;
     close_file s2 (word_of_int fd) }"

section \<open>Built-in commands reach the servers\<close>

lemmas builtin_simps = cd_cmd_def ls_cmd_def cat_cmd_def cp_file_cmd_def mv_file_cmd_def pwd_cmd_def ps_cmd_def meminfo_cmd_def
  halt_cmd_def power_off_cmd_def reboot_cmd_def show_arp_table_cmd_def ifconfig_cmd_def

lemma builtin_commands_reach_operations:
  "fs_serve s mem now d (cd_cmd con a) = map_option (\<lambda>(r, s1). (s1, mem, Reply_value (if r then 1 else 0))) (cd s (mem a))"
  "fs_serve s mem now d (cat_cmd con a) = map_option (\<lambda>_. (s, mem, Reply_same)) (sys_cat s (mem a))"
  "fs_serve s mem now d (cp_file_cmd con a b) = reply_to (copy_file s now (mem a) (mem b)) mem"
  "fs_serve s mem now d (mv_file_cmd con a b) = reply_to (move_file s now (mem a) (mem b)) mem"
  "kr_serve ks m cmos heap con_ret (halt_cmd con) = Some (ks, sys_halt m, No_reply)"
  "kr_serve ks m cmos heap con_ret (power_off_cmd con) = Some (ks, sys_power_off m, No_reply)"
  "kr_serve ks m cmos heap con_ret (reboot_cmd con) = Some (ks, sys_reboot m, No_reply)"
  by (simp_all add: builtin_simps fs_serve_def fs_handle_def kr_serve_def kr_handle_def map_conv_bind_option case_prod_unfold comp_def)

section \<open>What becomes of a path\<close>

text \<open>The entries of a path; a path of no entries is the root.\<close>

definition abs_text :: "u8 list list \<Rightarrow> u8 list" where
  "abs_text cs = concat (map (Cons 47) cs)"

definition path_text :: "u8 list list \<Rightarrow> u8 list" where
  "path_text cs = (if cs = [] then [47] else abs_text cs)"

definition dots :: "u8 list" where
  "dots = [46, 46]"

definition name_ok :: "u8 list \<Rightarrow> bool" where
  "name_ok c \<longleftrightarrow> c \<noteq> [] \<and> hd c \<noteq> 1 \<and> 0 \<notin> set c \<and> 47 \<notin> set c"

definition zeroed :: "u8 list list \<Rightarrow> u8 list" where
  "zeroed cs = concat (map (Cons 0) cs)"

definition flagged :: "u8 list \<Rightarrow> u8 list" where
  "flagged c = 1 # tl c"

fun mark_rev :: "u8 list list \<Rightarrow> nat \<Rightarrow> u8 list list" where
  "mark_rev [] n = []"
| "mark_rev (c # cs) n =
     (if c = dots then flagged c # mark_rev cs (Suc n)
      else if n \<noteq> 0 then flagged c # mark_rev cs (n - 1)
      else c # mark_rev cs n)"

lemma text_append [simp]:
  "abs_text [] = []" "abs_text (c # cs) = 47 # c @ abs_text cs" "abs_text (cs @ ds) = abs_text cs @ abs_text ds"
  "zeroed [] = []" "zeroed (c # cs) = 0 # c @ zeroed cs" "zeroed (cs @ ds) = zeroed cs @ zeroed ds"
  by (simp_all add: abs_text_def zeroed_def)

lemma entry_ok_flagged: "name_ok c \<Longrightarrow> length (flagged c) = length c \<and> 0 \<notin> set (flagged c)"
  by (cases c) (auto simp: name_ok_def flagged_def)

lemma length_zeroed: "length (zeroed cs) = length (abs_text cs)"
  by (induction cs) simp_all

lemma abs_text_no_zero: "\<forall>c \<in> set cs. name_ok c \<Longrightarrow> 0 \<notin> set (abs_text cs)"
  by (induction cs) (auto simp: name_ok_def)

lemma zero_slashes_abs_text:
  "\<forall>c \<in> set cs. name_ok c \<Longrightarrow> zero_slashes (abs_text cs @ z) (length (abs_text cs)) = zeroed cs @ z"
proof (induction cs)
  case (Cons c cs)
  then have "map (\<lambda>c. if c = 47 then 0 else c) c = c" by (intro map_idI) (auto simp: name_ok_def)
  with Cons show ?case by (simp add: zero_slashes_def)
qed (simp add: zero_slashes_def)

lemma flag_skip: "0 \<notin> set c \<Longrightarrow> flag_entries (a @ c @ b) (length a + length c) n = flag_entries (a @ c @ b) (length a) n"
proof (induction c arbitrary: b rule: rev_induct)
  case (snoc x c)
  then show ?case using snoc.IH [of "x # b"] by (simp add: load_def nth_append)
qed simp

lemma flag_entry:
  assumes "name_ok c"
  shows "flag_entries (a @ 0 # c @ 0 # b) (Suc (length a + length c)) n =
    (if c = dots then flag_entries (a @ 0 # flagged c @ 0 # b) (length a) (Suc n)
     else if n \<noteq> 0 then flag_entries (a @ 0 # flagged c @ 0 # b) (length a) (n - 1)
     else flag_entries (a @ 0 # c @ 0 # b) (length a) n)"
proof -
  let ?p = "a @ 0 # c @ 0 # b"
  have c: "c \<noteq> []" "0 \<notin> set c" using assms by (simp_all add: name_ok_def)
  have skip: "flag_entries ?p (Suc (length a + length c)) n = flag_entries ?p (Suc (length a)) n"
    using flag_skip [OF c(2), of "a @ [0]" "0 # b" n] by simp
  have cmp: "strcmp ?p (Suc (length a)) [46, 46, 0] 0 = Some (c = dots)"
    using strcmp_cstr [OF cstr_append [OF c(2), of "a @ [0]" b] cstr_append [of "[46, 46]" "[]" "[]"]] by (simp add: dots_def)
  have st: "store ?p (Suc (length a)) 1 = Some (a @ 0 # flagged c @ 0 # b)"
    using c(1) by (cases c) (simp_all add: store_def list_update_append flagged_def)
  show ?thesis unfolding skip using cmp st by (cases "c = dots"; cases "n = 0") (simp_all add: load_def nth_append)
qed

lemma flag_entries_mark:
  assumes "\<forall>c \<in> set cs. name_ok c"
  shows "flag_entries (zeroed cs @ 0 # z) (length (zeroed cs)) n = Some (zeroed (rev (mark_rev (rev cs) n)) @ 0 # z)"
  using assms
proof (induction cs arbitrary: n z rule: rev_induct)
  case (snoc c cs)
  have e: "name_ok c" using snoc.prems by simp
  let ?f = "\<lambda>x m. flag_entries (zeroed cs @ 0 # x @ 0 # z) (length (zeroed cs)) m = Some (zeroed (rev (mark_rev (rev cs) m)) @ 0 # x @ 0 # z)"
  have "?f c n" "?f (flagged c) (Suc n)" "?f (flagged c) (n - 1)"
    using snoc.IH [of "c @ 0 # z"] snoc.IH [of "flagged c @ 0 # z"] snoc.prems by auto
  then show ?case using flag_entry [OF e, of "zeroed cs" z n]
    by (cases "c = dots"; cases "n = 0") (simp_all del: flag_entries.simps)
qed simp

lemma mark_plain: "dots \<notin> set cs \<Longrightarrow> mark_rev cs n = map flagged (take n cs) @ drop n cs"
proof (induction cs arbitrary: n)
  case (Cons c cs)
  then show ?case by (cases n) auto
qed simp

lemma mark_dots: "mark_rev (replicate k dots @ cs) n = replicate k (flagged dots) @ mark_rev cs (n + k)"
  by (induction k arbitrary: n) simp_all

lemma copy_kept_entry:
  assumes "name_ok c" and "length t = length pre" and "0 \<notin> set t" and "length pre < l" and "Suc (length c) < m"
  shows "copy_entries (pre @ 0 # c @ 0 # b) l (length pre) (t @ replicate m 0)
    = copy_entries (pre @ 0 # c @ 0 # b) l (Suc (length pre + length c)) (t @ 47 # c @ replicate (m - Suc (length c)) 0)"
proof -
  let ?p = "pre @ 0 # c @ 0 # b"
  obtain m' where m: "m = Suc (length c + Suc m')" using assms(5) less_iff_Suc_add [of "Suc (length c)" m] by auto
  have c: "c \<noteq> []" "hd c \<noteq> 1" "0 \<notin> set c" using assms(1) by (simp_all add: name_ok_def)
  let ?b1 = "t @ 47 # replicate (length c + Suc m') 0"
  have s1: "store (t @ replicate m 0) (length pre) 47 = Some ?b1" using assms(2) m by (simp add: store_def list_update_append)
  have ld: "load ?p (Suc (length pre)) = Some (hd c)" using c(1) by (cases c) (simp_all add: load_def nth_append)
  have n: "strlen ?b1 0 = Some (Suc (length t))"
    using strlen_cstr [OF cstr_append [of "t @ [47]" "[]" "replicate (length c + m') 0"]] assms(3) by simp
  have cp: "cstr ?p (Suc (length pre)) c" using cstr_append [OF c(3), of "pre @ [0]" b] by simp
  have "strcpy ?b1 (Suc (length t)) ?p (Suc (length pre)) = Some (put ?b1 (Suc (length t)) c)" by (rule strcpy_cstr [OF cp]) simp
  also have "put ?b1 (Suc (length t)) c = t @ 47 # c @ replicate (Suc m') 0"
    by (simp add: put_def del: add_Suc_right replicate.simps)
  finally have cy: "strcpy ?b1 (Suc (length t)) ?p (Suc (length pre)) = Some (t @ 47 # c @ replicate (Suc m') 0)" .
  show ?thesis
    by (subst copy_entries.simps) (use assms(2,4) c(2) s1 ld n cy strlen_cstr [OF cp] in \<open>simp add: m\<close>)
qed

lemma copy_kept:
  assumes "\<forall>c \<in> set ks. name_ok c" and "length t = length pre" and "0 \<notin> set t" and "length pre + length (abs_text ks) \<le> l"
    and "length (abs_text ks) < m"
  shows "copy_entries (pre @ zeroed ks @ 0 # z) l (length pre) (t @ replicate m 0)
    = copy_entries (pre @ zeroed ks @ 0 # z) l (length pre + length (abs_text ks)) (t @ abs_text ks @ replicate (m - length (abs_text ks)) 0)"
  using assms
proof (induction ks arbitrary: pre t m)
  case (Cons c ks)
  have e: "name_ok c" "\<forall>c \<in> set ks. name_ok c" using Cons.prems(1) by simp_all
  obtain b where b: "zeroed ks @ 0 # z = 0 # b" by (cases ks) auto
  have "copy_entries (pre @ 0 # c @ 0 # b) l (length pre) (t @ replicate m 0)
    = copy_entries (pre @ 0 # c @ 0 # b) l (Suc (length pre + length c)) (t @ 47 # c @ replicate (m - Suc (length c)) 0)"
    using Cons.prems e(1) by (intro copy_kept_entry) auto
  moreover have "copy_entries ((pre @ 0 # c) @ zeroed ks @ 0 # z) l (length (pre @ 0 # c)) ((t @ 47 # c) @ replicate (m - Suc (length c)) 0)
    = copy_entries ((pre @ 0 # c) @ zeroed ks @ 0 # z) l (length (pre @ 0 # c) + length (abs_text ks))
        ((t @ 47 # c) @ abs_text ks @ replicate (m - Suc (length c) - length (abs_text ks)) 0)"
    using Cons.prems e by (intro Cons.IH) (auto simp: name_ok_def)
  ultimately show ?case using b by (simp add: algebra_simps)
qed simp

lemma copy_flagged:
  assumes "\<forall>c \<in> set fs. name_ok c" and "length pre + length (abs_text fs) = l" and "l < length B"
  shows "\<exists>B'. copy_entries (pre @ zeroed (map flagged fs) @ 0 # z) l (length pre) B = Some B' \<and> length B' = length B
    \<and> (\<forall>j < length pre. B' ! j = B ! j) \<and> (fs \<noteq> [] \<longrightarrow> B' ! length pre = 47 \<and> B' ! Suc (length pre) = B ! Suc (length pre))
    \<and> (fs = [] \<longrightarrow> B' = B)"
  using assms
proof (induction fs arbitrary: pre B)
  case Nil
  then show ?case by (simp add: copy_entries.simps)
next
  case (Cons c fs)
  have e: "name_ok c" "\<forall>c \<in> set fs. name_ok c" using Cons.prems(1) by simp_all
  obtain b where b: "zeroed (map flagged fs) @ 0 # z = 0 # b" by (cases fs) auto
  let ?p = "pre @ 0 # flagged c @ 0 # b" and ?B = "B[length pre := 47]"
  note f = entry_ok_flagged [OF e(1)]
  have k: "strlen ?p (Suc (length pre)) = Some (length c)"
    using strlen_cstr [OF cstr_append [of "flagged c" "pre @ [0]" b]] f by simp
  have "load ?p (Suc (length pre)) = Some 1" by (simp add: load_def nth_append flagged_def)
  then have step: "copy_entries ?p l (length pre) B = copy_entries ?p l (Suc (length pre + length c)) ?B"
    using Cons.prems(2,3) k by (subst copy_entries.simps) (simp add: store_def)
  have lc: "0 < length c" using e(1) by (simp add: name_ok_def)
  obtain B' where B': "copy_entries ((pre @ 0 # flagged c) @ zeroed (map flagged fs) @ 0 # z) l (length (pre @ 0 # flagged c)) ?B = Some B'"
    "length B' = length ?B" "\<forall>j < length (pre @ 0 # flagged c). B' ! j = ?B ! j"
    using Cons.IH [of "pre @ 0 # flagged c" ?B] e(2) Cons.prems(2,3) f by auto
  have "copy_entries ?p l (length pre) B = Some B'" using step B'(1) b f by simp
  moreover have "B' ! length pre = 47" "B' ! Suc (length pre) = B ! Suc (length pre)" "\<forall>j < length pre. B' ! j = B ! j"
    using B'(3) f lc Cons.prems(2,3) by auto
  ultimately show ?case using B'(2) b by simp
qed

lemma dots_ok: "name_ok dots"
  by (simp add: name_ok_def dots_def)

lemma entries_marked:
  assumes "dots \<notin> set xs"
  shows "rev (mark_rev (rev (xs @ replicate n dots)) 0)
    = take (length xs - n) xs @ map flagged (drop (length xs - n) xs @ replicate n dots)"
  using assms by (simp add: mark_dots mark_plain rev_map rev_drop rev_take)

lemma length_zeroed_flagged: "\<forall>c \<in> set fs. name_ok c \<Longrightarrow> length (zeroed (map flagged fs)) = length (abs_text fs)"
  by (induction fs) (simp_all add: entry_ok_flagged)

text \<open>When only entries at the end are marked, the copy is the text of the others, and a slash.\<close>

lemma copy_marked:
  assumes "\<forall>c \<in> set ks. name_ok c" and "\<forall>c \<in> set fs. name_ok c" and "length (abs_text (ks @ fs)) < 64"
  shows "\<exists>B. copy_entries (zeroed (ks @ map flagged fs) @ 0 # z) (length (abs_text (ks @ fs))) 0 (replicate 128 0) = Some B
    \<and> cstr B 0 (abs_text ks @ (if fs = [] then [] else [47]))"
proof -
  let ?l = "length (abs_text (ks @ fs))" and ?p = "zeroed (ks @ map flagged fs) @ 0 # z"
  let ?B0 = "abs_text ks @ replicate (128 - length (abs_text ks)) 0"
  obtain zz where zz: "zeroed (map flagged fs) @ 0 # z = 0 # zz" by (cases fs) auto
  have kept: "copy_entries ?p ?l 0 (replicate 128 0) = copy_entries ?p ?l (length (zeroed ks)) ?B0"
    using copy_kept [OF assms(1), of "[]" "[]" ?l 128 zz] assms(3) zz by (simp add: length_zeroed)
  obtain B where B: "copy_entries ?p ?l (length (zeroed ks)) ?B0 = Some B"
    "length B = 128" "\<forall>j < length (abs_text ks). B ! j = abs_text ks ! j"
    "fs \<noteq> [] \<longrightarrow> B ! length (abs_text ks) = 47 \<and> B ! Suc (length (abs_text ks)) = 0" "fs = [] \<longrightarrow> B = ?B0"
  proof -
    have "length (abs_text fs) < 128 - length (abs_text ks)" using assms(3) by simp
    then show ?thesis
      using that copy_flagged [OF assms(2), of "zeroed ks" ?l ?B0 z] assms(3) by (auto simp: length_zeroed nth_append)
  qed
  have "cstr B 0 (abs_text ks @ (if fs = [] then [] else [47]))"
    using B(2-5) abs_text_no_zero [OF assms(1)] assms(3) by (auto simp: cstr_def nth_append less_Suc_eq)
  then show ?thesis using kept B(1) by auto
qed

lemma path_double_dot_trailing:
  assumes "\<forall>c \<in> set xs. name_ok c" and "dots \<notin> set xs" and "length (abs_text (xs @ replicate n dots)) < 64"
  shows "\<exists>p. path_double_dot (put zero_path 0 (abs_text (xs @ replicate n dots))) = Some p
    \<and> cstr p 0 (abs_text (take (length xs - n) xs) @ (if n = 0 then [] else [47]))"
proof -
  define ks where "ks = take (length xs - n) xs"
  define fs where "fs = drop (length xs - n) xs @ replicate n dots"
  have cs: "xs @ replicate n dots = ks @ fs" and fs0: "fs = [] \<longleftrightarrow> n = 0" by (auto simp: ks_def fs_def)
  let ?a = "abs_text (ks @ fs)" and ?T = "abs_text ks @ (if fs = [] then [] else [47])"
  have len: "length ?a < 64" using assms(3) cs by simp
  have ok: "\<forall>c \<in> set (ks @ fs). name_ok c" using assms(1) dots_ok unfolding cs [symmetric] by auto
  then have kf: "\<forall>c \<in> set ks. name_ok c" "\<forall>c \<in> set fs. name_ok c" by auto
  define z where "z = replicate (63 - length ?a) (0 :: u8)"
  have "64 - length ?a = Suc (63 - length ?a)" using len by simp
  then have put0: "put zero_path 0 ?a = ?a @ 0 # z" by (simp add: put_def zero_path_def z_def)
  have l: "strlen (?a @ 0 # z) 0 = Some (length ?a)"
    using strlen_cstr [OF cstr_append [OF abs_text_no_zero [OF ok], of "[]" z]] by simp
  let ?p1 = "zeroed (ks @ map flagged fs) @ 0 # z"
  have fl: "flag_entries (zero_slashes (?a @ 0 # z) (length ?a)) (length ?a) 0 = Some ?p1"
    using flag_entries_mark [OF ok, of z 0] zero_slashes_abs_text [OF ok, of "0 # z"] entries_marked [OF assms(2), of n]
    by (simp add: length_zeroed ks_def [symmetric] fs_def [symmetric] cs del: text_append rev_append)
  obtain B where B: "copy_entries ?p1 (length ?a) 0 (replicate 128 0) = Some B" "cstr B 0 ?T"
    using copy_marked [OF kf len] by blast
  have lT: "length ?T \<le> length ?a" by (cases fs) auto
  have lp: "length ?p1 = 64" using len length_zeroed_flagged [OF kf(2)] by (simp add: z_def length_zeroed)
  have "strcpy ?p1 0 B 0 = Some (put ?p1 0 ?T)" using strcpy_cstr [OF B(2), of 0 ?p1] lT lp len by simp
  moreover have "cstr ((put ?p1 0 ?T)[length ?T := 0]) 0 ?T" using lT lp len B(2) by (auto simp: cstr_def nth_put)
  ultimately have "\<exists>p. path_double_dot (put zero_path 0 ?a) = Some p \<and> cstr p 0 ?T"
    using put0 l fl B(1) strlen_cstr [OF B(2)] lp lT len by (simp add: path_double_dot_def store_def)
  then show ?thesis unfolding cs fs0 ks_def .
qed

lemma skip_last_slash_text:
  assumes "\<forall>c \<in> set ks. name_ok c" and "cstr p 0 (abs_text ks @ (if n = 0 then [] else [47]))" and "n = 0 \<Longrightarrow> ks \<noteq> []"
  shows "\<exists>p'. skip_last_slash p = Some p' \<and> cstr p' 0 (path_text ks)"
proof (cases "ks = []")
  case True
  then have "cstr p 0 [47]" using assms(2,3) by (simp split: if_splits)
  then show ?thesis using True strlen_cstr [of p 0 "[47]"] by (simp add: skip_last_slash_def path_text_def)
next
  case False
  then obtain xs c where ks: "ks = xs @ [c]" by (cases ks rule: rev_cases) auto
  then obtain y d where y: "abs_text ks = y @ [d]" "d \<noteq> 47" "y \<noteq> []"
    using assms(1) by (cases c rule: rev_cases) (auto simp: name_ok_def)
  obtain i where i: "length y = Suc i" using y(3) by (cases y) auto
  show ?thesis
  proof (cases "n = 0")
    case True
    then have c: "cstr p 0 (y @ [d])" using assms(2) y(1) by simp
    then have "load p (Suc i) = Some d" using i by (auto simp: cstr_def load_def nth_append)
    then have "skip_last_slash p = Some p" using strlen_cstr [OF c] i y(2) by (simp add: skip_last_slash_def)
    then show ?thesis using c y(1) False by (simp add: path_text_def)
  next
    case False
    then have c: "cstr p 0 (y @ [d, 47])" using assms(2) y(1) by simp
    then have v: "Suc (Suc i) < length p" "p ! Suc (Suc i) = 47" "p ! Suc i = d"
      using i spec [of "\<lambda>k. k < length (y @ [d, 47]) \<longrightarrow> p ! (0 + k) = (y @ [d, 47]) ! k" "Suc (Suc i)"]
        spec [of "\<lambda>k. k < length (y @ [d, 47]) \<longrightarrow> p ! (0 + k) = (y @ [d, 47]) ! k" "Suc i"] by (auto simp: cstr_def nth_append)
    then have "skip_last_slash p = Some (p[Suc (Suc i) := 0])"
      using strlen_cstr [OF c] i y(2) by (simp add: skip_last_slash_def load_def)
    moreover have "cstr (p[Suc (Suc i) := 0]) 0 (y @ [d])" using c i v(1) by (auto simp: cstr_def nth_append nth_list_update)
    ultimately show ?thesis using y(1) \<open>ks \<noteq> []\<close> by (simp add: path_text_def)
  qed
qed

lemma abs_text_first:
  assumes "\<forall>c \<in> set es. name_ok c" and "es \<noteq> []"
  shows "\<exists>x rest. abs_text es = 47 # x # rest \<and> x \<noteq> 0 \<and> x \<noteq> 47"
  using assms by (cases es; cases "hd es") (auto simp: name_ok_def)

lemma cstr_first: "cstr b 0 (x # xs) \<Longrightarrow> load b 0 = Some x"
  by (auto simp: cstr_def load_def)

lemma relative_path:
  assumes "cstr dir 0 (path_text ds)" and "cstr rel 0 (tl (abs_text es))" and "\<forall>c \<in> set es. name_ok c" and "es \<noteq> []"
    and "length (abs_text (ds @ es)) < 64" and "\<forall>c \<in> set ds. name_ok c"
  shows "path_relative2abs dir rel zero_path = Some (put zero_path 0 (abs_text (ds @ es)))"
proof -
  obtain x rest where x: "abs_text es = 47 # x # rest" "x \<noteq> 0" "x \<noteq> 47" using abs_text_first [OF assms(3,4)] by blast
  have r: "load rel 0 = Some x" "cstr rel 0 (x # rest)" using cstr_first [of rel x rest] assms(2) x(1) by simp_all
  have c1: "strcpy zero_path 0 dir 0 = Some (put zero_path 0 (path_text ds))"
    using strcpy_cstr [OF assms(1), of 0 zero_path] assms(5) x(1) by (simp add: zero_path_def path_text_def)
  have root: "strcmp dir 0 [47, 0] 0 = Some (ds = [])"
  proof -
    have "path_text ds = [47] \<longleftrightarrow> ds = []" using assms(6) by (cases ds) (auto simp: path_text_def name_ok_def)
    then show ?thesis using strcmp_cstr [OF assms(1) cstr_append [of "[47]" "[]" "[]"]] by simp
  qed
  have l: "strlen dir 0 = Some (length (path_text ds))" using strlen_cstr [OF assms(1)] .
  show ?thesis
  proof (cases "ds = []")
    case True
    then have "strcpy (put zero_path 0 [47]) 1 rel 0 = Some (put (put zero_path 0 [47]) 1 (x # rest))"
      using strcpy_cstr [OF r(2), of 1 "put zero_path 0 [47]"] assms(5) x(1) by (simp add: zero_path_def)
    also have "put (put zero_path 0 [47]) 1 (x # rest) = put zero_path 0 (47 # x # rest)"
      using assms(5) x(1) True by (simp add: put_def zero_path_def)
    finally show ?thesis using True r x c1 root l by (simp add: path_relative2abs_def path_text_def)
  next
    case False
    let ?d = "abs_text ds"
    have "store (put zero_path 0 ?d) (length ?d) 47 = Some (put zero_path 0 (?d @ [47]))"
      using assms(5) x(1) store_put_snoc [of 0 ?d zero_path 47] by (simp add: zero_path_def)
    moreover have "strcpy (put zero_path 0 (?d @ [47])) (Suc (length ?d)) rel 0 = Some (put zero_path 0 (?d @ 47 # x # rest))"
      using strcpy_cstr [OF r(2), of "Suc (length ?d)" "put zero_path 0 (?d @ [47])"] assms(5) x(1)
      by (simp add: zero_path_def put_def)
    ultimately show ?thesis using False r x c1 root l by (simp add: path_relative2abs_def path_text_def)
  qed
qed

lemma absolute_path:
  assumes "cstr path 0 (abs_text es)" and "\<forall>c \<in> set es. name_ok c" and "es \<noteq> []" and "length (abs_text es) < 64"
  shows "path_relative2abs dir path zero_path = Some (put zero_path 0 (abs_text es))"
proof -
  obtain x rest where "abs_text es = 47 # x # rest" using abs_text_first [OF assms(2,3)] by blast
  then show ?thesis
    using cstr_first [of path 47 "x # rest"] strcpy_cstr [OF assms(1), of 0 zero_path] assms(1,4)
    by (simp add: path_relative2abs_def zero_path_def)
qed

lemma format_path_trailing:
  assumes "\<forall>c \<in> set xs. name_ok c" and "dots \<notin> set xs" and "length (abs_text (xs @ replicate n dots)) < 64"
    and "xs @ replicate n dots \<noteq> []"
    and "path_relative2abs dir path zero_path = Some (put zero_path 0 (abs_text (xs @ replicate n dots)))"
  shows "\<exists>p. format_path dir path zero_path = Some p \<and> cstr p 0 (path_text (take (length xs - n) xs))"
proof -
  obtain p where p: "path_double_dot (put zero_path 0 (abs_text (xs @ replicate n dots))) = Some p"
    "cstr p 0 (abs_text (take (length xs - n) xs) @ (if n = 0 then [] else [47]))"
    using path_double_dot_trailing [OF assms(1-3)] by blast
  moreover have "\<forall>c \<in> set (take (length xs - n) xs). name_ok c" using assms(1) by (auto dest: in_set_takeD)
  ultimately show ?thesis
    using skip_last_slash_text [of "take (length xs - n) xs" p n] assms(4,5) by (auto simp: format_path_def)
qed

text \<open>C18: the shell finds the meant directory: a relative path of entries that is followed by some
  \<open>..\<close> is appended to the current directory and as many entries are taken off the end, at
  most all of them; an absolute path is treated in the same way without the current directory.\<close>

theorem format_path_resolves:
  assumes "cstr dir 0 (path_text ds)" and "\<forall>c \<in> set (ds @ ys). name_ok c" and "dots \<notin> set (ds @ ys)"
    and "ys @ replicate n dots \<noteq> []" and "length (abs_text (ds @ ys @ replicate n dots)) < 64"
    and "cstr rel 0 (tl (abs_text (ys @ replicate n dots)))" and "cstr ab 0 (abs_text (ys @ replicate n dots))"
  shows "(\<exists>p. format_path dir rel zero_path = Some p \<and> cstr p 0 (path_text (take (length (ds @ ys) - n) (ds @ ys))))
    \<and> (\<exists>p. format_path dir ab zero_path = Some p \<and> cstr p 0 (path_text (take (length ys - n) ys)))"
proof -
  have es: "\<forall>c \<in> set (ys @ replicate n dots). name_ok c" using assms(2) dots_ok by auto
  have "path_relative2abs dir rel zero_path = Some (put zero_path 0 (abs_text (ds @ ys @ replicate n dots)))"
    using relative_path [OF assms(1,6) es assms(4,5)] assms(2) by simp
  then have "\<exists>p. format_path dir rel zero_path = Some p \<and> cstr p 0 (path_text (take (length (ds @ ys) - n) (ds @ ys)))"
    using format_path_trailing [OF assms(2,3), of n dir rel] assms(4,5) by simp
  moreover have "\<exists>p. format_path dir ab zero_path = Some p \<and> cstr p 0 (path_text (take (length ys - n) ys))"
    using absolute_path [OF assms(7) es assms(4)] format_path_trailing [of ys n dir ab] assms(2-5) by simp
  ultimately show ?thesis by blast
qed

text \<open>From \<open>/home/me\<close>, the path \<open>a/../..\<close> leads to \<open>/home\<close>.\<close>

theorem format_path_resolves_witness:
  "\<exists>p. format_path [47, 104, 111, 109, 101, 47, 109, 101, 0] [97, 47, 46, 46, 47, 46, 46, 0] zero_path = Some p
     \<and> cstr p 0 [47, 104, 111, 109, 101]"
proof -
  let ?dir = "[47, 104, 111, 109, 101, 47, 109, 101, 0]" and ?ds = "[[104, 111, 109, 101], [109, 101]]"
  have h: "cstr ?dir 0 (path_text ?ds)" "\<forall>c \<in> set (?ds @ [[97]]). name_ok c" "dots \<notin> set (?ds @ [[97]])"
    "[[97]] @ replicate 2 dots \<noteq> []" "length (abs_text (?ds @ [[97]] @ replicate 2 dots)) < 64"
    "cstr [97, 47, 46, 46, 47, 46, 46, 0] 0 (tl (abs_text ([[97]] @ replicate 2 dots)))"
    "cstr [47, 97, 47, 46, 46, 47, 46, 46, 0] 0 (abs_text ([[97]] @ replicate 2 dots))"
    by code_simp+
  have "path_text (take (length (?ds @ [[97]]) - 2) (?ds @ [[97]])) = [47, 104, 111, 109, 101]" by code_simp
  then show ?thesis using format_path_resolves [OF h] by metis
qed

text \<open>A \<open>..\<close> before other entries can run names together: \<open>/x/../bcd/e\<close> becomes \<open>/bcde\<close>.\<close>

lemma dots_in_the_middle:
  "map_option (takeWhile (\<lambda>c. c \<noteq> 0)) (format_path [47, 0] [47, 120, 47, 46, 46, 47, 98, 99, 100, 47, 101, 0] zero_path)
    = Some [47, 98, 99, 100, 101]"
  by code_simp

section \<open>The line\<close>

text \<open>The text that typing leaves: a backspace takes the last character back.\<close>

fun edit :: "u8 list \<Rightarrow> u8 list \<Rightarrow> u8 list" where
  "edit acc [] = acc"
| "edit acc (c # cs) = edit (if c = 8 then butlast acc else acc @ [c]) cs"

definition line_is :: "terminal \<Rightarrow> u8 list \<Rightarrow> bool" where
  "line_is t l \<longleftrightarrow> t_line t = l @ replicate (128 - length l) 0 \<and> unat (t_line_idx t) = length l \<and> length l \<le> 128"

lemma line_snoc:
  assumes "length l < 128"
  shows "(l @ replicate (128 - length l) 0)[length l := c] = (l @ [c]) @ replicate (128 - length (l @ [c])) (0 :: u8)"
proof -
  have "128 - length l = Suc (127 - length l)" using assms by simp
  then show ?thesis by (simp add: list_update_append)
qed

lemma line_butlast:
  assumes "length l \<le> 128" and "l \<noteq> []"
  shows "(l @ replicate (128 - length l) 0)[length l - 1 := 0] = butlast l @ replicate (128 - length (butlast l)) (0 :: u8)"
proof -
  obtain m x where l: "l = m @ [x]" using assms(2) by (cases l rule: rev_cases) auto
  have "128 - length m = Suc (127 - length m)" using assms(1) l by simp
  then show ?thesis by (simp add: l list_update_append)
qed

lemma run_key_edits:
  assumes "line_is t l" and "ch \<noteq> 13" and "ch = 8 \<or> length l < 128"
  shows "\<exists>x i. run_key la low cd_ok t ch = Some (t\<lparr>t_line := x, t_line_idx := i\<rparr>, None)
    \<and> line_is (t\<lparr>t_line := x, t_line_idx := i\<rparr>) (if ch = 8 then butlast l else l @ [ch])"
proof -
  have u: "unat (t_line_idx t) = length l" "t_line t = l @ replicate (128 - length l) 0" using assms(1) by (simp_all add: line_is_def)
  have l: "length l \<le> 128" using assms(1) by (simp add: line_is_def)
  have z: "t_line_idx t = 0 \<longleftrightarrow> l = []" using u(1) by (simp add: word_eq_iff_unat)
  have inc: "unat (t_line_idx t + 1) = Suc (length l)" using unat_add_small [of "t_line_idx t" 1] u(1) l by simp
  have dec: "unat (t_line_idx t - 1) = length l - 1" if "l \<noteq> []"
    using that u(1) by (simp add: unat_minus_one word_eq_iff_unat)
  consider "ch = 8" "l = []" | "ch = 8" "l \<noteq> []" | "ch \<noteq> 8" by blast
  then show ?thesis
  proof cases
    case 1
    then show ?thesis using z assms(1)
      by (rule_tac x = "t_line t" in exI, rule_tac x = "t_line_idx t" in exI) (simp add: run_key_def line_is_def)
  next
    case 2
    then show ?thesis using z u dec l line_butlast [of l]
      by (rule_tac x = "butlast l @ replicate (128 - length (butlast l)) 0" in exI, rule_tac x = "t_line_idx t - 1" in exI)
        (auto simp: run_key_def store_def line_is_def)
  next
    case 3
    then show ?thesis using u inc assms(2,3) line_snoc [of l ch]
      by (rule_tac x = "l @ ch # replicate (127 - length l) 0" in exI, rule_tac x = "t_line_idx t + 1" in exI)
        (auto simp: run_key_def store_def line_is_def)
  qed
qed

lemma run_key_overflows:
  assumes "line_is t l" and "ch \<noteq> 13" and "ch \<noteq> 8" and "length l = 128"
  shows "run_key la low cd_ok t ch = None"
  using assms by (simp add: run_key_def store_def line_is_def)

text \<open>A text that is typed arrives in the line when it fits there all the time; otherwise a store goes
  behind the line.\<close>

definition fits :: "u8 list \<Rightarrow> u8 list \<Rightarrow> bool" where
  "fits l ks \<longleftrightarrow> (\<forall>n \<le> length ks. length (edit l (take n ks)) \<le> 128)"

lemma fits_Cons: "fits l (k # ks) \<longleftrightarrow> length l \<le> 128 \<and> fits (if k = 8 then butlast l else l @ [k]) ks"
proof -
  have "(\<forall>n \<le> length (k # ks). P n) \<longleftrightarrow> P 0 \<and> (\<forall>n \<le> length ks. P (Suc n))" for P
    by (metis Suc_le_mono le0 length_Cons not0_implies_Suc)
  then show ?thesis by (simp add: fits_def)
qed

lemma run_keys_typing:
  assumes "line_is t l" and "13 \<notin> set ks"
  shows "if fits l ks then \<exists>x i. run_keys la low cd_ok t ks = Some (t\<lparr>t_line := x, t_line_idx := i\<rparr>, [], [])
        \<and> line_is (t\<lparr>t_line := x, t_line_idx := i\<rparr>) (edit l ks)
    else run_keys la low cd_ok t ks = None"
  using assms
proof (induction ks arbitrary: t l)
  case Nil
  then show ?case by (auto simp: fits_def line_is_def intro!: exI [of _ "t_line t"] exI [of _ "t_line_idx t"])
next
  case (Cons k ks)
  have l: "length l \<le> 128" using Cons.prems(1) by (simp add: line_is_def)
  show ?case
  proof (cases "k = 8 \<or> length l < 128")
    case True
    obtain x i where x: "run_key la low cd_ok t k = Some (t\<lparr>t_line := x, t_line_idx := i\<rparr>, None)"
      "line_is (t\<lparr>t_line := x, t_line_idx := i\<rparr>) (if k = 8 then butlast l else l @ [k])"
      using run_key_edits [OF Cons.prems(1) _ True, of la low cd_ok] Cons.prems(2) by auto
    show ?thesis using Cons.IH [OF x(2)] Cons.prems(2) x(1) l by (auto simp: fits_Cons)
  next
    case False
    then have "\<not> fits (if k = 8 then butlast l else l @ [k]) ks" unfolding fits_def by (force intro!: exI [of _ 0])
    then show ?thesis using run_key_overflows [OF Cons.prems(1)] Cons.prems(2) False l by (auto simp: fits_Cons)
  qed
qed

lemma length_edit: "length (edit l ks) \<le> length l + length ks"
  by (induction l ks rule: edit.induct) (auto split: if_splits)

lemma short_fits: "length l + length ks \<le> 128 \<Longrightarrow> fits l ks"
  using length_edit [of l] by (force simp: fits_def intro: order_trans)

section \<open>The words of a line\<close>

function words :: "u8 list \<Rightarrow> u8 list list" where
  "words [] = []"
| "words (c # cs) =
     (if c = 32 then words cs else (c # takeWhile (\<lambda>x. x \<noteq> 32) cs) # words (dropWhile (\<lambda>x. x \<noteq> 32) cs))"
  by pat_completeness auto
termination by (relation "measure length") (auto simp: length_dropWhile_le le_imp_less_Suc)

lemma words_nonempty: "last l \<noteq> 32 \<Longrightarrow> l \<noteq> [] \<Longrightarrow> words l \<noteq> []"
  by (induction l rule: words.induct) (auto split: if_splits)

definition blanked :: "u8 list \<Rightarrow> u8 list" where
  "blanked l = map (\<lambda>c. if c = 32 then 0 else c) l"

lemma blank_spaces_text: "0 \<notin> set l \<Longrightarrow> blank_spaces (a @ l @ 0 # z) (length a) = Some (a @ blanked l @ 0 # z)"
proof (induction l arbitrary: a)
  case (Cons c l)
  then show ?case using Cons.IH [of "a @ [if c = 32 then 0 else c]"]
    by (subst blank_spaces.simps) (auto simp: blanked_def)
qed (simp add: blank_spaces.simps blanked_def)

lemma collect_skip:
  "0 \<notin> set v \<Longrightarrow> length pre + length v \<le> n \<Longrightarrow>
   collect_words la (pre @ v @ r) n (length pre) False argv argc = collect_words la (pre @ v @ r) n (length pre + length v) False argv argc"
proof (induction v arbitrary: pre)
  case (Cons c v)
  then show ?case using Cons.IH [of "pre @ [c]"]
    by (subst collect_words.simps) (simp add: next_word.simps)
qed simp

lemma collect_at_zero:
  assumes "i < length l" and "l ! i = 0" and "Suc i < n"
  shows "collect_words la l n i h argv argc = collect_words la l n (Suc i) True argv argc"
  using assms by (subst (1 2) collect_words.simps) (simp add: next_word.simps [of l i])

lemma blanked_simps [simp]: "blanked [] = []" "blanked (c # l) = (if c = 32 then 0 else c) # blanked l" "length (blanked l) = length l"
  "blanked (a @ b) = blanked a @ blanked b"
  by (simp_all add: blanked_def)

lemma blanked_plain: "32 \<notin> set l \<Longrightarrow> blanked l = l"
  by (induction l) auto

text \<open>The addresses that are stored are those of the words, in order.\<close>

definition put_at :: "u32 list \<Rightarrow> nat \<Rightarrow> u32 list \<Rightarrow> u32 list" where
  "put_at xs k ys = take k xs @ ys @ drop (k + length ys) xs"

lemma put_at_Cons: "k < length xs \<Longrightarrow> put_at (xs[k := y]) (Suc k) ys = put_at xs k (y # ys)"
  by (simp add: put_at_def take_Suc_conv_app_nth drop_update_cancel)

lemma collect_at_boundary:
  assumes "n \<le> i \<or> i < length l \<and> l ! i = 0"
  shows "collect_words la l n i h argv argc = collect_words la l n i True argv argc"
  using assms by (subst (1 2) collect_words.simps) (auto simp: next_word.simps [of l i])

lemma collect_word:
  assumes "0 \<notin> set (c # v)" and "d = [] \<or> (\<exists>d'. d = 32 # d')" and "length argv = 9" and "unat argc < 9"
    and "n = length pre + Suc (length v + length d)"
  shows "collect_words la (pre @ c # v @ blanked d @ 0 # z) n (length pre) True argv argc
    = collect_words la (pre @ c # v @ blanked d @ 0 # z) n (length (pre @ c # v)) True (argv[unat argc := la + of_nat (length pre)]) (argc + 1)"
proof -
  let ?M = "pre @ c # v @ blanked d @ 0 # z" and ?argv = "argv[unat argc := la + of_nat (length pre)]"
  have "next_word ?M (length pre) True = Some (length pre, True)" using assms(1) by (subst next_word.simps) simp
  then have "collect_words la ?M n (length pre) True argv argc = collect_words la ?M n (Suc (length pre)) False ?argv (argc + 1)"
    using assms(3-5) by (subst collect_words.simps) (simp add: store_def)
  also have "\<dots> = collect_words la ?M n (length (pre @ c # v)) False ?argv (argc + 1)"
    using collect_skip [of v "pre @ [c]" n la "blanked d @ 0 # z"] assms(1,5) by simp
  also have "\<dots> = collect_words la ?M n (length (pre @ c # v)) True ?argv (argc + 1)"
    using assms(2,5) by (intro collect_at_boundary) (auto simp: nth_append)
  finally show ?thesis .
qed

lemma collect_words_text:
  assumes "0 \<notin> set l" and "l = [] \<or> last l \<noteq> 32" and "length argv = 9" and "unat argc + length (words l) \<le> 9"
  shows "\<exists>ps. collect_words la (pre @ blanked l @ 0 # z) (length pre + length l) (length pre) True argv argc
      = Some (put_at argv (unat argc) (map (\<lambda>p. la + of_nat p) ps), argc + of_nat (length ps))
    \<and> list_all2 (\<lambda>p. cstr (pre @ blanked l @ 0 # z) p) ps (words l)"
  using assms
proof (induction l arbitrary: pre argv argc rule: words.induct)
  case 1
  then show ?case by (rule_tac x = "[]" in exI) (simp add: collect_words.simps put_at_def)
next
  case (2 c cs)
  let ?n = "length pre + length (c # cs)" and ?L = "pre @ blanked (c # cs) @ 0 # z"
  show ?case
  proof (cases "c = 32")
    case True
    then have ne: "cs \<noteq> []" "last cs \<noteq> 32" using "2.prems"(2) by (auto split: if_splits)
    have "collect_words la ?L ?n (length pre) True argv argc = collect_words la ?L ?n (Suc (length pre)) True argv argc"
      using True ne(1) by (intro collect_at_zero) (auto simp: nth_append)
    then show ?thesis
      using "2.IH"(1) [OF True, of argv argc "pre @ [0]"] True ne "2.prems" by simp
  next
    case False
    define v where "v = takeWhile (\<lambda>x. x \<noteq> 32) cs"
    define d where "d = dropWhile (\<lambda>x. x \<noteq> 32) cs"
    have cs: "cs = v @ d" by (simp add: v_def d_def)
    have v32: "32 \<notin> set v" by (auto simp: v_def dest: set_takeWhileD)
    have v: "blanked v = v" "0 \<notin> set v" "0 \<notin> set d" using "2.prems"(1) cs blanked_plain [OF v32] by simp_all
    have w: "words (c # cs) = (c # v) # words d" using False by (simp add: v_def d_def)
    have argc: "unat argc < 9" "unat (argc + 1) = Suc (unat argc)"
      using "2.prems"(4) w unat_add_small [of argc 1] by auto
    have d0: "d = [] \<or> (\<exists>d'. d = 32 # d')" by (cases d) (auto simp: d_def dropWhile_eq_Cons_conv)
    then obtain zz where zz: "blanked d @ 0 # z = 0 # zz" by auto
    let ?argv = "argv[unat argc := la + of_nat (length pre)]"
    let ?M = "pre @ c # v @ blanked d @ 0 # z"
    have L: "?L = ?M" using False cs v(1) by simp
    have step: "collect_words la ?L ?n (length pre) True argv argc
      = collect_words la ((pre @ c # v) @ blanked d @ 0 # z) (length (pre @ c # v) + length d) (length (pre @ c # v)) True ?argv (argc + 1)"
      unfolding L using collect_word [OF _ d0 "2.prems"(3) argc(1), of c v ?n pre la z] "2.prems"(1) cs by (simp add: add.assoc)
    have "d = [] \<or> last d \<noteq> 32" using "2.prems"(2) cs by auto
    then obtain ps where ps: "collect_words la ((pre @ c # v) @ blanked d @ 0 # z) (length (pre @ c # v) + length d) (length (pre @ c # v)) True ?argv (argc + 1)
        = Some (put_at ?argv (unat (argc + 1)) (map (\<lambda>p. la + of_nat p) ps), argc + 1 + of_nat (length ps))"
      "list_all2 (cstr ((pre @ c # v) @ blanked d @ 0 # z)) ps (words d)"
      using "2.IH"(2) [OF False, of ?argv "argc + 1" "pre @ c # v"] "2.prems" w argc(2) cs unfolding d_def [symmetric] by auto
    have "put_at ?argv (Suc (unat argc)) (map (\<lambda>p. la + of_nat p) ps) = put_at argv (unat argc) (map (\<lambda>p. la + of_nat p) (length pre # ps))"
      using argc(1) "2.prems"(3) put_at_Cons [of "unat argc" argv] by simp
    moreover have "cstr ?M (length pre) (c # v)"
      using cstr_append [of "c # v" pre zz] "2.prems"(1) v(2) by (simp add: zz)
    ultimately show ?thesis
      unfolding step w unfolding L using ps argc(2) by (rule_tac x = "length pre # ps" in exI) (simp add: ac_simps)
  qed
qed

lemma arg_points:
  assumes "load (t_argv t) k = Some (la + of_nat p)" and "cstr (t_line t) p w" and "0 < la" and "unat la + length (t_line t) \<le> 2 ^ 32"
  shows "\<exists>a. arg la low t k = Some a \<and> cstr a 0 w"
proof -
  have p: "p < length (t_line t)" using assms(2) by (simp add: cstr_def)
  then have u: "unat (of_nat p :: u32) = p" using assms(4) by (simp add: unat_of_nat take_bit_nat_eq_self)
  then have s: "unat (la + of_nat p) = unat la + p" using p assms(4) by (subst unat_add_small) auto
  then have "la \<le> la + of_nat p" "la + of_nat p \<noteq> 0" using assms(3) by (auto simp: word_le_nat_alt word_less_nat_alt word_eq_iff_unat)
  moreover have "cstr (drop p (t_line t)) 0 w" using assms(2) by (auto simp: cstr_def)
  ultimately show ?thesis using assms(1) p u by (simp add: arg_def)
qed

lemma format_input_words:
  assumes "line_is t l" and "t_argc t = 0" and "length (t_argv t) = 9" and "0 \<notin> set l" and "l = [] \<or> last l \<noteq> 32"
    and "length (words l) \<le> 9" and "length l \<le> 127" and "0 < la" and "unat la + 128 \<le> 2 ^ 32"
  shows "\<exists>x as. format_input la t = Some (t\<lparr>t_line := x, t_argv := as, t_argc := of_nat (length (words l)) - 1\<rparr>)
    \<and> (\<forall>k < length (words l). \<exists>a. arg la low (t\<lparr>t_line := x, t_argv := as, t_argc := of_nat (length (words l)) - 1\<rparr>) k = Some a
         \<and> cstr a 0 (words l ! k))"
proof -
  have l: "length l \<le> 127" "unat (t_line_idx t) = length l" using assms(1,7) by (simp_all add: line_is_def)
  then have tl: "t_line t = l @ 0 # replicate (127 - length l) 0" using assms(1)
    by (simp add: line_is_def flip: replicate_Suc add: Suc_diff_le)
  let ?x = "blanked l @ 0 # replicate (127 - length l) 0"
  obtain ps where ps: "collect_words la ?x (length l) 0 True (t_argv t) 0
      = Some (put_at (t_argv t) 0 (map (\<lambda>p. la + of_nat p) ps), of_nat (length ps))"
    "list_all2 (cstr ?x) ps (words l)"
    using collect_words_text [OF assms(4,5,3), of 0 la "[]" "replicate (127 - length l) 0"] assms(6) by auto
  have n: "length ps = length (words l)" using ps(2) by (rule list_all2_lengthD)
  let ?as = "put_at (t_argv t) 0 (map (\<lambda>p. la + of_nat p) ps)"
  let ?t = "t\<lparr>t_line := ?x, t_argv := ?as, t_argc := of_nat (length (words l)) - 1\<rparr>"
  have f: "format_input la t = Some ?t"
    using blank_spaces_text [OF assms(4), of "[]"] ps(1) assms(2) l(2) n by (simp add: format_input_def tl)
  have "\<exists>a. arg la low ?t k = Some a \<and> cstr a 0 (words l ! k)" if k: "k < length (words l)" for k
  proof (rule arg_points)
    show "load (t_argv ?t) k = Some (la + of_nat (ps ! k))" using k n by (simp add: load_def put_at_def nth_append)
    show "cstr (t_line ?t) (ps ! k) (words l ! k)" using list_all2_nthD [OF ps(2), of k] k n by simp
    show "unat la + length (t_line ?t) \<le> 2 ^ 32" using l(1) assms(9) by simp
  qed (rule assms(8))
  then show ?thesis using f by blast
qed

lemma match_command_word:
  assumes "cstr w 0 s" and "\<forall>n \<in> set nms. 0 \<notin> set n"
  shows "match_command w nms k = Some (k + length (takeWhile (\<lambda>n. n \<noteq> s) nms))"
  using assms(2)
proof (induction nms arbitrary: k)
  case (Cons n nms)
  then have "cstr (n @ [0]) 0 n" by (auto simp: cstr_def nth_append)
  then show ?case using Cons strcmp_cstr [OF assms(1)] by auto
qed simp

lemma run_keys_append:
  "run_keys la low cd_ok t ks = Some (t1, [], []) \<Longrightarrow> run_keys la low cd_ok t (ks @ js) = run_keys la low cd_ok t1 js"
  by (induction ks arbitrary: t) (auto simp: bind_eq_Some_conv split: option.splits if_splits)

text \<open>The number under which a command is run.\<close>

definition command_number :: "u8 list \<Rightarrow> nat" where
  "command_number w = length (takeWhile (\<lambda>n. n \<noteq> w) command_names)"

text \<open>C16: A line that is typed and ended with the return key runs the command that its first word names, with
  the words of the line as arguments: backspaces take characters back, spaces separate words, and the terminal
  waits for the next line afterwards. The line fits the buffer, has at most nine words and does not end in a
  space; \<open>la\<close> is the address of the buffer and \<open>low\<close> the memory that a null argument points to.\<close>

theorem typed_line_runs_command:
  assumes "line_is t []" and "t_argc t = 0" and "length (t_argv t) = 9" and "0 < la" and "unat la + 128 \<le> 2 ^ 32"
    and "13 \<notin> set ks" and "length ks \<le> 127"
    and "0 \<notin> set (edit [] ks)" and "last (edit [] ks) \<noteq> 32" and "edit [] ks \<noteq> []" and "length (words (edit [] ks)) \<le> 9"
  shows "\<exists>x i as. let t1 = t\<lparr>t_line_idx := i, t_line := x, t_argv := as, t_argc := of_nat (length (words (edit [] ks))) - 1\<rparr> in
      (\<forall>k < length (words (edit [] ks)). \<exists>a. arg la low t1 k = Some a \<and> cstr a 0 (words (edit [] ks) ! k))
    \<and> run_keys la low cd_ok t (ks @ [13]) = do {
        (t2, cmd) \<leftarrow> run_command la low cd_ok t1 (command_number (hd (words (edit [] ks))));
        t3 \<leftarrow> (if cmd = Exit then Some t2 else reset_terminal t2);
        Some (t3, [cmd], []) }"
proof -
  let ?l = "edit [] ks" let ?w = "words ?l"
  obtain x i where r: "run_keys la low cd_ok t ks = Some (t\<lparr>t_line := x, t_line_idx := i\<rparr>, [], [])"
    and li: "line_is (t\<lparr>t_line := x, t_line_idx := i\<rparr>) ?l"
    using run_keys_typing [OF assms(1,6), of la low cd_ok] short_fits [of "[]" ks] assms(7) by auto
  obtain x' as where f: "format_input la (t\<lparr>t_line := x, t_line_idx := i\<rparr>)
      = Some (t\<lparr>t_line_idx := i, t_line := x', t_argv := as, t_argc := of_nat (length ?w) - 1\<rparr>)"
    and a: "\<forall>k < length ?w. \<exists>a. arg la low (t\<lparr>t_line_idx := i, t_line := x', t_argv := as, t_argc := of_nat (length ?w) - 1\<rparr>) k = Some a
      \<and> cstr a 0 (?w ! k)"
    using format_input_words [OF li, of la low] length_edit [of "[]" ks] assms by auto
  let ?t1 = "t\<lparr>t_line_idx := i, t_line := x', t_argv := as, t_argc := of_nat (length ?w) - 1\<rparr>"
  have w: "?w \<noteq> []" using assms(9,10) by (rule words_nonempty)
  then obtain word where word: "arg la low ?t1 0 = Some word" "cstr word 0 (hd ?w)"
    using a by (auto simp: hd_conv_nth)
  have "\<forall>n \<in> set command_names. 0 \<notin> set n" by code_simp
  then have "match_command word command_names 0 = Some (command_number (hd ?w))"
    using match_command_word [OF word(2)] by (simp add: command_number_def)
  then have "run_key la low cd_ok (t\<lparr>t_line := x, t_line_idx := i\<rparr>) 13 = do {
      (t2, cmd) \<leftarrow> run_command la low cd_ok ?t1 (command_number (hd ?w)); t3 \<leftarrow> (if cmd = Exit then Some t2 else reset_terminal t2); Some (t3, Some cmd) }"
    using f word(1) by (simp add: run_key_def handle_input_def)
  then have "run_keys la low cd_ok t (ks @ [13]) = do {
      (t2, cmd) \<leftarrow> run_command la low cd_ok ?t1 (command_number (hd ?w)); t3 \<leftarrow> (if cmd = Exit then Some t2 else reset_terminal t2); Some (t3, [cmd], []) }"
    using run_keys_append [OF r, of "[13]"] by (auto split: bind_splits)
  then show ?thesis using a by (auto simp: Let_def)
qed

definition idle_terminal :: terminal where
  "idle_terminal = \<lparr>t_uid = 1, t_username = replicate 32 0, t_cur_dir = 47 # replicate 63 0, t_old_dir = 47 # replicate 63 0,
     t_line = replicate 128 0, t_line_idx = 0, t_argv = replicate 9 0, t_argc = 0\<rparr>"

text \<open>The keys of \<open>ls /\<close>, with a character that is taken back.\<close>

theorem typed_line_runs_command_witness:
  "words (edit [] [108, 116, 8, 115, 32, 47]) = [[108, 115], [47]] \<and> command_number [108, 115] = 3
    \<and> (\<exists>x i as. let t1 = idle_terminal\<lparr>t_line_idx := i, t_line := x, t_argv := as, t_argc := 1\<rparr> in
       (\<forall>k < 2. \<exists>a. arg 4096 [] t1 k = Some a \<and> cstr a 0 ([[108, 115], [47]] ! k))
     \<and> run_keys 4096 [] (\<lambda>p. True) idle_terminal [108, 116, 8, 115, 32, 47, 13] = do {
        (t2, cmd) \<leftarrow> run_command 4096 [] (\<lambda>p. True) t1 3;
        t3 \<leftarrow> (if cmd = Exit then Some t2 else reset_terminal t2);
        Some (t3, [cmd], []) })"
proof -
  let ?ks = "[108, 116, 8, 115, 32, 47] :: u8 list"
  have e: "edit [] ?ks = [108, 115, 32, 47]" by simp
  have w: "words [108, 115, 32, 47] = [[108, 115], [47]]" by simp
  have n: "command_number [108, 115] = 3" by (simp add: command_number_def command_names_def)
  have c: "of_nat 2 - 1 = (1 :: u8)" "length [[108, 115], [47 :: u8]] = 2" "?ks @ [13] = [108, 116, 8, 115, 32, 47, 13]" by simp_all
  have i: "line_is idle_terminal []" "t_argc idle_terminal = 0" "length (t_argv idle_terminal) = 9"
    by (simp_all add: line_is_def idle_terminal_def)
  have "0 < (4096 :: u32)" "unat (4096 :: u32) + 128 \<le> 2 ^ 32" "13 \<notin> set ?ks" "length ?ks \<le> 127"
    "0 \<notin> set (edit [] ?ks)" "last (edit [] ?ks) \<noteq> 32" "edit [] ?ks \<noteq> []" "length (words (edit [] ?ks)) \<le> 9"
    unfolding e w by simp_all
  from typed_line_runs_command [OF i this, of "[]" "\<lambda>p. True", unfolded e w c list.sel n]
  show ?thesis unfolding e w n by (intro conjI refl)
qed

text \<open>C17: Typing without the return key stays within the line exactly as long as at no time more than 128
  characters stand there: the code does not compare the index with the size of the line, so the next
  character is stored behind it.\<close>

theorem typing_within_line:
  assumes "line_is t []" and "13 \<notin> set ks"
  shows "run_keys la low cd_ok t ks \<noteq> None \<longleftrightarrow> (\<forall>n \<le> length ks. length (edit [] (take n ks)) \<le> 128)"
  using run_keys_typing [OF assms, of la low cd_ok] by (auto simp: fits_def split: if_splits)

lemma length_edit_replicate: "c \<noteq> 8 \<Longrightarrow> length (edit l (replicate n c)) = length l + n"
  by (induction n arbitrary: l) simp_all

theorem typing_within_line_witness:
  "run_keys 4096 [] (\<lambda>p. True) idle_terminal (replicate 128 97) \<noteq> None
    \<and> run_keys 4096 [] (\<lambda>p. True) idle_terminal (replicate 129 97) = None"
proof -
  have i: "line_is idle_terminal []" by (simp add: line_is_def idle_terminal_def)
  have e: "length (edit [] (take n (replicate m (97 :: u8)))) = min n m" for n m
    by (simp add: length_edit_replicate)
  have k: "13 \<notin> set (replicate m (97 :: u8))" for m by simp
  show ?thesis
  proof
    show "run_keys 4096 [] (\<lambda>p. True) idle_terminal (replicate 128 97) \<noteq> None"
      unfolding typing_within_line [OF i k] e by simp
    have "\<not> (\<forall>n \<le> length (replicate 129 (97 :: u8)). min n 129 \<le> (128 :: nat))" by (simp add: not_le) (rule exI [of _ 129], simp)
    then show "run_keys 4096 [] (\<lambda>p. True) idle_terminal (replicate 129 97) = None"
      using typing_within_line [OF i k, of 4096 "[]" "\<lambda>p. True" 129] unfolding e by blast
  qed
qed

end
