(* ===== verification/File_Frame.thy ===== *)
theory File_Frame
  imports Users
begin

text \<open>
  What no file operation changes: the user on whose behalf the file server acts, the super
  block of the mounted partition and the sizes of the tables of the file server (\<open>fs/inode.cc\<close>, \<open>fs/dir.cc\<close>, \<open>fs/file.cc\<close>,
  \<open>terminal/user.cc\<close>). There is one lemma per operation, collected in \<open>frame\<close>; the loops over
  files are partial functions, for which the lemma is proved by induction on their computation.
\<close>

named_theorems frame \<open>operations that keep the user, the super block and the sizes of tables\<close>

definition same_mount :: "fs_state \<Rightarrow> fs_state \<Rightarrow> bool" where
  "same_mount s s' \<longleftrightarrow> fs_uid s' = fs_uid s \<and> sb_data s' = sb_data s
     \<and> length (file_desc_tbl s') = length (file_desc_tbl s) \<and> length (cur_dir s') = length (cur_dir s)"

lemma same_mount_write [simp]:
  "fs_uid (write_disk s lba b) = fs_uid s" "sb_data (write_disk s lba b) = sb_data s"
  "fs_uid (sync_inode s i) = fs_uid s" "sb_data (sync_inode s i) = sb_data s"
  "fs_uid (sync_block s n b) = fs_uid s" "sb_data (sync_block s n b) = sb_data s"
  "fs_uid (set_finode s fd f i) = fs_uid s" "sb_data (set_finode s fd f i) = sb_data s"
  "file_desc_tbl (write_disk s lba b) = file_desc_tbl s" "cur_dir (write_disk s lba b) = cur_dir s"
  "file_desc_tbl (sync_inode s i) = file_desc_tbl s" "cur_dir (sync_inode s i) = cur_dir s"
  "file_desc_tbl (sync_block s n b) = file_desc_tbl s" "cur_dir (sync_block s n b) = cur_dir s"
  "length (file_desc_tbl (set_finode s fd f i)) = length (file_desc_tbl s)" "cur_dir (set_finode s fd f i) = cur_dir s"
  by (simp_all add: write_disk_def sync_inode_def sync_block_def set_finode_def Let_def)

lemmas frame_step = bind_eq_Some_conv Let_def same_mount_def

lemma bind_SomeE: "Option.bind f g = Some y \<Longrightarrow> (\<And>x. f = Some x \<Longrightarrow> g x = Some y \<Longrightarrow> P) \<Longrightarrow> P"
  by (auto simp: bind_eq_Some_conv)

lemma if_SomeE: "(if c then Some s else f) = Some y \<Longrightarrow> (y = s \<Longrightarrow> P) \<Longrightarrow> (f = Some y \<Longrightarrow> P) \<Longrightarrow> P"
  by (cases c) simp_all

section \<open>Inodes and blocks\<close>

lemma write_sectors_frame [frame]: "write_sectors s lba b n = Some s' \<Longrightarrow> same_mount s s'"
  by (induction s lba b n rule: write_sectors.induct) (auto simp: frame_step split: if_splits)

lemma sync_bitmaps_frame [frame]:
  "sync_inode_bitmap s = Some s' \<Longrightarrow> same_mount s s'" "sync_block_bitmap s = Some s' \<Longrightarrow> same_mount s s'"
  by (auto simp: sync_inode_bitmap_def sync_block_bitmap_def dest: write_sectors_frame)

lemma bitmap_frame [frame]:
  "allocate_inode_no s = Some (n, s') \<Longrightarrow> same_mount s s'" "free_inode s n = Some s' \<Longrightarrow> same_mount s s'"
  "allocate_block s = Some (n, s') \<Longrightarrow> same_mount s s'" "free_block s n = Some s' \<Longrightarrow> same_mount s s'"
  by (auto simp: allocate_inode_no_def free_inode_def allocate_block_def free_block_def frame_step)

lemma create_inode_frame [frame]: "create_inode s now = Some (i, s') \<Longrightarrow> same_mount s s'"
  by (auto simp: create_inode_def frame_step dest: frame)

section \<open>Directories\<close>

lemma create_dir_entry_frame [frame]: "create_dir_entry s i c = Some s' \<Longrightarrow> same_mount s s'"
  unfolding create_dir_entry_def Let_def
  by (elim bind_SomeE) (auto simp: frame_step split: option.split_asm if_split_asm dest!: frame)

lemma init_child_dir_frame [frame]: "init_child_dir s p n = Some s' \<Longrightarrow> same_mount s s'"
  by (auto simp: init_child_dir_def frame_step dest!: frame)

lemma remove_in_sector_frame [frame]: "remove_in_sector s lba b path p j f n = Some (s', f', n') \<Longrightarrow> same_mount s s'"
  by (induction s lba b path p j f n rule: remove_in_sector.induct)
    (force simp: frame_step remove_in_sector.simps split: if_splits option.split_asm bool.split_asm)

lemma remove_in_sectors_frame [frame]: "remove_in_sectors s i ks path p f = Some s' \<Longrightarrow> same_mount s s'"
proof (induction ks arbitrary: s f)
  case (Cons k ks)
  then show ?case by (auto simp: frame_step split: if_split_asm dest!: frame Cons.IH)
qed (simp add: same_mount_def)

lemma remove_dir_entry_frame [frame]: "remove_dir_entry s i path p = Some s' \<Longrightarrow> same_mount s s'"
  by (auto simp: remove_dir_entry_def dest: frame)

lemma sys_mkdir_frame [frame]: "sys_mkdir s now path = Some s' \<Longrightarrow> same_mount s s'"
  by (auto simp: sys_mkdir_def frame_step split: if_splits dest!: frame)

lemma sys_rmdir_frame [frame]: "sys_rmdir s path = Some s' \<Longrightarrow> same_mount s s'"
  by (auto simp: sys_rmdir_def frame_step split: if_splits dest!: frame)

lemma cd_frame [frame]: "cd s path = Some (r, s') \<Longrightarrow> same_mount s s'"
  by (auto simp: cd_def frame_step split: if_splits dest!: memset_length strcpy_length)

lemma sys_chmod_frame [frame]: "sys_chmod s path m = Some s' \<Longrightarrow> same_mount s s'"
  by (auto simp: sys_chmod_def frame_step split: if_splits)

lemma sys_chown_frame [frame]: "sys_chown s path u = Some s' \<Longrightarrow> same_mount s s'"
  by (auto simp: sys_chown_def frame_step split: if_splits)

section \<open>Files\<close>

lemma open_file_frame [frame]: "open_file s path = Some (fd, s') \<Longrightarrow> same_mount s s'"
  by (auto simp: open_file_def frame_step split: if_splits dest: store_length)

lemma close_file_frame [frame]: "close_file s fd = Some s' \<Longrightarrow> same_mount s s'"
  by (auto simp: close_file_def free_fdt_slot_def frame_step split: if_splits option.split_asm dest: store_length)

lemma sys_mkfile_frame [frame]: "sys_mkfile s now path = Some s' \<Longrightarrow> same_mount s s'"
  by (auto simp: sys_mkfile_def frame_step split: if_splits dest!: frame)

lemma free_sectors_frame [frame]: "free_sectors s ks = Some s' \<Longrightarrow> same_mount s s'"
proof (induction ks arbitrary: s)
  case (Cons k ks)
  then show ?case by (auto simp: frame_step split: if_split_asm dest!: frame Cons.IH)
qed (simp add: same_mount_def)

lemma sys_rmfile_frame [frame]: "sys_rmfile s path = Some s' \<Longrightarrow> same_mount s s'"
  by (auto simp: sys_rmfile_def free_inode_sectors_def frame_step split: if_splits dest!: frame)

lemma alloc_sectors_frame [frame]: "alloc_sectors s i ks = Some (i', s') \<Longrightarrow> same_mount s s'"
proof (induction ks arbitrary: s i)
  case (Cons k ks)
  then show ?case by (auto simp: frame_step split: if_split_asm dest!: frame Cons.IH)
qed (simp add: same_mount_def)

lemma write_middle_frame [frame]: "write_middle s i str p ks = Some s' \<Longrightarrow> same_mount s s'"
  by (induction s i str p ks rule: write_middle.induct) (auto simp: frame_step split: if_splits)

lemma free_surplus_frame [frame]: "free_surplus s i ks h = Some (i', h', s') \<Longrightarrow> same_mount s s'"
proof (induction ks arbitrary: s i h)
  case (Cons k ks)
  then show ?case by (auto simp: frame_step split: if_split_asm dest!: frame Cons.IH)
qed (simp add: same_mount_def)

lemma write_data_frame [frame]: "write_data s i str p cnt a b c d = Some s' \<Longrightarrow> same_mount s s'"
  by (auto simp: write_data_def frame_step split: if_splits dest!: frame)

lemma prepare_write_frame [frame]: "prepare_write s i ks = Some (i', s') \<Longrightarrow> same_mount s s'"
  by (auto simp: prepare_write_def frame_step dest!: frame)

lemma finish_write_frame [frame]: "finish_write s fd f i cnt m n = Some s' \<Longrightarrow> same_mount s s'"
  by (auto simp: finish_write_def frame_step split: if_splits dest!: frame)

lemma write_file_frame [frame]: "write_file s fd str p cnt m = Some s' \<Longrightarrow> same_mount s s'"
  unfolding write_file_def Let_def
  by (auto elim!: bind_SomeE if_SomeE split: option.split_asm dest!: frame simp: same_mount_def)

lemma read_file_frame [frame]: "read_file s fd b p cnt = Some (n, s', b') \<Longrightarrow> same_mount s s'"
  unfolding read_file_def Let_def
  by (auto elim!: bind_SomeE if_SomeE split: option.split_asm simp: same_mount_def)

lemma copy_sectors_frame [frame]: "copy_sectors s i j ks = Some (j', s') \<Longrightarrow> same_mount s s'"
proof (induction ks arbitrary: s j)
  case (Cons k ks)
  then show ?case by (auto simp: frame_step split: if_split_asm dest!: frame Cons.IH)
qed (simp add: same_mount_def)

lemma copy_file_frame [frame]: "copy_file s now a b = Some s' \<Longrightarrow> same_mount s s'"
  by (auto simp: copy_file_def frame_step split: if_splits dest!: frame)

lemma move_file_frame [frame]: "move_file s now a b = Some s' \<Longrightarrow> same_mount s s'"
  by (auto simp: move_file_def frame_step split: if_splits dest!: frame)

section \<open>Lines and accounts\<close>

text \<open>For a loop the lemma says that every result is framed; the induction is over the calls that return.\<close>

lemma readline_frame [frame]:
  assumes "readline s fd b p = Some (s', b')"
  shows "same_mount s s'"
proof -
  have "same_mount s (fst (s', b'))"
  proof (rule readline.raw_induct [where P = "\<lambda>s fd b p r. same_mount s (fst r)", OF _ assms])
    fix loop s fd b p r
    assume IH: "\<And>s fd b p r. loop s fd b p = Some r \<Longrightarrow> same_mount s (fst r)"
      and step: "do { e \<leftarrow> is_eof s fd;
        (if e then Some (s, b) else do { (_, s1, b1) \<leftarrow> read_file s fd b p 1; c \<leftarrow> load b1 p;
          (if c = 10 then do { b2 \<leftarrow> store b1 (Suc p) 0; Some (s1, b2) } else loop s1 fd b1 (Suc p)) }) } = Some r"
    then show "same_mount s (fst r)"
      by (auto simp: frame_step split: if_split_asm dest!: read_file_frame IH)
  qed
  then show ?thesis by simp
qed

lemma check_loop_frame [frame]: "check_loop s fd b un pw nm h = Some (uid, s') \<Longrightarrow> same_mount s s'"
  by (drule check_loop.raw_induct [where P = "\<lambda>s fd b un pw nm h r. same_mount s (snd r)", rotated])
    (auto simp: frame_step split: if_split_asm dest!: frame)

lemma uid_loop_frame [frame]: "uid_loop s fd b un nm = Some (uid, s') \<Longrightarrow> same_mount s s'"
  by (drule uid_loop.raw_induct [where P = "\<lambda>s fd b un nm r. same_mount s (snd r)", rotated])
    (auto simp: frame_step split: if_split_asm dest!: frame)

lemma exists_loop_frame [frame]: "exists_loop s fd b un nm = Some (e, s') \<Longrightarrow> same_mount s s'"
  by (drule exists_loop.raw_induct [where P = "\<lambda>s fd b un nm r. same_mount s (snd r)", rotated])
    (auto simp: frame_step split: if_split_asm dest!: frame)

lemma copy_accounts_frame [frame]: "copy_accounts s f1 f2 b w un nm = Some s' \<Longrightarrow> same_mount s s'"
  by (drule copy_accounts.raw_induct [where P = "\<lambda>s f1 f2 b w un nm r. same_mount s r", rotated])
    (auto simp: frame_step split: if_split_asm dest!: frame)

lemma user_check_frame [frame]: "user_check s nm pw = Some (uid, s') \<Longrightarrow> same_mount s s'"
  by (auto simp: user_check_def frame_step dest!: frame)

lemma username2uid_frame [frame]: "username2uid s nm = Some (uid, s') \<Longrightarrow> same_mount s s'"
  by (auto simp: username2uid_def frame_step dest!: frame)

lemma user_is_exists_frame [frame]: "user_is_exists s nm = Some (e, s') \<Longrightarrow> same_mount s s'"
  by (auto simp: user_is_exists_def frame_step dest!: frame)

lemma chown_frame [frame]: "chown s path nm = Some s' \<Longrightarrow> same_mount s s'"
  by (auto simp: chown_def frame_step split: if_split_asm dest!: frame)

lemma create_user_account_frame [frame]: "create_user_account s n nm pw = Some (uid, s', n') \<Longrightarrow> same_mount s s'"
  unfolding create_user_account_def Let_def
  by (auto elim!: bind_SomeE split: if_split_asm dest!: frame simp: same_mount_def)

lemma useradd_frame [frame]: "useradd s n now nm pw = Some (s', n') \<Longrightarrow> same_mount s s'"
  by (auto simp: useradd_def create_user_homedir_def frame_step split: if_split_asm dest!: frame)

lemma delete_user_account_frame [frame]: "delete_user_account s now nm = Some s' \<Longrightarrow> same_mount s s'"
  by (auto simp: delete_user_account_def frame_step split: if_split_asm dest!: frame)

lemma userdel_frame [frame]: "userdel s now nm = Some s' \<Longrightarrow> same_mount s s'"
  by (auto simp: userdel_def delete_user_homedir_def frame_step dest!: frame)

section \<open>Checking a login changes nothing\<close>

text \<open>Reading moves the offset of a descriptor that is in use, and does nothing else.\<close>

definition moves :: "u32 \<Rightarrow> fs_state \<Rightarrow> fs_state \<Rightarrow> bool" where
  "moves fd s s' \<longleftrightarrow> s' = s \<or> (\<exists>f. s' = s\<lparr>file_desc_tbl := (file_desc_tbl s)[unat fd := Some f]\<rparr>)"

lemma moves_trans: "moves fd s s1 \<Longrightarrow> moves fd s1 s2 \<Longrightarrow> moves fd s s2"
  by (auto simp: moves_def)

lemma read_file_moves: "read_file s fd b p n = Some (r, s', b') \<Longrightarrow> moves fd s s'"
  unfolding read_file_def Let_def by (auto elim!: bind_SomeE if_SomeE split: option.split_asm simp: moves_def)

lemma readline_moves: "readline s fd b p = Some (s', b') \<Longrightarrow> moves fd s s'"
proof -
  assume "readline s fd b p = Some (s', b')"
  then have "moves fd s (fst (s', b'))"
    by (rule readline.raw_induct [where P = "\<lambda>s fd b p r. moves fd s (fst r)", rotated])
      (auto simp: bind_eq_Some_conv moves_def [of _ s s for s] split: if_split_asm dest!: read_file_moves intro: moves_trans)
  then show ?thesis by simp
qed

definition closed :: "u32 \<Rightarrow> fs_state \<Rightarrow> fs_state" where
  "closed fd s = s\<lparr>file_desc_tbl := (file_desc_tbl s)[unat fd := None]\<rparr>"

lemma closed_moves: "moves fd s s1 \<Longrightarrow> closed fd s1 = closed fd s"
  by (auto simp: moves_def closed_def)

lemma close_file_closed:
  assumes "is_eof s fd = Some e" and "moves fd s s1" and "length (file_desc_tbl s) \<le> 64" and "close_file s1 fd = Some s2"
  shows "s2 = closed fd s"
proof -
  obtain f where f: "unat fd < length (file_desc_tbl s)" "file_desc_tbl s ! unat fd = Some f"
    using assms(1) by (auto simp: is_eof_def load_def bind_eq_Some_conv split: if_split_asm)
  then have "\<not> 63 < fd" using assms(3) by (simp add: word_less_nat_alt)
  moreover obtain g where "load (file_desc_tbl s1) (unat fd) = Some (Some g)" using assms(2) f by (auto simp: moves_def load_def)
  ultimately have "s2 = closed fd s1" using assms(4) by (auto simp: close_file_def free_fdt_slot_def closed_def store_def split: if_split_asm)
  then show ?thesis using closed_moves [OF assms(2)] by simp
qed

lemma check_loop_closes:
  "check_loop s fd b un pw nm h = Some (uid, s') \<Longrightarrow> length (file_desc_tbl s) \<le> 64 \<Longrightarrow> s' = closed fd s"
proof -
  assume a: "check_loop s fd b un pw nm h = Some (uid, s')" and l: "length (file_desc_tbl s) \<le> 64"
  have "length (file_desc_tbl s) \<le> 64 \<longrightarrow> snd (uid, s') = closed fd s"
  proof (rule check_loop.raw_induct [where P = "\<lambda>s fd b un pw nm h r. length (file_desc_tbl s) \<le> 64 \<longrightarrow> snd r = closed fd s", OF _ a],
      intro impI, goal_cases)
    case (1 loop s fd b un pw nm h r)
    have IH: "snd r' = closed fd s" if "loop s1 fd b' un' pw' nm h = Some r'" "moves fd s s1" for s1 b' un' pw' r'
      using 1(1) [OF that(1)] that(2) 1(3) closed_moves [OF that(2)] by (auto simp: moves_def)
    have "\<And>e s2. is_eof s fd = Some e \<Longrightarrow> close_file s fd = Some s2 \<Longrightarrow> s2 = closed fd s"
      using close_file_closed [of s fd _ s] 1(3) by (auto simp: moves_def)
    then show ?case using 1(2) close_file_closed [OF _ _ 1(3)]
      by (fastforce simp: bind_eq_Some_conv split: if_split_asm dest: readline_moves IH)
  qed
  then show ?thesis using l by simp
qed

lemma open_file_closed:
  assumes "open_file s path = Some (fd, s1)" and "length (file_desc_tbl s) = 64" and "is_eof s1 (word_of_int fd) \<noteq> None"
  shows "closed (word_of_int fd) s1 = s"
proof -
  have "fd \<noteq> -1"
  proof
    assume "fd = -1"
    then have "s1 = s" using assms(1) by (auto simp: open_file_def get_fdt_free_slot_def Let_def bind_eq_Some_conv split: if_split_asm option.split_asm)
    moreover have "unat (- 1 :: u32) = 4294967295" by (simp add: unsigned_minus_1_eq_mask mask_eq_exp_minus_1)
    ultimately show False using assms(2,3) \<open>fd = -1\<close> by (simp add: is_eof_def load_def)
  qed
  then obtain k f where k: "fdt_slot_from (file_desc_tbl s) 0 = Some k" "fd = int k" "s1 = s\<lparr>file_desc_tbl := (file_desc_tbl s)[k := Some f]\<rparr>"
    using assms(1,2) by (auto simp: open_file_def get_fdt_free_slot_def store_def Let_def bind_eq_Some_conv split: if_split_asm option.split_asm)
  then have "k < 64" "file_desc_tbl s ! k = None" using free_slot_from_Some [of "file_desc_tbl s" 0 k] assms(2) by simp_all
  moreover then have "unat (word_of_int fd :: u32) = k" using k(2) by (simp add: unat_of_nat take_bit_nat_eq_self)
  ultimately show ?thesis using k(3) list_update_id [of "file_desc_tbl s" k] by (simp add: closed_def)
qed

lemma user_check_restores:
  assumes "user_check s nm pw = Some (uid, s')" and "length (file_desc_tbl s) = 64"
  shows "s' = s"
proof -
  obtain fd s1 h where o: "open_file s passwd = Some (fd, s1)"
    and c: "check_loop s1 (word_of_int fd) (replicate 64 0) None None nm h = Some (uid, s')"
    using assms(1) by (auto simp: user_check_def bind_eq_Some_conv)
  have "length (file_desc_tbl s1) = 64" using o assms(2)
    by (auto simp: open_file_def store_def Let_def bind_eq_Some_conv split: if_split_asm)
  moreover have "is_eof s1 (word_of_int fd) \<noteq> None" using c by (cases "is_eof s1 (word_of_int fd)") (simp_all add: check_loop.simps [of s1])
  ultimately show ?thesis using check_loop_closes [OF c] open_file_closed [OF o assms(2)] by simp
qed

end
