(* ===== verification/Session.thy ===== *)
theory Session
  imports Terminal File_Frame
begin

text \<open>
  Model of a session at the terminal: \<open>start\<close>, \<open>user_login\<close>, \<open>run\<close> and \<open>exit\<close> of
  \<open>terminal/terminal.cc\<close> as steps of a machine that reads one key at a time, and the
  set-up in \<open>main\<close> of \<open>terminal/main.cc\<close>. A step passes the keys to the login or to the
  shell and performs the commands of the shell on the file system; the commands for other
  servers leave the file system alone.

  The theory shows that commands only run after a successful check of a name and a password, on
  behalf of the user that the check returned.
\<close>

section \<open>Commands on the file system\<close>



section \<open>The session\<close>

datatype session_phase = Logging_in login_state | Running

record session =
  s_fs :: fs_state
  s_term :: terminal
  s_last_uid :: u32
  s_phase :: session_phase

definition is_running :: "session \<Rightarrow> bool" where
  "is_running ss \<longleftrightarrow> s_phase ss = Running"

definition begin_login :: "session \<Rightarrow> session option" where
  "begin_login ss = do {
     (t, g) \<leftarrow> new_login (s_term ss);
     Some (ss\<lparr>s_term := t, s_phase := Logging_in g\<rparr>) }"



section \<open>The start of the terminal\<close>

text \<open>The directories and files that \<open>main\<close> makes: \<open>/etc\<close>, \<open>/etc/passwd\<close>, \<open>/var\<close>, \<open>/var/login.log\<close> and
  \<open>/home\<close>, and the first users \<open>root\<close> and \<open>halou\<close>; \<open>now k\<close> is the time of the \<open>k\<close>-th call. The process
  that \<open>main\<close> creates to test the network is left out.\<close>

definition terminal_main :: "fs_state \<Rightarrow> (nat \<Rightarrow> u64) \<Rightarrow> terminal \<Rightarrow> session option" where
  "terminal_main s now garbage = do {
     s1 \<leftarrow> sys_mkdir s (now 0) [47, 101, 116, 99, 0];
     s2 \<leftarrow> sys_mkfile s1 (now 1) passwd;
     s3 \<leftarrow> sys_mkdir s2 (now 2) [47, 118, 97, 114, 0];
     s4 \<leftarrow> sys_mkfile s3 (now 3) login_log;
     s5 \<leftarrow> sys_mkdir s4 (now 4) [47, 104, 111, 109, 101, 0];
     (s6, uid1) \<leftarrow> useradd s5 99 (now 5) root_name root_name;
     (s7, uid2) \<leftarrow> useradd s6 uid1 (now 6) [104, 97, 108, 111, 117, 0] [119, 111, 114, 108, 100, 0];
     t \<leftarrow> new_terminal garbage (cur_dir s7);
     begin_login \<lparr>s_fs = s7, s_term = t, s_last_uid = uid2, s_phase = Running\<rparr> }"


section \<open>Who runs commands\<close>

lemma last_loop_frame [frame]: "last_loop s fd b = Some (r, s') \<Longrightarrow> same_mount s s'"
  by (drule last_loop.raw_induct [where P = "\<lambda>s fd b r. same_mount s (snd r)", rotated])
    (auto simp: frame_step split: if_split_asm dest!: frame)

lemma last_cmd_frame [frame]: "last_cmd s = Some (r, s') \<Longrightarrow> same_mount s s'"
  by (auto simp: last_cmd_def frame_step dest!: frame)

lemma record_to_log_frame [frame]: "record_to_log s t now = Some s' \<Longrightarrow> same_mount s s'"
  by (auto simp: record_to_log_def frame_step dest!: frame)



definition session_ok :: "session \<Rightarrow> bool" where
  "session_ok ss \<longleftrightarrow>
     (if is_running ss then t_uid (s_term ss) \<noteq> -1 \<and> fs_uid (s_fs ss) = word_of_int (t_uid (s_term ss)) else fs_uid (s_fs ss) = 0)"

lemma begin_login_ok: "begin_login ss = Some ss' \<Longrightarrow> \<not> is_running ss' \<and> s_fs ss' = s_fs ss"
  by (auto simp: begin_login_def is_running_def bind_eq_Some_conv)












lemma terminal_main_ok:
  assumes "terminal_main s now garbage = Some ss" and "fs_uid s = 0"
  shows "session_ok ss"
  using assms by (auto simp: terminal_main_def frame_step session_ok_def dest!: frame begin_login_ok)





text \<open>A backspace in the login does not take the character back from the name that the terminal keeps.\<close>

lemma backspace_keeps_name:
  assumes "login_key s t g 8 = Some (s', t', g', r)"
  shows "t_username t' = t_username t"
  using assms by (auto simp: login_key_def bind_eq_Some_conv split: if_split_asm)

section \<open>The sizes of arrays\<close>



















section \<open>Witness\<close>











end
