(* ===== verification/Spec2Isabelle.thy ===== *)
theory Spec2Isabelle
  imports Image User_Mode Bitmap Ring_Buffer Sync Driver_Server Session
begin

text \<open>
  Verification of Shmily, a small operating system for 32-bit PCs in the manner of a microkernel.

  \<^bold>\<open>The program.\<close> The kernel (\<open>kernel/\<close>) schedules processes, passes messages and handles interrupts. Everything
  else is done by servers, which are processes that wait for a message, handle it and answer:
  the memory server (\<open>mm/\<close>), the file server (\<open>fs/\<close>), the driver server (\<open>dr/\<close>, with the disk, the keyboard
  and the network card), the network server (\<open>net/\<close>) and the terminal (\<open>terminal/\<close>), which logs users in and
  runs their commands. \<open>lib/\<close> and \<open>include/\<close> hold what they share, and \<open>tools/build_img.cc\<close> puts all of them
  into one image.

  \<^bold>\<open>The model.\<close> An operation of the code is a function of the state that it works on, with one theory per
  component. Machine integers are words of their width (\<open>u8\<close>, \<open>u16\<close>, \<open>u32\<close>, \<open>u64\<close>); an object in memory is
  the list of its cells and a pointer into it a position; an access outside an object, or through a null
  pointer, is \<open>None\<close>. So an operation returns an option where the code can fault, and a theorem that it returns
  \<open>Some\<close> says that it does not. A result \<open>-1\<close> of the code is the integer -1.

  \<^descr> Shared: \<open>Shmily_Prelude\<close> (words, array accesses, collections of rules), \<open>Lib_String\<close> (\<open>lib/string.cc\<close>),
    \<open>Byte_Codec\<close> (words in packed structures), \<open>Stdio\<close> (\<open>lib/stdio.cc\<close>, addresses in text form), \<open>Bitmap\<close>
    (\<open>lib/bitmap.cc\<close>), \<open>Ring_Buffer\<close> (\<open>lib/ring_buffer.cc\<close>, \<open>lib/indirect_ring_buffer.cc\<close>), \<open>Cycle_List\<close>
    (\<open>lib/cycle_list.cc\<close>).
  \<^descr> Kernel: \<open>Process\<close> (control blocks, ready queues, scheduler, timer, boot: \<open>kernel/process.cc\<close>,
    \<open>kernel/timer.cc\<close>, \<open>kernel/main.cc\<close>; state \<open>kstate\<close>), \<open>User_Mode\<close> (the entry into user mode), \<open>Ipc\<close>
    (\<open>kernel/ipc.cc\<close>, \<open>kernel/syscall_init.cc\<close>), \<open>Sync\<close> (\<open>kernel/sync.cc\<close>), \<open>Clock\<close> (\<open>kernel/cmos.cc\<close>,
    \<open>lib/time.cc\<close>), \<open>Machine\<close> (interrupt and page tables, task segment, power; state \<open>machine\<close>).
  \<^descr> Memory server: \<open>Doublebit_Map\<close> (\<open>mm/doublebit_map.cc\<close>), \<open>Memory\<close> (\<open>mm/memory.cc\<close>,
    \<open>mm/small_mem_header.cc\<close>, \<open>mm/swar.cc\<close>; state \<open>mm_state\<close>).
  \<^descr> File server: \<open>Inode\<close> (inodes, blocks, permissions; state \<open>fs_state\<close>), \<open>Directory\<close> (\<open>fs/dir.cc\<close>), \<open>File\<close>
    (\<open>fs/file.cc\<close>), \<open>File_System\<close> (\<open>fs/fs.cc\<close>), \<open>File_Frame\<close> (what no operation on files changes).
  \<^descr> Calls: \<open>Syscalls\<close> (the messages of \<open>lib/all_syscall.cc\<close>, the numbers of \<open>include/ipc_glo.h\<close>) and \<open>Servers\<close>
    (one round of the loops of \<open>fs/main.cc\<close>, \<open>mm/main.cc\<close> and \<open>kernel_work\<close>).
  \<^descr> Network server: \<open>Packet\<close> (Ethernet, ARP, IPv4, ICMP, UDP, DNS packets), \<open>Net_Interface\<close> (ARP cache,
    routes, interfaces), \<open>Tcp\<close> (\<open>net/tcp.cc\<close>), \<open>Net_Server\<close> (\<open>net/protocol_stack.cc\<close>, \<open>net/main.cc\<close>).
  \<^descr> Driver server: \<open>Disk_Driver\<close>, \<open>Keyboard\<close>, \<open>Ne2k\<close> and the loop in \<open>Driver_Server\<close> (\<open>dr/\<close>).
  \<^descr> Terminal: \<open>Users\<close> (\<open>terminal/user.cc\<close>, \<open>terminal/hahash.cc\<close>), \<open>Terminal\<close> (the shell, its commands and the
    login), \<open>Session\<close> (a session as a machine that reads keys, and the set-up in \<open>terminal/main.cc\<close>).
  \<^descr> Tool: \<open>Image\<close> (\<open>tools/build_img.cc\<close>).

  \<^bold>\<open>Interaction.\<close> A call of the library is the message that it sends; a server's round is a function of its state
  and the message; the objects that addresses in a message name are an argument of the round. \<open>Servers\<close>,
  \<open>Net_Server\<close> and \<open>Driver_Server\<close> show that caller and server agree on the meaning of the messages. How the
  message gets from one process to the other, and who runs meanwhile, is the subject of \<open>Ipc\<close> and
  \<open>Process\<close>. The kernel runs with interrupts disabled, so an operation of it is one step; where a process gives
  the processor away inside an operation, the operation is split there. Interleavings are the inductive
  relations \<open>lock_step\<close> of \<open>Sync\<close> and \<open>reaches\<close> of \<open>Session\<close>.

  \<^bold>\<open>Devices.\<close> What a driver writes to ports is a list; what a device answers is an argument, as a function of what was
  written to it where the theorem depends on that (\<open>Disk_Driver\<close>, \<open>Driver_Server\<close>), and the theorems name what
  they ask of it. The clock is a function from registers to values, and the keyboard a list of scan codes.

  \<^bold>\<open>Loops.\<close> Loops with a bound are recursive functions with a termination proof. Loops that end only when a
  device or the data lets them are partial functions, for which not ending is \<open>None\<close>; the theorems about
  them say that they return. There is no fuel. The loops of the servers, of the shell and of the login never end:
  they are given by what one round does.

  \<^bold>\<open>Contracts.\<close> \<open>slot_allocator\<close> (in \<open>Bitmap\<close>) is what inodes, blocks, physical pages and file descriptors
  promise: what is handed out was free and is not handed out again before it is given back. \<open>linked_list\<close> (in
  \<open>Cycle_List\<close>) is what the ready queues and the queues of memory blocks rely on: each operation implements the one
  on lists and leaves other lists alone. \<open>bounded_queue\<close> and \<open>slot_ring\<close> (in \<open>Ring_Buffer\<close>) are the
  contracts of the keyboard ring and of the ring of packet buffers. Each is interpreted on the definitions of the
  model.

  \<^bold>\<open>What is shown.\<close> Of the kernel: the scheduler picks the first process of the first eligible priority and keeps
  the queues; blocking and waking move exactly one process; messages are delivered, and a call to a server comes
  back with the answer; at most one process holds a lock. Of the memory server: what an allocation hands out,
  and that pages are distinct and translated as mapped. Of the file server: paths resolve along directory entries;
  entries that are created are found and those that are removed are gone; a short text that is written is read back;
  a new file system has the layout that all of this relies on; a text of more than one sector is not written
  correctly. Of the network: packets carry valid checksums, addresses are resolved, connections are
  established and carry text in order. Of the drivers: partitions, sectors, keys and packets arrive where the
  servers look for them. Of the terminal: a typed line becomes a command with its arguments, paths become
  absolute, the login finds the account, and commands run only after a login and on behalf of its user. Lemmas
  that are not listed as properties record faults of the code at the place where they arise.

  \<^bold>\<open>Not modelled.\<close> The assembly code (boot sector, loader, interrupt entries, screen output) and the inline assembly
  for ports and for switching stacks; what is printed, except where text is formatted into a buffer; the
  registers that \<open>switch_to\<close> saves; the heap behind \<open>malloc\<close> in the servers other than the memory server,
  where a block is a cleared object of its own; \<open>exec_file\<close>, a stub, and \<open>test_net_proc\<close>, a test that
  \<open>terminal/main.cc\<close> starts. The accessors of the message class are the fields of the record.
\<close>

end
